(* ===== verification/Collab_Prelude.thy ===== *)
theory Collab_Prelude
  imports Main "HOL-Library.Word" "HOL-Library.AList"
begin

text \<open>
  Shared vocabulary of the development: the machine integers of the C++ sources, the two
  editing primitives of a text buffer, and the finite maps that stand for
  \<^verbatim>\<open>std::unordered_map\<close>.

  A \<^verbatim>\<open>uint32_t\<close> is a 32-bit word, so that its sums and differences wrap around as they do
  in the program; \<^verbatim>\<open>std::string\<close> is a list of 8-bit characters.
  The collection \<open>word_nat\<close> moves a claim about words to the natural numbers once the
  absence of a wrap-around is known; \<open>umap\<close> holds the laws of the finite maps.
\<close>

named_theorems word_nat \<open>reading 32-bit arithmetic in the natural numbers\<close>
named_theorems umap \<open>laws of association lists used as unordered maps\<close>

type_synonym u8 = "8 word"
type_synonym u16 = "16 word"
type_synonym u32 = "32 word"
type_synonym u64 = "64 word"

section \<open>Machine integers\<close>

text \<open>\<^verbatim>\<open>static_cast<uint32_t>(s.size())\<close>: the size of a container, cut_out down to 32 bits.\<close>

definition size32 :: "'a list \<Rightarrow> u32" where
  "size32 xs = word_of_nat (length xs)"

lemma unat_word_of_nat32: "n < 2 ^ 32 \<Longrightarrow> unat (word_of_nat n :: u32) = n"
  by (simp add: unat_of_nat take_bit_eq_mod)

lemma unat_size32 [word_nat]: "length xs < 2 ^ 32 \<Longrightarrow> unat (size32 xs) = length xs"
  by (simp add: size32_def unat_word_of_nat32)

lemma size32_Nil [simp]: "size32 [] = 0"
  by (simp add: size32_def)

lemma unat_add_no_wrap [word_nat]:
  fixes a b :: u32
  assumes "unat a + unat b < 2 ^ 32"
  shows "unat (a + b) = unat a + unat b"
  using assms by (simp add: unat_word_ariths)

lemma unat_diff_no_wrap [word_nat]:
  fixes a b :: u32
  assumes "unat b \<le> unat a"
  shows "unat (a - b) = unat a - unat b"
  using assms by (simp add: unat_sub word_le_nat_alt)

lemma unat_min [word_nat]:
  fixes a b :: u32
  shows "unat (min a b) = min (unat a) (unat b)"
  by (simp add: min_def word_le_nat_alt)

lemma unat_max [word_nat]:
  fixes a b :: u32
  shows "unat (max a b) = max (unat a) (unat b)"
  by (simp add: max_def word_le_nat_alt)

lemma unat_u32_less: "unat (a :: u32) < 2 ^ 32"
  using unsigned_less [of a] by simp

lemma unat_ucast_u64: "unat (ucast (n :: u32) :: u64) = unat n"
proof -
  have "unat n < 2 ^ LENGTH(32)" by (rule unsigned_less)
  then show ?thesis by (simp add: unsigned_ucast_eq take_bit_nat_eq_self)
qed

lemma sint_small [word_nat]:
  fixes a :: u32
  assumes "unat a < 2 ^ 31"
  shows "sint a = int (unat a)"
proof -
  from assms have "int (unat a) < int (2 ^ 31)"
    by (simp only: of_nat_less_iff)
  then have "uint a < 2 ^ 31"
    by (simp only: uint_nat of_nat_power of_nat_numeral)
  then have "signed_take_bit 31 (uint a) = uint a"
    by (intro signed_take_bit_int_eq_self) (simp_all add: order_trans [OF _ uint_ge_0])
  then show ?thesis by (simp add: sint_uint)
qed

lemma sint_diff_small [word_nat]:
  fixes a b :: u32
  assumes "unat a < 2 ^ 31" "unat b < 2 ^ 31"
  shows "sint (a - b) = int (unat a) - int (unat b)"
proof -
  have self: "signed_take_bit 31 (int x - int y) = int x - int y"
    if "x < 2 ^ 31" "y < 2 ^ 31" for x y
    using that by (intro signed_take_bit_int_eq_self) simp_all
  have "sint (a - b) = signed_take_bit 31 (sint a - sint b)"
    by (simp add: sint_word_ariths)
  also have "\<dots> = signed_take_bit 31 (int (unat a) - int (unat b))"
    using assms by (simp only: sint_small)
  also have "\<dots> = int (unat a) - int (unat b)"
    using assms by (rule self)
  finally show ?thesis .
qed

lemmas word_order = word_less_nat_alt word_le_nat_alt

section \<open>Decimal numerals\<close>

text \<open>\<^verbatim>\<open>std::format("{}", n)\<close> of an unsigned number.\<close>

fun decimal :: "nat \<Rightarrow> string" where
  "decimal n =
     (if n < 10 then [char_of (48 + n)] else decimal (n div 10) @ [char_of (48 + n mod 10)])"

declare decimal.simps [simp del]

lemma decimal_not_Nil: "decimal n \<noteq> []"
  by (subst decimal.simps) simp

definition undecimal :: "string \<Rightarrow> nat" where
  "undecimal s = foldl (\<lambda>n c. 10 * n + (of_char c - 48)) 0 s"

lemma undecimal_decimal: "undecimal (decimal n) = n"
proof (induction n rule: decimal.induct)
  case (1 n)
  have digit: "of_char (char_of (48 + k) :: char) - 48 = k" if "k < 10" for k :: nat
    using that by (simp add: of_char_of take_bit_eq_mod)
  show ?case
  proof (cases "n < 10")
    case True
    then show ?thesis
      by (simp add: decimal.simps [of n] undecimal_def digit)
  next
    case False
    with "1.IH" have IH: "undecimal (decimal (n div 10)) = n div 10" by simp
    have "of_char (char_of (48 + n mod 10) :: char) - 48 = n mod 10"
      by (rule digit) simp
    with False IH show ?thesis
      by (simp add: decimal.simps [of n] undecimal_def)
  qed
qed

lemma decimal_inject [simp]: "decimal m = decimal n \<longleftrightarrow> m = n"
  by (metis undecimal_decimal)

lemma decimal_digits:
  "c \<in> set (decimal n) \<Longrightarrow> (48 :: nat) \<le> of_char c \<and> of_char c \<le> (57 :: nat)"
proof (induction n rule: decimal.induct)
  case (1 n)
  have digit: "48 \<le> (of_char (char_of (48 + k) :: char) :: nat)
      \<and> of_char (char_of (48 + k) :: char) \<le> (57 :: nat)" if "k < 10" for k :: nat
    using that by (simp add: of_char_of take_bit_eq_mod)
  show ?case
  proof (cases "n < 10")
    case True
    with "1.prems" show ?thesis
      using digit [of n] by (simp add: decimal.simps [of n])
  next
    case False
    with "1.prems" consider "c \<in> set (decimal (n div 10))" | "c = char_of (48 + n mod 10)"
      by (auto simp: decimal.simps [of n])
    then show ?thesis
      using False "1.IH" digit [of "n mod 10"] by cases auto
  qed
qed

section \<open>Editing a text buffer\<close>

text \<open>
  What \<^verbatim>\<open>std::string::insert\<close> and \<^verbatim>\<open>std::string::erase\<close> do to a buffer, at a position in
  the natural numbers. Both are total: past the end, insertion appends and deletion removes
  nothing, which is what the clamping in \<^verbatim>\<open>collab::apply\<close> amounts to.
\<close>

definition splice_in :: "nat \<Rightarrow> 'a list \<Rightarrow> 'a list \<Rightarrow> 'a list" where
  "splice_in p t d = take p d @ t @ drop p d"

definition cut_out :: "nat \<Rightarrow> nat \<Rightarrow> 'a list \<Rightarrow> 'a list" where
  "cut_out p l d = take p d @ drop (p + l) d"

lemma length_splice_in [simp]: "length (splice_in p t d) = length d + length t"
  by (simp add: splice_in_def)

lemma length_cut: "length (cut_out p l d) = length d - min l (length d - p)"
  by (auto simp: cut_out_def)

lemma splice_in_Nil [simp]: "splice_in p [] d = d"
  by (simp add: splice_in_def)

lemma cut_zero [simp]: "cut_out p 0 d = d"
  by (simp add: cut_out_def)

lemma splice_in_clamp: "splice_in (min p (length d)) t d = splice_in p t d"
  by (simp add: splice_in_def min_def)

lemma cut_clamp: "cut_out (min p (length d)) (min l (length d - min p (length d))) d = cut_out p l d"
  by (auto simp: cut_out_def min_def)

text \<open>The commutation laws of the two primitives, one for each branch of the transformation.\<close>

lemma splice_in_commute:
  assumes "p \<le> q" "p \<le> length d"
  shows "splice_in (q + length t) u (splice_in p t d) = splice_in p t (splice_in q u d)"
  using assms
  by (auto simp: splice_in_def take_drop min_def intro!: arg_cong2 [where f = take])

lemma cut_after_splice_in:
  assumes "p \<le> q" "p \<le> length d"
  shows "cut_out (q + length t) l (splice_in p t d) = splice_in p t (cut_out q l d)"
  using assms
  by (auto simp: splice_in_def cut_out_def take_drop min_def intro!: arg_cong2 [where f = take])

lemma cut_before_splice_in:
  assumes "q + l \<le> p" "p \<le> length d"
  shows "cut_out q l (splice_in p t d) = splice_in (p - l) t (cut_out q l d)"
  using assms
  by (auto simp: splice_in_def cut_out_def take_drop min_def intro!: arg_cong2 [where f = take])

lemma cut_around_splice_in:
  assumes "q < p" "p < q + l" "p \<le> length d"
  shows "cut_out q (l + length t) (splice_in p t d) = cut_out q l d"
  using assms by (simp add: splice_in_def cut_out_def min_def)

lemma cut_cut_disjoint:
  assumes "p + l \<le> q"
  shows "cut_out (q - l) k (cut_out p l d) = cut_out p l (cut_out q k d)"
  using assms
  by (auto simp: cut_out_def take_drop min_def intro!: arg_cong2 [where f = take])

lemma cut_cut_overlap:
  assumes "o' = min (p + l) (q + k) - max p q" "max p q < min (p + l) (q + k)"
  shows "cut_out (min p q) (k - o') (cut_out p l d) = cut_out (min p q) (l - o') (cut_out q k d)"
  using assms by (auto simp: cut_out_def min_def max_def take_drop add.commute)

lemma distinct_singleton_list: "distinct xs \<Longrightarrow> set xs = {x} \<Longrightarrow> xs = [x]"
  by (cases xs) (auto simp: subset_singleton_iff)

section \<open>Unordered maps\<close>

text \<open>
  A \<^verbatim>\<open>std::unordered_map\<close> is an association list with distinct keys. The order of the list
  stands for the iteration order, which the C++ standard leaves open: statements about a
  traversal are made about the set of what it visits.
\<close>

type_synonym ('k, 'v) umap = "('k \<times> 'v) list"

definition um_find :: "('k, 'v) umap \<Rightarrow> 'k \<Rightarrow> 'v option" where
  "um_find m k = map_of m k"

definition um_set :: "'k \<Rightarrow> 'v \<Rightarrow> ('k, 'v) umap \<Rightarrow> ('k, 'v) umap" where
  "um_set k v m = AList.update k v m"

definition um_erase :: "'k \<Rightarrow> ('k, 'v) umap \<Rightarrow> ('k, 'v) umap" where
  "um_erase k m = AList.delete k m"

definition um_wf :: "('k, 'v) umap \<Rightarrow> bool" where
  "um_wf m = distinct (map fst m)"

text \<open>The contract of a keyed store, and what its clients can conclude from it.\<close>

locale keyed_store =
  fixes empty :: "'m"
    and lookup :: "'m \<Rightarrow> 'k \<Rightarrow> 'v option"
    and store :: "'k \<Rightarrow> 'v \<Rightarrow> 'm \<Rightarrow> 'm"
    and remove :: "'k \<Rightarrow> 'm \<Rightarrow> 'm"
    and invar :: "'m \<Rightarrow> bool"
  assumes lookup_empty: "lookup empty k = None"
    and lookup_store: "lookup (store k v m) k' = (if k' = k then Some v else lookup m k')"
    and lookup_remove: "lookup (remove k m) k' = (if k' = k then None else lookup m k')"
    and invar_empty: "invar empty"
    and invar_store: "invar m \<Longrightarrow> invar (store k v m)"
    and invar_remove: "invar m \<Longrightarrow> invar (remove k m)"
begin

lemma store_overwrites: "lookup (store k v (store k w m)) = lookup (store k v m)"
  by (rule ext) (simp add: lookup_store)

lemma store_commutes:
  "k \<noteq> l \<Longrightarrow> lookup (store k v (store l w m)) = lookup (store l w (store k v m))"
  by (rule ext) (simp add: lookup_store)

lemma remove_undoes_store:
  "lookup m k = None \<Longrightarrow> lookup (remove k (store k v m)) = lookup m"
  by (rule ext) (simp add: lookup_store lookup_remove)

lemma dom_store: "dom (lookup (store k v m)) = insert k (dom (lookup m))"
  by (auto simp: dom_def lookup_store)

lemma dom_remove: "dom (lookup (remove k m)) = dom (lookup m) - {k}"
  by (auto simp: dom_def lookup_remove)

end

interpretation um: keyed_store "[]" um_find um_set um_erase um_wf
proof unfold_locales
  fix k k' :: 'a and v :: 'b and m :: "('a, 'b) umap"
  show "um_find (um_set k v m) k' = (if k' = k then Some v else um_find m k')"
    by (simp add: um_find_def um_set_def update_conv)
  show "um_find (um_erase k m) k' = (if k' = k then None else um_find m k')"
    by (simp add: um_find_def um_erase_def delete_conv)
  show "um_wf m \<Longrightarrow> um_wf (um_set k v m)"
    by (simp add: um_wf_def um_set_def distinct_update)
  show "um_wf m \<Longrightarrow> um_wf (um_erase k m)"
    by (simp add: um_wf_def um_erase_def distinct_delete)
qed (simp_all add: um_find_def um_wf_def)

lemmas um_laws [umap] =
  um.lookup_empty um.lookup_store um.lookup_remove um.invar_empty um.invar_store um.invar_remove

lemma um_find_in [umap]: "um_wf m \<Longrightarrow> (k, v) \<in> set m \<longleftrightarrow> um_find m k = Some v"
  by (simp add: um_find_def um_wf_def)

lemma um_keys [umap]: "fst ` set m = dom (um_find m)"
  by (simp add: um_find_def [abs_def] dom_map_of_conv_image_fst)

lemma um_values: "um_wf m \<Longrightarrow> snd ` set m = ran (um_find m)"
  by (simp add: um_find_def [abs_def] um_wf_def ran_distinct)

lemma um_wf_filter [umap]: "um_wf m \<Longrightarrow> um_wf (filter P m)"
  by (simp add: um_wf_def distinct_map_filter)

lemma um_find_filter [umap]:
  assumes "um_wf m"
  shows "um_find (filter P m) k =
    (case um_find m k of None \<Rightarrow> None | Some v \<Rightarrow> if P (k, v) then Some v else None)"
proof -
  have "um_wf (filter P m)" using assms by (rule um_wf_filter)
  then have iff: "um_find (filter P m) k = Some v \<longleftrightarrow> um_find m k = Some v \<and> P (k, v)" for v
    using assms by (auto simp flip: um_find_in)
  show ?thesis
  proof (cases "um_find m k")
    case None
    then have "um_find (filter P m) k = None"
      by (metis iff not_None_eq option.distinct(1))
    then show ?thesis by (simp add: None)
  next
    case (Some v)
    then show ?thesis
      by (cases "P (k, v)") (simp_all add: iff, metis iff not_None_eq option.inject)
  qed
qed

end
