(* ===== verification/Collab_Operation.thy ===== *)
theory Collab_Operation
  imports Collab_Prelude
begin

text \<open>
  Editing operations: \<^verbatim>\<open>core/include/collab/operation.h\<close> and \<^verbatim>\<open>core/src/operation.cpp\<close>.
  An operation carries both a text and a length; an insertion uses the text (and its length
  for shifting other operations), a deletion uses the length.
\<close>

datatype op_kind = Insert | Delete

record operation =
  op_type :: op_kind
  position :: u32
  op_text :: string
  op_length :: u32
  userId :: u32
  op_revision :: u32

definition is_noop :: "operation \<Rightarrow> bool" where
  "is_noop op =
     (if op_type op = Insert \<and> op_text op = [] then True
      else if op_type op = Delete \<and> op_length op = 0 then True
      else False)"

definition op_to_string :: "operation \<Rightarrow> string" where
  "op_to_string op =
     (if op_type op = Insert then
        ''Insert(pos='' @ decimal (unat (position op)) @ '', text='' @ [CHR 0x22] @ op_text op
        @ [CHR 0x22] @ '', uid='' @ decimal (unat (userId op))
        @ '', rev='' @ decimal (unat (op_revision op)) @ '')''
      else
        ''Delete(pos='' @ decimal (unat (position op)) @ '', len='' @ decimal (unat (op_length op))
        @ '', text='' @ [CHR 0x22] @ op_text op
        @ [CHR 0x22] @ '', uid='' @ decimal (unat (userId op))
        @ '', rev='' @ decimal (unat (op_revision op)) @ '')'')"

definition make_insert :: "u32 \<Rightarrow> string \<Rightarrow> u32 \<Rightarrow> u32 \<Rightarrow> operation" where
  "make_insert pos txt uid rv =
     \<lparr>op_type = Insert, position = pos, op_text = txt, op_length = size32 txt,
      userId = uid, op_revision = rv\<rparr>"

definition make_delete :: "u32 \<Rightarrow> u32 \<Rightarrow> string \<Rightarrow> u32 \<Rightarrow> u32 \<Rightarrow> operation" where
  "make_delete pos len txt uid rv =
     \<lparr>op_type = Delete, position = pos, op_text = txt, op_length = len,
      userId = uid, op_revision = rv\<rparr>"

text \<open>An insertion is coherent when its length field is the length of its text.\<close>

definition coherent :: "operation \<Rightarrow> bool" where
  "coherent op = (op_type op = Insert \<longrightarrow>
     length (op_text op) < 2 ^ 32 \<and> op_length op = size32 (op_text op))"

lemma make_insert_simps [simp]:
  "op_type (make_insert p t u r) = Insert"
  "position (make_insert p t u r) = p"
  "op_text (make_insert p t u r) = t"
  "op_length (make_insert p t u r) = size32 t"
  "userId (make_insert p t u r) = u"
  "op_revision (make_insert p t u r) = r"
  by (simp_all add: make_insert_def)

lemma make_delete_simps [simp]:
  "op_type (make_delete p l t u r) = Delete"
  "position (make_delete p l t u r) = p"
  "op_text (make_delete p l t u r) = t"
  "op_length (make_delete p l t u r) = l"
  "userId (make_delete p l t u r) = u"
  "op_revision (make_delete p l t u r) = r"
  by (simp_all add: make_delete_def)

lemma coherent_make [simp]:
  "length t < 2 ^ 32 \<Longrightarrow> coherent (make_insert p t u r)"
  "coherent (make_delete p l t u r)"
  by (simp_all add: coherent_def)

lemma is_noop_Insert: "op_type op = Insert \<Longrightarrow> is_noop op \<longleftrightarrow> op_text op = []"
  by (simp add: is_noop_def)

lemma is_noop_Delete: "op_type op = Delete \<Longrightarrow> is_noop op \<longleftrightarrow> op_length op = 0"
  by (simp add: is_noop_def)

lemma op_kind_cases: "op_type op = Insert \<or> op_type op = Delete"
  by (cases "op_type op") simp_all

end
