(* ===== verification/Collab_OT.thy ===== *)
theory Collab_OT
  imports Collab_Operation
begin

text \<open>
  Operational transformation: \<^verbatim>\<open>core/src/ot.cpp\<close>. The three pairwise transformations, their
  dispatch and the application of an operation to a document, at the widths of the source,
  followed by the reference semantics of an operation on a buffer and the transformation
  property: two sites that apply two concurrent operations in opposite orders, each after
  transforming the second against the first, hold the same text.
\<close>

section \<open>The code\<close>

definition transform_insert_insert :: "operation \<Rightarrow> operation \<Rightarrow> operation \<times> operation" where
  "transform_insert_insert a b =
     (if position a < position b then (a, b\<lparr>position := position b + op_length a\<rparr>)
      else if position a > position b then (a\<lparr>position := position a + op_length b\<rparr>, b)
      else if userId a < userId b then (a, b\<lparr>position := position b + op_length a\<rparr>)
      else if userId a > userId b then (a\<lparr>position := position a + op_length b\<rparr>, b)
      else (a, b))"

definition transform_insert_delete :: "operation \<Rightarrow> operation \<Rightarrow> operation \<times> operation" where
  "transform_insert_delete ins del =
     (let pos_ins = position ins; pos_del = position del in
      if pos_ins \<le> pos_del then (ins, del\<lparr>position := pos_del + op_length ins\<rparr>)
      else if pos_ins \<ge> pos_del + op_length del
        then (ins\<lparr>position := pos_ins - op_length del\<rparr>, del)
      else (ins\<lparr>position := pos_del, op_text := '''', op_length := 0\<rparr>,
            del\<lparr>position := pos_del, op_length := op_length del + op_length ins\<rparr>))"

text \<open>
  The overlap is computed in \<^verbatim>\<open>int32_t\<close>: both ends are reinterpreted as signed 32-bit
  numbers and subtracted. The difference is kept here as a 32-bit word whose signed reading is
  the \<^verbatim>\<open>int32_t\<close>; where the subtraction leaves that range, which C++ leaves undefined, the
  model wraps around as two's complement machines do.
\<close>

definition transform_delete_delete :: "operation \<Rightarrow> operation \<Rightarrow> operation \<times> operation" where
  "transform_delete_delete a b =
     (let end_a = position a + op_length a;
          end_b = position b + op_length b;
          diff = min end_a end_b - max (position a) (position b);
          overlap = (if sint diff < 0 then 0 else diff)
      in if overlap = 0 then
           (if position a < position b then (a, b\<lparr>position := position b - op_length a\<rparr>)
            else if position a > position b then (a\<lparr>position := position a - op_length b\<rparr>, b)
            else (a, b))
         else
           (let min_pos = min (position a) (position b) in
            (a\<lparr>position := min_pos, op_length := op_length a - overlap\<rparr>,
             b\<lparr>position := min_pos, op_length := op_length b - overlap\<rparr>)))"

definition transform :: "operation \<Rightarrow> operation \<Rightarrow> operation \<times> operation" where
  "transform a b =
     (if op_type a = Insert \<and> op_type b = Insert then transform_insert_insert a b
      else if op_type a = Insert \<and> op_type b = Delete then transform_insert_delete a b
      else if op_type a = Delete \<and> op_type b = Insert then
        (case transform_insert_delete b a of (ins_prime, del_prime) \<Rightarrow> (del_prime, ins_prime))
      else transform_delete_delete a b)"

definition apply_op :: "string \<Rightarrow> operation \<Rightarrow> string" where
  "apply_op document op =
     (if is_noop op then document
      else if op_type op = Insert then
        (let pos = min (position op) (size32 document) in
         take (unat pos) document @ op_text op @ drop (unat pos) document)
      else
        (let pos = min (position op) (size32 document);
             actual_len = min (op_length op) (word_of_nat (length document - unat pos))
         in take (unat pos) document @ drop (unat pos + unat actual_len) document))"

section \<open>Reference semantics\<close>

text \<open>
  What an operation means, in the natural numbers and without clamping or wrap-around. The code
  agrees with it on every document shorter than \<open>2 ^ 32\<close> bytes.
\<close>

definition effect :: "operation \<Rightarrow> string \<Rightarrow> string" where
  "effect op d =
     (if op_type op = Insert then splice_in (unat (position op)) (op_text op) d
      else cut_out (unat (position op)) (unat (op_length op)) d)"

lemma apply_op_effect:
  assumes "length d < 2 ^ 32"
  shows "apply_op d op = effect op d"
proof (cases "op_type op")
  case Insert
  let ?p = "unat (position op)"
  have "unat (min (position op) (size32 d)) = min ?p (length d)"
    using assms by (simp add: word_nat)
  then have "apply_op d op = splice_in (min ?p (length d)) (op_text op) d"
    using Insert by (simp add: apply_op_def is_noop_def splice_in_def Let_def)
  then show ?thesis
    using Insert by (simp add: splice_in_clamp effect_def)
next
  case Delete
  let ?p = "unat (position op)" and ?l = "unat (op_length op)"
  let ?m = "min ?p (length d)"
  have pos: "unat (min (position op) (size32 d)) = ?m"
    using assms by (simp add: word_nat)
  have rest: "unat (word_of_nat (length d - ?m) :: u32) = length d - ?m"
    using assms by (intro unat_word_of_nat32) simp
  have "apply_op d op = cut_out ?m (min ?l (length d - ?m)) d"
    using Delete pos rest
    by (simp add: apply_op_def is_noop_def cut_out_def Let_def unat_min del: of_nat_diff)
  then show ?thesis
    using Delete by (simp add: cut_clamp effect_def)
qed

text \<open>
  An operation fits a document of \<open>n\<close> bytes when an editor showing that document can have
  produced it: an insertion at a position of the document, a deletion of bytes the document has.
  Texts are kept below \<open>2 ^ 31\<close> bytes, so that no sum of a position and a length leaves the
  range of \<^verbatim>\<open>int32_t\<close>.
\<close>

definition fits :: "nat \<Rightarrow> operation \<Rightarrow> bool" where
  "fits n op =
     (if op_type op = Insert then
        unat (position op) \<le> n \<and> op_length op = size32 (op_text op)
        \<and> n + length (op_text op) < 2 ^ 31
      else unat (position op) + unat (op_length op) \<le> n \<and> n < 2 ^ 31)"

text \<open>How many bytes an operation adds to a document.\<close>

definition added :: "operation \<Rightarrow> nat" where
  "added op = (if op_type op = Insert then length (op_text op) else 0)"

text \<open>Two insertions of one user at one place have no tie-break.\<close>

definition tied :: "operation \<Rightarrow> operation \<Rightarrow> bool" where
  "tied a b = (op_type a = Insert \<and> op_type b = Insert
     \<and> position a = position b \<and> userId a = userId b)"

text \<open>Two operations that the transformation property speaks about, on a document of \<open>n\<close> bytes.\<close>

definition concurrent :: "nat \<Rightarrow> operation \<Rightarrow> operation \<Rightarrow> bool" where
  "concurrent n a b = (fits n a \<and> fits n b \<and> n + added a + added b < 2 ^ 31 \<and> \<not> tied a b)"

section \<open>The transformation property\<close>

lemma fits_Insert:
  assumes "fits n op" "op_type op = Insert"
  shows "unat (position op) \<le> n" "unat (op_length op) = length (op_text op)"
    "n + length (op_text op) < 2 ^ 31"
  using assms by (simp_all add: fits_def unat_size32)

lemma fits_Delete:
  assumes "fits n op" "op_type op = Delete"
  shows "unat (position op) + unat (op_length op) \<le> n" "n < 2 ^ 31"
  using assms by (simp_all add: fits_def)

lemma transform_insert_insert_converges:
  assumes "concurrent (length d) a b" "op_type a = Insert" "op_type b = Insert"
    and "transform_insert_insert a b = (a', b')"
  shows "effect b' (effect a d) = effect a' (effect b d)"
proof -
  note a = fits_Insert [of "length d" a] and b = fits_Insert [of "length d" b]
  have fit: "fits (length d) a" "fits (length d) b" and "\<not> tied a b"
    and room: "length d + length (op_text a) + length (op_text b) < 2 ^ 31"
    using assms(1-3) by (auto simp: concurrent_def added_def)
  then have "position a \<noteq> position b \<or> userId a \<noteq> userId b"
    using assms(2,3) by (simp add: tied_def)
  moreover have "a' = fst (transform_insert_insert a b)" "b' = snd (transform_insert_insert a b)"
    using assms(4) by simp_all
  ultimately consider
      "position a \<le> position b" "a' = a" "b' = b\<lparr>position := position b + op_length a\<rparr>"
    | "position b \<le> position a" "b' = b" "a' = a\<lparr>position := position a + op_length b\<rparr>"
    by (cases "position a" "position b" rule: linorder_cases;
        cases "userId a" "userId b" rule: linorder_cases)
      (simp_all add: transform_insert_insert_def)
  then show ?thesis
  proof cases
    case 1
    have "unat (position b + op_length a) = unat (position b) + length (op_text a)"
      using fit room assms(2,3) a b by (simp add: unat_add_no_wrap)
    with 1 fit assms(2,3) a show ?thesis
      by (simp add: effect_def splice_in_commute word_le_nat_alt)
  next
    case 2
    have "unat (position a + op_length b) = unat (position a) + length (op_text b)"
      using fit room assms(2,3) a b by (simp add: unat_add_no_wrap)
    with 2 fit assms(2,3) b show ?thesis
      by (simp add: effect_def splice_in_commute word_le_nat_alt)
  qed
qed

lemma transform_insert_delete_converges:
  assumes "concurrent (length d) ins del" "op_type ins = Insert" "op_type del = Delete"
    and "transform_insert_delete ins del = (ins', del')"
  shows "effect del' (effect ins d) = effect ins' (effect del d)"
proof -
  have fit: "fits (length d) ins" "fits (length d) del"
    using assms(1) by (auto simp: concurrent_def)
  note i = fits_Insert [OF fit(1) assms(2)] and e = fits_Delete [OF fit(2) assms(3)]
  have fin: "unat (position del + op_length del) = unat (position del) + unat (op_length del)"
    using e by (simp add: unat_add_no_wrap)
  consider (before) "unat (position ins) \<le> unat (position del)"
    | (after) "unat (position del) + unat (op_length del) \<le> unat (position ins)"
        "unat (position del) < unat (position ins)"
    | (inside) "unat (position del) < unat (position ins)"
        "unat (position ins) < unat (position del) + unat (op_length del)"
    by linarith
  then show ?thesis
  proof cases
    case before
    then have "ins' = ins" "del' = del\<lparr>position := position del + op_length ins\<rparr>"
      using assms(4) by (auto simp: transform_insert_delete_def word_order)
    moreover have "unat (position del + op_length ins) = unat (position del) + length (op_text ins)"
      using i e by (simp add: unat_add_no_wrap)
    ultimately show ?thesis
      using before i assms(2,3) by (simp add: effect_def cut_after_splice_in)
  next
    case after
    then have "ins' = ins\<lparr>position := position ins - op_length del\<rparr>" "del' = del"
      using assms(4) by (auto simp: transform_insert_delete_def word_order fin)
    moreover have "unat (position ins - op_length del) = unat (position ins) - unat (op_length del)"
      using after by (simp add: unat_diff_no_wrap)
    ultimately show ?thesis
      using after i assms(2,3) by (simp add: effect_def cut_before_splice_in)
  next
    case inside
    then have "ins' = ins\<lparr>position := position del, op_text := [], op_length := 0\<rparr>"
      "del' = del\<lparr>position := position del, op_length := op_length del + op_length ins\<rparr>"
      using assms(4) by (auto simp: transform_insert_delete_def word_order fin)
    moreover have "unat (op_length del + op_length ins) = unat (op_length del) + length (op_text ins)"
      using i e by (simp add: unat_add_no_wrap)
    ultimately show ?thesis
      using inside i assms(2,3) by (simp add: effect_def cut_around_splice_in)
  qed
qed

text \<open>
  The branches of the deletion-against-deletion case, read in the natural numbers: the ranges
  are disjoint (or one is empty and lies inside the other), or they overlap.
\<close>

lemma transform_delete_delete_cases:
  fixes a b :: operation
  defines "p \<equiv> unat (position a)" and "l \<equiv> unat (op_length a)"
    and "q \<equiv> unat (position b)" and "k \<equiv> unat (op_length b)"
  assumes "p + l < 2 ^ 31" "q + k < 2 ^ 31" and "transform_delete_delete a b = (a', b')"
  obtains (left) "min (p + l) (q + k) \<le> max p q" "p < q"
      "a' = a" "b' = b\<lparr>position := position b - op_length a\<rparr>"
    | (right) "min (p + l) (q + k) \<le> max p q" "q < p"
      "a' = a\<lparr>position := position a - op_length b\<rparr>" "b' = b"
    | (same) "min (p + l) (q + k) \<le> max p q" "p = q" "a' = a" "b' = b"
    | (overlap) ov where "max p q < min (p + l) (q + k)"
      "unat ov = min (p + l) (q + k) - max p q"
      "a' = a\<lparr>position := min (position a) (position b), op_length := op_length a - ov\<rparr>"
      "b' = b\<lparr>position := min (position a) (position b), op_length := op_length b - ov\<rparr>"
proof -
  let ?hi = "min (position a + op_length a) (position b + op_length b)"
  let ?lo = "max (position a) (position b)"
  have hi: "unat ?hi = min (p + l) (q + k)"
    using assms by (simp add: unat_min unat_add_no_wrap)
  have lo: "unat ?lo = max p q"
    using assms by (simp add: unat_max)
  have diff: "sint (?hi - ?lo) = int (min (p + l) (q + k)) - int (max p q)"
    using assms(5,6) by (subst sint_diff_small) (simp_all add: hi lo)
  show thesis
  proof (cases "max p q < min (p + l) (q + k)")
    case True
    then have ov: "unat (?hi - ?lo) = min (p + l) (q + k) - max p q"
      by (simp add: unat_diff_no_wrap hi lo)
    with True have "?hi - ?lo \<noteq> 0" by (auto simp: unat_eq_zero [symmetric] simp del: unat_eq_zero)
    moreover have "\<not> sint (?hi - ?lo) < 0" using True unfolding diff by linarith
    ultimately show thesis
      using assms(7) ov True
      by (intro overlap [of "?hi - ?lo"]) (auto simp: transform_delete_delete_def Let_def)
  next
    case False
    have "?hi = ?lo" if "\<not> sint (?hi - ?lo) < 0"
    proof -
      have "unat ?hi = unat ?lo" using that False unfolding diff hi lo by linarith
      then show ?thesis by (simp only: word_unat_eq_iff)
    qed
    then have zero: "(if sint (?hi - ?lo) < 0 then 0 else ?hi - ?lo) = 0" by simp
    have eq: "(a', b') =
        (if position a < position b then (a, b\<lparr>position := position b - op_length a\<rparr>)
         else if position a > position b then (a\<lparr>position := position a - op_length b\<rparr>, b)
         else (a, b))"
      unfolding assms(7) [symmetric] transform_delete_delete_def Let_def zero
      by (simp only: simp_thms if_True)
    from False have disjoint: "min (p + l) (q + k) \<le> max p q" by (simp only: not_less)
    show thesis
    proof (cases "position a" "position b" rule: linorder_cases)
      case less
      then have "p < q" by (simp only: p_def q_def word_less_nat_alt)
      then show thesis using eq less by (intro left [OF disjoint]) simp_all
    next
      case equal
      then show thesis using eq by (intro same [OF disjoint]) (simp_all add: p_def q_def)
    next
      case greater
      then have "q < p" by (simp only: p_def q_def word_less_nat_alt)
      then show thesis
        using eq greater less_not_sym [OF greater] by (intro right [OF disjoint]) simp_all
    qed
  qed
qed

lemma transform_delete_delete_converges:
  assumes "fits (length d) a" "fits (length d) b" "op_type a = Delete" "op_type b = Delete"
    and "transform_delete_delete a b = (a', b')"
  shows "effect b' (effect a d) = effect a' (effect b d)"
proof -
  let ?p = "unat (position a)" and ?l = "unat (op_length a)"
  let ?q = "unat (position b)" and ?k = "unat (op_length b)"
  note a = fits_Delete [OF assms(1,3)] and b = fits_Delete [OF assms(2,4)]
  from a b have "?p + ?l < 2 ^ 31" "?q + ?k < 2 ^ 31" by linarith+
  then show ?thesis using assms(5)
  proof (cases rule: transform_delete_delete_cases)
    case left
    then consider "?l = 0" | "?k = 0" | "?p + ?l \<le> ?q" by (auto simp: min_def max_def split: if_splits)
    then show ?thesis
      using left assms(3,4)
      by cases (auto simp: effect_def unat_diff_no_wrap cut_cut_disjoint)
  next
    case right
    then consider "?l = 0" | "?k = 0" | "?q + ?k \<le> ?p" by (auto simp: min_def max_def split: if_splits)
    then show ?thesis
      using right assms(3,4)
      by cases (auto simp: effect_def unat_diff_no_wrap cut_cut_disjoint)
  next
    case same
    then consider "?l = 0" | "?k = 0" by (auto simp: min_def split: if_splits)
    then show ?thesis
      using same assms(3,4) by cases (auto simp: effect_def)
  next
    case (overlap ov)
    then have "unat ov \<le> ?l" "unat ov \<le> ?k" by auto
    then have len: "unat (op_length a - ov) = ?l - unat ov" "unat (op_length b - ov) = ?k - unat ov"
      by (simp_all only: unat_diff_no_wrap)
    show ?thesis
      using cut_cut_overlap [OF overlap(2,1), of d] overlap(3,4) assms(3,4)
      by (simp add: effect_def unat_min len)
  qed
qed

text \<open>The four cases together, and the sizes of the documents on the way.\<close>

lemma effect_length:
  "length (effect op d) \<le> length d + added op"
  by (auto simp: effect_def added_def length_cut)

lemma transform_converges:
  assumes "concurrent (length d) a b" "transform a b = (a', b')"
  shows "effect b' (effect a d) = effect a' (effect b d)"
proof -
  have sym: "concurrent (length d) b a"
    using assms(1) by (auto simp: concurrent_def tied_def)
  consider "op_type a = Insert" "op_type b = Insert" | "op_type a = Insert" "op_type b = Delete"
    | "op_type a = Delete" "op_type b = Insert" | "op_type a = Delete" "op_type b = Delete"
    using op_kind_cases by blast
  then show ?thesis
  proof cases
    case 1
    with assms show ?thesis
      by (intro transform_insert_insert_converges) (simp_all add: transform_def)
  next
    case 2
    with assms show ?thesis
      by (intro transform_insert_delete_converges) (simp_all add: transform_def)
  next
    case 3
    then have "transform_insert_delete b a = (b', a')"
      using assms(2) by (auto simp: transform_def split: prod.splits)
    from transform_insert_delete_converges [OF sym 3(2,1) this] show ?thesis by simp
  next
    case 4
    with assms show ?thesis
      by (intro transform_delete_delete_converges) (simp_all add: transform_def concurrent_def)
  qed
qed

section \<open>Transforming along a history\<close>

text \<open>
  The transformation treats its two arguments alike, so it does not matter which of two sites
  computes it.
\<close>

lemma transform_swap: "transform b a = prod.swap (transform a b)"
proof -
  have ii: "transform_insert_insert b a = prod.swap (transform_insert_insert a b)"
    by (cases "position a" "position b" rule: linorder_cases;
        cases "userId a" "userId b" rule: linorder_cases)
      (simp_all add: transform_insert_insert_def less_not_sym)
  have dd: "transform_delete_delete b a = prod.swap (transform_delete_delete a b)"
    by (cases "position a" "position b" rule: linorder_cases)
      (simp_all add: transform_delete_delete_def Let_def less_not_sym
        min.commute [of "position b"] max.commute [of "position b"]
        min.commute [of "position b + op_length b"])
  show ?thesis
    by (cases "op_type a"; cases "op_type b")
      (simp_all add: transform_def ii dd split: prod.splits)
qed

text \<open>
  A deletion that has lost all its bytes, at a position strictly inside another deletion. The
  transformation subtracts the whole length of the other deletion from its position, which can
  wrap around.
\<close>

definition swallowed :: "operation \<Rightarrow> operation \<Rightarrow> bool" where
  "swallowed a b = (op_type a = Delete \<and> op_type b = Delete \<and> op_length a = 0
     \<and> unat (position b) < unat (position a)
     \<and> unat (position a) < unat (position b) + unat (op_length b))"

lemma length_effect_Insert:
  "op_type op = Insert \<Longrightarrow> length (effect op d) = length d + length (op_text op)"
  by (simp add: effect_def)

lemma length_effect_Delete:
  "op_type op = Delete \<Longrightarrow> fits (length d) op \<Longrightarrow>
   length (effect op d) = length d - unat (op_length op)"
  by (auto simp: effect_def length_cut fits_def)

lemma transform_same_kind [simp]:
  "op_type (fst (transform a b)) = op_type a" "op_type (snd (transform a b)) = op_type b"
  by (cases "op_type a"; cases "op_type b";
      simp add: transform_def transform_insert_insert_def transform_insert_delete_def
        transform_delete_delete_def Let_def)+

lemma transform_keeps_ids [simp]:
  "userId (fst (transform a b)) = userId a" "op_revision (fst (transform a b)) = op_revision a"
  by (cases "op_type a"; cases "op_type b";
      simp add: transform_def transform_insert_insert_def transform_insert_delete_def
        transform_delete_delete_def Let_def)+

text \<open>
  A transformed operation fits the document that the other one has produced. The four cases
  follow the dispatch of the code.
\<close>

lemma fits_transform_insert_insert:
  assumes "concurrent (length d) a b" "op_type a = Insert" "op_type b = Insert"
  shows "fits (length (effect b d)) (fst (transform a b))"
proof -
  have fit: "fits (length d) a" "fits (length d) b"
    and room: "length d + length (op_text a) + length (op_text b) < 2 ^ 31"
    using assms by (auto simp: concurrent_def added_def)
  note a = fits_Insert [OF fit(1) assms(2)] and b = fits_Insert [OF fit(2) assms(3)]
  have sum: "unat (position a + op_length b) = unat (position a) + length (op_text b)"
    using a b room by (simp add: unat_add_no_wrap)
  have len: "op_length a = size32 (op_text a)"
    using fit(1) assms(2) by (simp add: fits_def)
  have "fst (transform a b) = a \<or> fst (transform a b) = a\<lparr>position := position a + op_length b\<rparr>"
    using assms(2,3) by (simp add: transform_def transform_insert_insert_def)
  then show ?thesis
    using assms(2,3) a b room sum len by (auto simp: fits_def length_effect_Insert)
qed

lemma fits_transform_insert_delete:
  assumes "concurrent (length d) a b" "op_type a = Insert" "op_type b = Delete"
  shows "fits (length (effect b d)) (fst (transform a b))"
proof -
  have fit: "fits (length d) a" "fits (length d) b"
    using assms by (auto simp: concurrent_def)
  note a = fits_Insert [OF fit(1) assms(2)] and b = fits_Delete [OF fit(2) assms(3)]
  have len: "op_length a = size32 (op_text a)"
    using fit(1) assms(2) by (simp add: fits_def)
  have fin: "unat (position b + op_length b) = unat (position b) + unat (op_length b)"
    using b by (simp add: unat_add_no_wrap)
  have n: "length (effect b d) = length d - unat (op_length b)"
    using assms(3) fit(2) by (rule length_effect_Delete)
  consider "fst (transform a b) = a" "position a \<le> position b"
    | "fst (transform a b) = a\<lparr>position := position a - op_length b\<rparr>"
      "position b + op_length b \<le> position a"
    | "fst (transform a b) = a\<lparr>position := position b, op_text := [], op_length := 0\<rparr>"
    using assms(2,3)
    by (cases "position a \<le> position b"; cases "position b + op_length b \<le> position a")
      (simp_all add: transform_def transform_insert_delete_def Let_def)
  then show ?thesis
  proof cases
    case 2
    then have "unat (position b) + unat (op_length b) \<le> unat (position a)"
      by (simp only: word_le_nat_alt fin)
    with 2 assms(2) a b n len show ?thesis by (auto simp: fits_def unat_diff_no_wrap)
  qed (use assms(2) a b n len in \<open>auto simp: fits_def word_le_nat_alt\<close>)
qed

lemma fits_transform_delete_insert:
  assumes "concurrent (length d) a b" "op_type a = Delete" "op_type b = Insert"
  shows "fits (length (effect b d)) (fst (transform a b))"
proof -
  have fit: "fits (length d) a" "fits (length d) b"
    using assms by (auto simp: concurrent_def)
  note a = fits_Delete [OF fit(1) assms(2)] and b = fits_Insert [OF fit(2) assms(3)]
  have sums: "unat (position a + op_length b) = unat (position a) + length (op_text b)"
    "unat (op_length a + op_length b) = unat (op_length a) + length (op_text b)"
    using a b by (simp_all add: unat_add_no_wrap)
  have n: "length (effect b d) = length d + length (op_text b)"
    using assms(3) by (rule length_effect_Insert)
  consider "fst (transform a b) = a\<lparr>position := position a + op_length b\<rparr>"
    | "fst (transform a b) = a"
    | "fst (transform a b) = a\<lparr>position := position a, op_length := op_length a + op_length b\<rparr>"
    using assms(2,3)
    by (cases "position b \<le> position a"; cases "position a + op_length a \<le> position b")
      (simp_all add: transform_def transform_insert_delete_def Let_def)
  then show ?thesis
    using assms(2) a b n sums by cases (auto simp: fits_def)
qed

lemma fits_transform_delete_delete:
  assumes "fits (length d) a" "fits (length d) b" "op_type a = Delete" "op_type b = Delete"
    and "\<not> swallowed a b"
  shows "fits (length (effect b d)) (fst (transform a b))"
proof -
  let ?p = "unat (position a)" and ?l = "unat (op_length a)"
  let ?q = "unat (position b)" and ?k = "unat (op_length b)"
  note a = fits_Delete [OF assms(1,3)] and b = fits_Delete [OF assms(2,4)]
  have n: "length (effect b d) = length d - ?k"
    using assms(4,2) by (rule length_effect_Delete)
  obtain a' b' where t: "transform_delete_delete a b = (a', b')" by fastforce
  then have [simp]: "fst (transform a b) = a'"
    using assms(3,4) by (simp add: transform_def)
  from a b have "?p + ?l < 2 ^ 31" "?q + ?k < 2 ^ 31" by linarith+
  then show ?thesis using t
  proof (cases rule: transform_delete_delete_cases)
    case left
    then have "?p + ?l \<le> ?q \<or> ?k = 0" by (auto simp: min_def max_def split: if_splits)
    with left a b n assms(3) show ?thesis by (auto simp: fits_def)
  next
    case right
    then have "?q + ?k \<le> ?p"
      using assms(3-5)
      by (auto simp: swallowed_def unat_eq_zero min_def max_def split: if_splits)
    with right a b n assms(3) show ?thesis by (auto simp: fits_def unat_diff_no_wrap)
  next
    case same
    then have "?l = 0 \<or> ?k = 0" by (auto simp: min_def split: if_splits)
    with same a b n assms(3) show ?thesis by (auto simp: fits_def)
  next
    case (overlap ov)
    then have "unat ov \<le> ?l" by auto
    then have "unat (op_length a - ov) = ?l - unat ov" by (simp only: unat_diff_no_wrap)
    moreover have "min ?p ?q + (?l - unat ov) \<le> length d - ?k"
      using overlap(1) a b unfolding overlap(2) by (auto simp: min_def max_def)
    ultimately show ?thesis
      using overlap(3) n b assms(3) by (simp add: fits_def unat_min)
  qed
qed

lemma fits_transform:
  assumes "concurrent (length d) a b" "\<not> swallowed a b"
  shows "fits (length (effect b d)) (fst (transform a b))"
proof (cases "op_type a"; cases "op_type b")
  assume "op_type a = Delete" "op_type b = Delete"
  with assms show ?thesis
    by (auto intro: fits_transform_delete_delete simp: concurrent_def)
qed (use assms in \<open>auto intro: fits_transform_insert_insert fits_transform_insert_delete
  fits_transform_delete_insert\<close>)

text \<open>
  Rebasing an operation over a history, and the history carried over the operation: the two
  sides of the ladder that the server and the client build out of single transformations.
\<close>

fun rebase :: "operation \<Rightarrow> operation list \<Rightarrow> operation" where
  "rebase a [] = a"
| "rebase a (h # hs) = rebase (fst (transform a h)) hs"

fun carry :: "operation \<Rightarrow> operation list \<Rightarrow> operation list" where
  "carry s [] = []"
| "carry s (p # ps) = fst (transform p s) # carry (snd (transform p s)) ps"

fun ladder_ok :: "string \<Rightarrow> operation \<Rightarrow> operation list \<Rightarrow> bool" where
  "ladder_ok d s [] = True"
| "ladder_ok d s (p # ps) =
     (concurrent (length d) p s \<and> ladder_ok (effect p d) (snd (transform p s)) ps)"

lemma rebase_append: "rebase a (hs @ hs') = rebase (rebase a hs) hs'"
  by (induction hs arbitrary: a) simp_all

lemma rebase_same_kind [simp]: "op_type (rebase a hs) = op_type a"
  by (induction hs arbitrary: a) simp_all

lemma rebase_keeps_ids [simp]:
  "userId (rebase a hs) = userId a" "op_revision (rebase a hs) = op_revision a"
  by (induction hs arbitrary: a) simp_all

lemma length_carry [simp]: "length (carry s ps) = length ps"
  by (induction ps arbitrary: s) simp_all

lemma snd_transform: "snd (transform p s) = fst (transform s p)"
  by (simp add: transform_swap [of s p])

lemma ladder_converges:
  "ladder_ok d s ps \<Longrightarrow>
   effect (rebase s ps) (fold effect ps d) = fold effect (carry s ps) (effect s d)"
proof (induction ps arbitrary: d s)
  case Nil
  then show ?case by simp
next
  case (Cons p ps)
  let ?s = "snd (transform p s)"
  from Cons.prems have "effect ?s (effect p d) = effect (fst (transform p s)) (effect s d)"
    by (intro transform_converges) simp_all
  moreover from Cons.prems
  have "effect (rebase ?s ps) (fold effect ps (effect p d)) = fold effect (carry ?s ps) (effect ?s (effect p d))"
    by (intro Cons.IH) simp
  ultimately show ?case
    by (simp add: snd_transform [symmetric])
qed

text \<open>
  An operation made on \<open>d\<close> may be rebased over a history of \<open>d\<close>: every entry fits the document
  it was applied to, no tie arises, and the operation is never an empty deletion inside another.
\<close>

fun rebase_ok :: "string \<Rightarrow> operation \<Rightarrow> operation list \<Rightarrow> bool" where
  "rebase_ok d a [] = True"
| "rebase_ok d a (h # hs) =
     (fits (length d) h \<and> length d + added a + added h < 2 ^ 31 \<and> \<not> tied a h \<and> \<not> swallowed a h
      \<and> rebase_ok (effect h d) (fst (transform a h)) hs)"

lemma rebase_fits:
  "fits (length d) a \<Longrightarrow> rebase_ok d a hs \<Longrightarrow> fits (length (fold effect hs d)) (rebase a hs)"
proof (induction hs arbitrary: a d)
  case Nil
  then show ?case by simp
next
  case (Cons h hs)
  then have "fits (length (effect h d)) (fst (transform a h))"
    by (intro fits_transform) (simp_all add: concurrent_def)
  with Cons show ?case by simp
qed

text \<open>Evaluating the code on closed operations by rewriting.\<close>

lemmas concurrent_eval = concurrent_def fits_def added_def tied_def size32_def

lemmas transform_eval = transform_def transform_insert_insert_def transform_insert_delete_def
  transform_delete_delete_def Let_def size32_def make_insert_def make_delete_def word_order

lemmas apply_op_eval = apply_op_def is_noop_def Let_def size32_def make_insert_def make_delete_def
  word_order

section \<open>Properties\<close>

text \<open>
  C6: the transformation property. Two concurrent operations that fit a document, one applied
  after the other has been transformed against it, give the same text in either order, for the
  code's own 32-bit arithmetic and clamping.
\<close>

theorem transform_convergence:
  assumes "concurrent (length d) a b"
  shows "apply_op (apply_op d a) (snd (transform a b)) =
    apply_op (apply_op d b) (fst (transform a b))"
proof -
  have bounds: "length d < 2 ^ 32" "length (effect a d) < 2 ^ 32" "length (effect b d) < 2 ^ 32"
    using assms effect_length [of a d] effect_length [of b d] by (auto simp: concurrent_def)
  have "effect (snd (transform a b)) (effect a d) = effect (fst (transform a b)) (effect b d)"
    using assms by (intro transform_converges) simp_all
  then show ?thesis
    by (simp only: apply_op_effect bounds)
qed

theorem transform_convergence_witness:
  "apply_op (apply_op ''HELLO'' (make_insert 2 ''X'' 1 0))
     (snd (transform (make_insert 2 ''X'' 1 0) (make_delete 1 3 ''ELL'' 2 0))) = ''HO''
   \<and> apply_op (apply_op ''HELLO'' (make_delete 1 3 ''ELL'' 2 0))
     (fst (transform (make_insert 2 ''X'' 1 0) (make_delete 1 3 ''ELL'' 2 0))) = ''HO''"
proof -
  let ?a = "make_insert 2 ''X'' 1 0" and ?b = "make_delete 1 3 ''ELL'' 2 0"
  have "concurrent (length ''HELLO'') ?a ?b"
    by (simp add: concurrent_eval)
  from transform_convergence [OF this]
  have "apply_op (apply_op ''HELLO'' ?a) (snd (transform ?a ?b)) =
    apply_op (apply_op ''HELLO'' ?b) (fst (transform ?a ?b))" .
  moreover have "apply_op (apply_op ''HELLO'' ?b) (fst (transform ?a ?b)) = ''HO''"
    by (simp add: apply_op_eval transform_eval)
  ultimately show ?thesis by simp
qed

text \<open>
  C7: the transformation is symmetric. Swapping the two operations swaps the two results, so the
  server, which transforms an incoming operation against its history, and a client, which
  transforms its own operation against the server's, compute the same pair.
\<close>

theorem transform_symmetric: "transform b a = (snd (transform a b), fst (transform a b))"
  by (simp add: transform_swap [of b a] prod.swap_def)



end
