(* ===== verification/Collab_Fifo.thy ===== *)
theory Collab_Fifo
  imports Collab_Prelude
begin

text \<open>
  The contract of the multi-producer single-consumer queue as its clients see it: a first-in
  first-out sequence. \<^verbatim>\<open>Document\<close>, \<^verbatim>\<open>DocumentSession\<close> and \<^verbatim>\<open>AsyncLogger\<close> each own such a queue
  and drain it from one thread.
\<close>

definition fifo_enqueue :: "'a \<Rightarrow> 'a list \<Rightarrow> 'a list" where
  "fifo_enqueue x q = q @ [x]"

definition fifo_try_dequeue :: "'a list \<Rightarrow> 'a option \<times> 'a list" where
  "fifo_try_dequeue q = (case q of [] \<Rightarrow> (None, []) | x # xs \<Rightarrow> (Some x, xs))"

locale fifo_queue =
  fixes empty :: "'q"
    and enqueue :: "'a \<Rightarrow> 'q \<Rightarrow> 'q"
    and try_dequeue :: "'q \<Rightarrow> 'a option \<times> 'q"
    and items :: "'q \<Rightarrow> 'a list"
  assumes items_empty: "items empty = []"
    and items_enqueue: "items (enqueue x q) = items q @ [x]"
    and dequeue_None: "items q = [] \<Longrightarrow> fst (try_dequeue q) = None \<and> items (snd (try_dequeue q)) = []"
    and dequeue_Some:
      "items q = x # xs \<Longrightarrow> fst (try_dequeue q) = Some x \<and> items (snd (try_dequeue q)) = xs"
begin

lemma dequeue_iff: "fst (try_dequeue q) = None \<longleftrightarrow> items q = []"
  using dequeue_None [of q] dequeue_Some [of q] by (cases "items q") auto

lemma dequeue_shrinks:
  "fst (try_dequeue q) = Some x \<Longrightarrow> length (items (snd (try_dequeue q))) < length (items q)"
  using dequeue_None [of q] dequeue_Some [of q] by (cases "items q") auto

lemma dequeue_oldest:
  "fst (try_dequeue q) = Some x \<Longrightarrow> items q = x # items (snd (try_dequeue q))"
  using dequeue_None [of q] dequeue_Some [of q] by (cases "items q") auto

lemma enqueue_all: "items (fold enqueue xs q) = items q @ xs"
  by (induction xs arbitrary: q) (simp_all add: items_enqueue)

end

interpretation fifo: fifo_queue "[]" fifo_enqueue fifo_try_dequeue "\<lambda>q. q"
  by unfold_locales (auto simp: fifo_enqueue_def fifo_try_dequeue_def split: list.splits)

end
