(* ===== verification/Collab_Document.thy ===== *)
theory Collab_Document
  imports Collab_OT Collab_Fifo
begin

text \<open>
  The server's copy of a document: \<^verbatim>\<open>core/include/collab/document.h\<close> and
  \<^verbatim>\<open>core/src/document.cpp\<close>. The state is the class's fields (its mutexes guard whole methods,
  so each method is one step); the operations are its methods, in the order of the source.
\<close>

section \<open>The code\<close>

record document =
  doc_id :: u32
  title :: string
  content :: string
  revision :: u32
  history :: "operation list"
  history_limit :: u32
  oldest_revision :: u32
  incoming_queue :: "operation list"
  subscribers :: "u32 set"
  dirty :: bool
  snapshot_threshold :: u32
  last_snapshot_revision :: u32

record ot_result =
  ot_success :: bool
  ot_error :: string
  transformed_op :: operation

definition Document :: "u32 \<Rightarrow> string \<Rightarrow> document" where
  "Document i t =
     \<lparr>doc_id = i, title = t, content = '''', revision = 0, history = [], history_limit = 10000,
      oldest_revision = 0, incoming_queue = [], subscribers = {}, dirty = False,
      snapshot_threshold = 100, last_snapshot_revision = 0\<rparr>"

text \<open>The value-initialised \<^verbatim>\<open>Operation\<close> of the error result.\<close>

definition empty_operation :: operation where
  "empty_operation =
     \<lparr>op_type = Insert, position = 0, op_text = '''', op_length = 0, userId = 0, op_revision = 0\<rparr>"

text \<open>The loop over the history, from the operation's revision up to the current one.\<close>

function transform_history :: "u32 \<Rightarrow> u32 \<Rightarrow> u32 \<Rightarrow> operation list \<Rightarrow> operation \<Rightarrow> operation" where
  "transform_history i current oldest hist op =
     (if i < current then
        (let history_index = i - oldest;
             op' = (if unat history_index < length hist
                    then fst (transform op (hist ! unat history_index)) else op)
         in transform_history (i + 1) current oldest hist op')
      else op)"
  by pat_completeness auto

lemma unat_Suc_less: "(i :: u32) < n \<Longrightarrow> unat (i + 1) = Suc (unat i)"
  using unat_u32_less [of n] by (simp add: word_less_nat_alt unat_add_no_wrap)

termination transform_history
  by (relation "measure (\<lambda>(i, current, _). unat current - unat i)")
    (auto simp: unat_Suc_less word_less_nat_alt)

declare transform_history.simps [simp del]

fun trim_history :: "u32 \<Rightarrow> operation list \<Rightarrow> u32 \<Rightarrow> operation list \<times> u32" where
  "trim_history limit [] oldest = ([], oldest)"
| "trim_history limit (h # hs) oldest =
     (if length (h # hs) > unat limit then trim_history limit hs (oldest + 1)
      else (h # hs, oldest))"

definition apply_with_ot :: "document \<Rightarrow> operation \<Rightarrow> document \<times> ot_result" where
  "apply_with_ot d op =
     (if revision d > 0 \<and> op_revision op < oldest_revision d then
        (d, \<lparr>ot_success = False, ot_error = ''revision_too_old'', transformed_op = empty_operation\<rparr>)
      else
        (let op' = transform_history (op_revision op) (revision d) (oldest_revision d) (history d) op;
             (hist, oldest) = trim_history (history_limit d) (history d @ [op']) (oldest_revision d)
         in (d\<lparr>content := apply_op (content d) op', history := hist, oldest_revision := oldest,
               revision := revision d + 1, dirty := True\<rparr>,
             \<lparr>ot_success = True, ot_error = '''', transformed_op = op'\<rparr>)))"

lemma apply_with_ot_frame [simp]:
  "doc_id (fst (apply_with_ot d op)) = doc_id d"
  "title (fst (apply_with_ot d op)) = title d"
  "incoming_queue (fst (apply_with_ot d op)) = incoming_queue d"
  "subscribers (fst (apply_with_ot d op)) = subscribers d"
  "history_limit (fst (apply_with_ot d op)) = history_limit d"
  "snapshot_threshold (fst (apply_with_ot d op)) = snapshot_threshold d"
  "last_snapshot_revision (fst (apply_with_ot d op)) = last_snapshot_revision d"
  by (simp_all add: apply_with_ot_def Let_def split: prod.splits)

function process_queue_loop :: "document \<Rightarrow> u64 \<Rightarrow> document \<times> u64" where
  "process_queue_loop d count =
     (case fifo_try_dequeue (incoming_queue d) of
        (None, _) \<Rightarrow> (d, count)
      | (Some op, q) \<Rightarrow>
          process_queue_loop (fst (apply_with_ot (d\<lparr>incoming_queue := q\<rparr>) op)) (count + 1))"
  by pat_completeness auto
termination process_queue_loop
  by (relation "measure (\<lambda>(d, _). length (incoming_queue d))")
    (auto simp: fifo_try_dequeue_def split: list.splits)

declare process_queue_loop.simps [simp del]

definition process_queue :: "document \<Rightarrow> document \<times> u64" where
  "process_queue d = process_queue_loop d 0"

definition get_content :: "document \<Rightarrow> string" where
  "get_content d = content d"

definition set_content :: "document \<Rightarrow> string \<Rightarrow> document" where
  "set_content d c = d\<lparr>content := c\<rparr>"

definition load_content :: "document \<Rightarrow> string \<Rightarrow> document" where
  "load_content d c = d\<lparr>content := c, dirty := False\<rparr>"

definition subscribe :: "document \<Rightarrow> u32 \<Rightarrow> document" where
  "subscribe d u = d\<lparr>subscribers := insert u (subscribers d)\<rparr>"

definition unsubscribe :: "document \<Rightarrow> u32 \<Rightarrow> document" where
  "unsubscribe d u = d\<lparr>subscribers := subscribers d - {u}\<rparr>"

definition subscriber_count :: "document \<Rightarrow> int" where
  "subscriber_count d = sint (word_of_nat (card (subscribers d)) :: u32)"

definition is_dirty :: "document \<Rightarrow> bool" where
  "is_dirty d = dirty d"

definition mark_saved :: "document \<Rightarrow> document" where
  "mark_saved d = d\<lparr>dirty := False\<rparr>"

definition history_size :: "document \<Rightarrow> nat" where
  "history_size d = length (history d)"

definition set_history_limit :: "document \<Rightarrow> u32 \<Rightarrow> document" where
  "set_history_limit d l = d\<lparr>history_limit := l\<rparr>"

definition oldest_revision_in_history :: "document \<Rightarrow> u32" where
  "oldest_revision_in_history d = oldest_revision d"

definition needs_snapshot :: "document \<Rightarrow> bool" where
  "needs_snapshot d =
     (snapshot_threshold d > 0 \<and> revision d > 0 \<and> revision d mod snapshot_threshold d = 0
      \<and> revision d \<noteq> last_snapshot_revision d)"

definition mark_snapshot_created :: "document \<Rightarrow> document" where
  "mark_snapshot_created d = d\<lparr>last_snapshot_revision := revision d\<rparr>"

definition set_snapshot_threshold :: "document \<Rightarrow> u32 \<Rightarrow> document" where
  "set_snapshot_threshold d t = d\<lparr>snapshot_threshold := t\<rparr>"

definition enqueue_operation :: "document \<Rightarrow> operation \<Rightarrow> document" where
  "enqueue_operation d op = d\<lparr>incoming_queue := fifo_enqueue op (incoming_queue d)\<rparr>"

section \<open>The document as a log of operations\<close>

text \<open>
  The specification: a document is an initial text and an append-only log of operations. The
  revision is the length of the log, the history is a suffix of it, and an operation made at
  revision \<open>r\<close> is rebased over the log from \<open>r\<close> on and appended.
\<close>

definition replay :: "string \<Rightarrow> operation list \<Rightarrow> string" where
  "replay base log = foldl apply_op base log"

definition log_submit :: "operation list \<Rightarrow> operation \<Rightarrow> operation list" where
  "log_submit log op = log @ [rebase op (drop (unat (op_revision op)) log)]"

definition represents :: "document \<Rightarrow> string \<Rightarrow> operation list \<Rightarrow> bool" where
  "represents d base log =
     (content d = replay base log \<and> unat (revision d) = length log
      \<and> unat (oldest_revision d) \<le> length log
      \<and> history d = drop (unat (oldest_revision d)) log)"

definition doc_inv :: "document \<Rightarrow> bool" where
  "doc_inv d = (unat (oldest_revision d) + length (history d) = unat (revision d))"

definition too_old :: "document \<Rightarrow> operation \<Rightarrow> bool" where
  "too_old d op = (revision d > 0 \<and> op_revision op < oldest_revision d)"

lemma represents_inv: "represents d base log \<Longrightarrow> doc_inv d"
  by (simp add: represents_def doc_inv_def)

lemma transform_history_rebase:
  assumes "unat oldest \<le> unat i" "unat current = unat oldest + length hist"
  shows "transform_history i current oldest hist op = rebase op (drop (unat i - unat oldest) hist)"
  using assms
proof (induction i current oldest hist op rule: transform_history.induct)
  case (1 i current oldest hist op)
  let ?k = "unat i - unat oldest"
  show ?case
  proof (cases "i < current")
    case True
    then have idx: "unat (i - oldest) = ?k" and lt: "?k < length hist"
      using "1.prems" by (auto simp: unat_diff_no_wrap word_less_nat_alt)
    have "transform_history i current oldest hist op =
        transform_history (i + 1) current oldest hist (fst (transform op (hist ! ?k)))"
      using True lt by (simp add: transform_history.simps [of i] idx)
    also have "\<dots> = rebase (fst (transform op (hist ! ?k))) (drop (Suc ?k) hist)"
      using "1.IH" [OF True refl refl] "1.prems" lt True
      by (simp add: idx unat_Suc_less Suc_diff_le)
    also have "\<dots> = rebase op (drop ?k hist)"
      using Cons_nth_drop_Suc [OF lt] by (metis rebase.simps(2))
    finally show ?thesis .
  next
    case False
    then have "length hist \<le> ?k"
      using "1.prems" by (simp add: word_less_nat_alt)
    with False show ?thesis by (simp add: transform_history.simps [of i])
  qed
qed

lemma trim_history_eq:
  "trim_history limit hs oldest =
     (drop (length hs - unat limit) hs, oldest + word_of_nat (length hs - unat limit))"
proof (induction hs arbitrary: oldest)
  case (Cons h hs)
  show ?case
  proof (cases "length (h # hs) > unat limit")
    case True
    then have "length (h # hs) - unat limit = Suc (length hs - unat limit)" by simp
    with True Cons.IH [of "oldest + 1"] show ?thesis
      by (simp add: add.assoc del: of_nat_diff)
  qed simp
qed simp

lemma apply_with_ot_too_old:
  "too_old d op \<Longrightarrow> apply_with_ot d op =
     (d, \<lparr>ot_success = False, ot_error = ''revision_too_old'', transformed_op = empty_operation\<rparr>)"
  by (simp add: too_old_def apply_with_ot_def)

text \<open>An accepted operation, seen through the log.\<close>

lemma apply_with_ot_accepted:
  assumes rep: "represents d base log" and "\<not> too_old d op" and "length log < 2 ^ 32 - 1"
  defines "op' \<equiv> rebase op (drop (unat (op_revision op)) log)"
  shows "snd (apply_with_ot d op) = \<lparr>ot_success = True, ot_error = '''', transformed_op = op'\<rparr>"
    and "represents (fst (apply_with_ot d op)) base (log_submit log op)"
    and "length (history (fst (apply_with_ot d op))) \<le> unat (history_limit d)"
    and "dirty (fst (apply_with_ot d op))"
proof -
  let ?old = "unat (oldest_revision d)" and ?n = "Suc (length log) - unat (oldest_revision d)"
  let ?cut = "?n - unat (history_limit d)"
  have inv: "?old \<le> length log" "unat (revision d) = length log" "history d = drop ?old log"
    using rep by (simp_all add: represents_def)
  have "?old \<le> unat (op_revision op)"
    using assms(2) inv by (cases "revision d = 0")
      (auto simp: too_old_def word_less_nat_alt word_neq_0_conv not_less unat_eq_zero)
  then have th: "transform_history (op_revision op) (revision d) (oldest_revision d) (history d) op = op'"
    using inv by (simp add: transform_history_rebase op'_def)
  have "history d @ [op'] = drop ?old (log @ [op'])"
    using inv by simp
  then have hist: "drop ?cut (history d @ [op']) = drop (?old + ?cut) (log @ [op'])"
    by (simp only: drop_drop add.commute)
  have old: "unat (oldest_revision d + word_of_nat ?cut) = ?old + ?cut"
    using inv assms(3) by (subst unat_add_no_wrap) (auto simp: unat_word_of_nat32 simp del: of_nat_diff)
  have rev: "unat (revision d + 1) = Suc (length log)"
    using inv assms(3) by (simp add: unat_add_no_wrap)
  have n: "length (history d @ [op']) = ?n"
    using inv by (simp add: Suc_diff_le)
  have step: "apply_with_ot d op =
      (d\<lparr>content := apply_op (content d) op', history := drop ?cut (history d @ [op']),
         oldest_revision := oldest_revision d + word_of_nat ?cut,
         revision := revision d + 1, dirty := True\<rparr>,
       \<lparr>ot_success = True, ot_error = '''', transformed_op = op'\<rparr>)"
    using assms(2) unfolding apply_with_ot_def trim_history_eq th n too_old_def [symmetric]
    by (simp only: if_False Let_def prod.case n)
  show "snd (apply_with_ot d op) = \<lparr>ot_success = True, ot_error = '''', transformed_op = op'\<rparr>"
    and "dirty (fst (apply_with_ot d op))"
    unfolding step by simp_all
  show "length (history (fst (apply_with_ot d op))) \<le> unat (history_limit d)"
    unfolding step using inv by simp
  show "represents (fst (apply_with_ot d op)) base (log_submit log op)"
    unfolding step represents_def log_submit_def op'_def [symmetric]
    using rep old rev inv hist by (simp add: represents_def replay_def del: of_nat_diff drop_append)
qed

section \<open>Draining the queue\<close>

definition submit_all :: "document \<Rightarrow> operation list \<Rightarrow> document" where
  "submit_all d ops = foldl (\<lambda>d op. fst (apply_with_ot d op)) d ops"

lemma apply_with_ot_queue:
  "apply_with_ot (d\<lparr>incoming_queue := q\<rparr>) op =
     ((fst (apply_with_ot d op))\<lparr>incoming_queue := q\<rparr>, snd (apply_with_ot d op))"
  by (simp add: apply_with_ot_def Let_def split: prod.splits)

lemma process_queue_loop_eq:
  "process_queue_loop d n =
     (submit_all (d\<lparr>incoming_queue := []\<rparr>) (incoming_queue d),
      n + word_of_nat (length (incoming_queue d)))"
proof (induction "incoming_queue d" arbitrary: d n)
  case Nil
  then have "incoming_queue d = []" by simp
  then have "d\<lparr>incoming_queue := []\<rparr> = d" by (cases d) simp
  with Nil show ?case
    by (simp add: process_queue_loop.simps [of d] fifo_try_dequeue_def submit_all_def)
next
  case (Cons op ops)
  let ?d = "fst (apply_with_ot (d\<lparr>incoming_queue := ops\<rparr>) op)"
  from Cons.hyps(2) have "process_queue_loop d n = process_queue_loop ?d (n + 1)"
    by (simp add: process_queue_loop.simps [of d] fifo_try_dequeue_def flip: Cons.hyps(2))
  also have "\<dots> = (submit_all (?d\<lparr>incoming_queue := []\<rparr>) ops, n + 1 + word_of_nat (length ops))"
    using Cons.hyps(1) [of ?d] by simp
  also have "?d\<lparr>incoming_queue := []\<rparr> = fst (apply_with_ot (d\<lparr>incoming_queue := []\<rparr>) op)"
    by (simp add: apply_with_ot_queue)
  finally show ?case
    by (simp add: Cons.hyps(2) [symmetric] submit_all_def)
qed

lemma submit_all_represents:
  assumes "represents d base log" "length log + length ops < 2 ^ 32"
  shows "\<exists>log'. represents (submit_all d ops) base (log @ log') \<and> length log' \<le> length ops"
  using assms
proof (induction ops arbitrary: d log)
  case Nil
  then show ?case by (intro exI [of _ "[]"]) (simp add: submit_all_def)
next
  case (Cons op ops)
  let ?d = "fst (apply_with_ot d op)"
  have unfold: "submit_all d (op # ops) = submit_all ?d ops"
    by (simp add: submit_all_def)
  show ?case
  proof (cases "too_old d op")
    case True
    then have "?d = d" by (simp add: apply_with_ot_too_old)
    with Cons obtain log' where "represents (submit_all ?d ops) base (log @ log')"
      "length log' \<le> length ops" by fastforce
    then show ?thesis by (auto simp: unfold intro!: exI [of _ log'])
  next
    case False
    have "represents ?d base (log_submit log op)"
      using Cons.prems False by (intro apply_with_ot_accepted) simp_all
    with Cons.IH [of ?d "log_submit log op"] Cons.prems obtain log' where
      "represents (submit_all ?d ops) base (log_submit log op @ log')" "length log' \<le> length ops"
      by (auto simp: log_submit_def)
    then show ?thesis
      by (intro exI [of _ "rebase op (drop (unat (op_revision op)) log) # log'"])
        (simp add: unfold log_submit_def)
  qed
qed

lemma Document_represents: "represents (load_content (Document i t) base) base []"
  by (simp add: represents_def load_content_def Document_def replay_def)

text \<open>An empty deletion that wraps its position around zero, and what the next deletion makes of it.\<close>

lemma lost_deletion_rebase:
  "rebase (make_delete 5 1 [] 2 0)
     [make_delete 5 1 [] 1 0, make_delete 0 10 [] 1 1, make_delete 2 3 [] 1 2] =
   make_delete 2 4294967286 [] 2 0"
proof -
  have "fst (transform (make_delete 5 1 [] 2 0) (make_delete 5 1 [] 1 0)) = make_delete 5 0 [] 2 0"
    "fst (transform (make_delete 5 0 [] 2 0) (make_delete 0 10 [] 1 1)) = make_delete (- 5) 0 [] 2 0"
    "fst (transform (make_delete (- 5) 0 [] 2 0) (make_delete 2 3 [] 1 2)) =
      make_delete 2 4294967286 [] 2 0"
    by (simp_all add: transform_eval)
  then show ?thesis by simp
qed

section \<open>Properties\<close>

text \<open>
  C9: refinement of the append-only log. On a document that represents a log, accepting an
  operation appends to the log the operation rebased over every entry from the operation's own
  revision on. Trimming the history is invisible: the result is what the complete log gives. The
  document also reports exactly that rebased operation, keeps its history within the limit and
  is marked dirty.
\<close>

theorem apply_with_ot_refines_log:
  assumes "represents d base log" "\<not> too_old d op" "length log < 2 ^ 32 - 1"
  shows "represents (fst (apply_with_ot d op)) base (log_submit log op)
    \<and> snd (apply_with_ot d op) =
        \<lparr>ot_success = True, ot_error = '''',
         transformed_op = rebase op (drop (unat (op_revision op)) log)\<rparr>
    \<and> length (history (fst (apply_with_ot d op))) \<le> unat (history_limit d)
    \<and> dirty (fst (apply_with_ot d op))"
  using apply_with_ot_accepted [OF assms] by blast

theorem apply_with_ot_refines_log_witness:
  "represents (fst (apply_with_ot (load_content (Document 1 ''t'') ''ABCDE'') (make_insert 1 ''X'' 1 0)))
     ''ABCDE'' [make_insert 1 ''X'' 1 0]"
proof -
  let ?d = "load_content (Document 1 ''t'') ''ABCDE''" and ?op = "make_insert 1 ''X'' 1 0"
  have "\<not> too_old ?d ?op" by (simp add: too_old_def load_content_def Document_def)
  then have "represents (fst (apply_with_ot ?d ?op)) ''ABCDE'' (log_submit [] ?op)"
    using apply_with_ot_refines_log [OF Document_represents] by simp
  then show ?thesis by (simp add: log_submit_def)
qed




text \<open>
  C7: a deletion that has nothing left to delete can destroy text. User 2 deletes one byte that
  user 1 has deleted as well; user 1 then deletes a range around it and a further range. Rebased
  over this history the empty deletion wraps its position around zero and comes out as a deletion
  of \<open>2 ^ 32 - 10\<close> bytes: the document keeps two of its six bytes.
\<close>

theorem lost_deletion_destroys_text:
  "let d0 = load_content (Document 1 ''t'') ''abcdefghijklmnopqrst'';
       d1 = fst (apply_with_ot d0 (make_delete 5 1 [] 1 0));
       d2 = fst (apply_with_ot d1 (make_delete 0 10 [] 1 1));
       d3 = fst (apply_with_ot d2 (make_delete 2 3 [] 1 2));
       d4 = fst (apply_with_ot d3 (make_delete 5 1 [] 2 0));
       r = snd (apply_with_ot d3 (make_delete 5 1 [] 2 0))
   in content d3 = ''lmqrst'' \<and> content d4 = ''lm'' \<and> op_length (transformed_op r) = 4294967286"
proof -
  let ?base = "''abcdefghijklmnopqrst''"
  let ?h1 = "make_delete 5 1 [] 1 0" and ?h2 = "make_delete 0 10 [] 1 1"
  let ?h3 = "make_delete 2 3 [] 1 2" and ?late = "make_delete 5 1 [] 2 0"
  define d0 where "d0 = load_content (Document 1 ''t'') ?base"
  define d1 where "d1 = fst (apply_with_ot d0 ?h1)"
  define d2 where "d2 = fst (apply_with_ot d1 ?h2)"
  define d3 where "d3 = fst (apply_with_ot d2 ?h3)"
  have fresh: "oldest_revision d0 = 0" "history_limit d0 = 10000"
    by (simp_all add: d0_def load_content_def Document_def)
  have kept: "oldest_revision (fst (apply_with_ot d op)) = 0"
    if "oldest_revision d = 0" "history_limit d = 10000" "length (history d) < 10000" for d op
    using that by (simp add: apply_with_ot_def trim_history_eq Let_def)
  have old: "\<not> too_old d op" if "oldest_revision d = 0" for d op
    using that by (simp add: too_old_def)
  have r0: "represents d0 ?base []" unfolding d0_def by (rule Document_represents)
  have r1: "represents d1 ?base [?h1]" and l1: "history_limit d1 = 10000" "oldest_revision d1 = 0"
    using apply_with_ot_accepted(2) [OF r0 old, of ?h1] fresh r0 kept [of d0]
    by (simp_all add: d1_def log_submit_def represents_def)
  have r2: "represents d2 ?base [?h1, ?h2]" and l2: "history_limit d2 = 10000" "oldest_revision d2 = 0"
    using apply_with_ot_accepted(2) [OF r1 old, of ?h2] l1 r1 kept [of d1]
    by (simp_all add: d2_def log_submit_def represents_def)
  have r3: "represents d3 ?base [?h1, ?h2, ?h3]" and l3: "oldest_revision d3 = 0"
    using apply_with_ot_accepted(2) [OF r2 old, of ?h3] l2 r2 kept [of d2]
    by (simp_all add: d3_def log_submit_def represents_def)
  have text3: "content d3 = ''lmqrst''"
    using r3 by (simp add: represents_def replay_def apply_op_eval)
  have late: "snd (apply_with_ot d3 ?late) =
      \<lparr>ot_success = True, ot_error = [], transformed_op = make_delete 2 4294967286 [] 2 0\<rparr>"
    and r4: "represents (fst (apply_with_ot d3 ?late)) ?base
      [?h1, ?h2, ?h3, make_delete 2 4294967286 [] 2 0]"
    using apply_with_ot_accepted(1,2) [OF r3 old, of ?late] l3 lost_deletion_rebase
    by (simp_all add: log_submit_def)
  have "content (fst (apply_with_ot d3 ?late)) = apply_op (content d3) (make_delete 2 4294967286 [] 2 0)"
    using r3 r4 by (simp add: represents_def replay_def)
  also have "\<dots> = ''lm''"
    by (simp add: text3 apply_op_eval)
  finally show ?thesis
    using text3 late
    by (simp only: Let_def d3_def d2_def d1_def d0_def operation.simps ot_result.simps make_delete_simps)
qed

end
