(* ===== verification/Access_Control.thy ===== *)
theory Access_Control
  imports Collab_Prelude
begin

text \<open>
  Access rights: \<^verbatim>\<open>core/include/collab/access_control.h\<close> and \<^verbatim>\<open>core/src/access_control.cpp\<close>.
  The rights live in one unordered map keyed by a 64-bit word that packs the document and the
  user. The contract that the server components rely on is a matrix of roles, stated as the
  locale \<open>access_matrix\<close> and interpreted on the code's operations.
\<close>

unbundle bit_operations_syntax

section \<open>The code\<close>

datatype role = Owner | Editor | Viewer

type_synonym rights = "(u64, role) umap"

definition make_key :: "u32 \<Rightarrow> u32 \<Rightarrow> u64" where
  "make_key docId uid = (push_bit 32 (ucast docId :: u64)) OR (ucast uid :: u64)"

definition get_role_locked :: "rights \<Rightarrow> u32 \<Rightarrow> u32 \<Rightarrow> role option" where
  "get_role_locked r docId uid =
     (case um_find r (make_key docId uid) of None \<Rightarrow> None | Some role \<Rightarrow> Some role)"

definition get_role :: "rights \<Rightarrow> u32 \<Rightarrow> u32 \<Rightarrow> role option" where
  "get_role r docId uid = get_role_locked r docId uid"

definition grant :: "rights \<Rightarrow> u32 \<Rightarrow> u32 \<Rightarrow> role \<Rightarrow> rights" where
  "grant r docId uid role = um_set (make_key docId uid) role r"

definition revoke :: "rights \<Rightarrow> u32 \<Rightarrow> u32 \<Rightarrow> rights" where
  "revoke r docId uid = um_erase (make_key docId uid) r"

text \<open>The high half of a key: \<^verbatim>\<open>static_cast<uint32_t>(key >> 32)\<close>; and the low half.\<close>

definition key_doc :: "u64 \<Rightarrow> u32" where
  "key_doc key = ucast (drop_bit 32 key)"

definition key_user :: "u64 \<Rightarrow> u32" where
  "key_user key = ucast (key AND 0xFFFFFFFF)"

fun revoke_all_for_document :: "rights \<Rightarrow> u32 \<Rightarrow> rights" where
  "revoke_all_for_document [] docId = []"
| "revoke_all_for_document ((key, role) # r) docId =
     (if key_doc key = docId then revoke_all_for_document r docId
      else (key, role) # revoke_all_for_document r docId)"

definition try_revoke :: "rights \<Rightarrow> u32 \<Rightarrow> u32 \<Rightarrow> u32 \<Rightarrow> rights \<times> bool" where
  "try_revoke r docId requesterId targetId =
     (case um_find r (make_key docId requesterId) of
        None \<Rightarrow> (r, False)
      | Some role \<Rightarrow>
          if role \<noteq> Owner then (r, False)
          else if requesterId = targetId then (r, False)
          else (um_erase (make_key docId targetId) r,
                um_find r (make_key docId targetId) \<noteq> None))"

definition can_read :: "rights \<Rightarrow> u32 \<Rightarrow> u32 \<Rightarrow> bool" where
  "can_read r docId uid = (get_role_locked r docId uid \<noteq> None)"

definition can_edit :: "rights \<Rightarrow> u32 \<Rightarrow> u32 \<Rightarrow> bool" where
  "can_edit r docId uid =
     (case get_role_locked r docId uid of
        None \<Rightarrow> False | Some role \<Rightarrow> role = Owner \<or> role = Editor)"

definition can_share :: "rights \<Rightarrow> u32 \<Rightarrow> u32 \<Rightarrow> bool" where
  "can_share r docId uid =
     (case get_role_locked r docId uid of None \<Rightarrow> False | Some role \<Rightarrow> role = Owner)"

definition can_delete :: "rights \<Rightarrow> u32 \<Rightarrow> u32 \<Rightarrow> bool" where
  "can_delete r docId uid =
     (case get_role_locked r docId uid of None \<Rightarrow> False | Some role \<Rightarrow> role = Owner)"

fun list_documents_for_user :: "rights \<Rightarrow> u32 \<Rightarrow> u32 list" where
  "list_documents_for_user [] uid = []"
| "list_documents_for_user ((key, role) # r) uid =
     (if key_user key = uid then key_doc key # list_documents_for_user r uid
      else list_documents_for_user r uid)"

section \<open>The packed key\<close>

lemma key_doc_make_key [simp]: "key_doc (make_key d u) = d"
proof (rule bit_word_eqI)
  fix n assume "n < LENGTH(32)"
  then show "bit (key_doc (make_key d u)) n \<longleftrightarrow> bit d n"
    using bit_imp_le_length [of u]
    by (auto simp: key_doc_def make_key_def bit_simps)
qed

lemma bit_low_half: "bit (0xFFFFFFFF :: u64) n \<longleftrightarrow> n < 32"
proof -
  have "(0xFFFFFFFF :: u64) = mask 32" by (simp add: mask_eq_exp_minus_1)
  then show ?thesis by (simp only: bit_mask_iff) auto
qed

lemma bit_low_half_int: "bit (0xFFFFFFFF :: int) n \<longleftrightarrow> n < 32"
proof -
  have "(0xFFFFFFFF :: int) = mask 32" by (simp add: mask_eq_exp_minus_1)
  then show ?thesis by (simp only: bit_mask_iff) auto
qed

lemma key_user_make_key [simp]: "key_user (make_key d u) = u"
proof (rule bit_word_eqI)
  fix n assume "n < LENGTH(32)"
  then show "bit (key_user (make_key d u)) n \<longleftrightarrow> bit u n"
    by (auto simp: key_user_def make_key_def bit_simps bit_low_half bit_low_half_int)
qed

lemma make_key_split [simp]: "make_key (key_doc k) (key_user k) = k"
proof (rule bit_word_eqI)
  fix n assume "n < LENGTH(64)"
  then show "bit (make_key (key_doc k) (key_user k)) n \<longleftrightarrow> bit k n"
    by (cases "n < 32")
      (auto simp: key_user_def key_doc_def make_key_def bit_simps bit_low_half bit_low_half_int)
qed

lemma make_key_eq [simp]: "make_key d u = make_key d' u' \<longleftrightarrow> d = d' \<and> u = u'"
  by (metis key_doc_make_key key_user_make_key)

lemma key_eq_iff: "k = make_key d u \<longleftrightarrow> key_doc k = d \<and> key_user k = u"
  by (metis key_doc_make_key key_user_make_key make_key_split)

section \<open>The matrix of roles\<close>

text \<open>What the rest of the server relies on.\<close>

locale access_matrix =
  fixes role_of :: "'r \<Rightarrow> u32 \<Rightarrow> u32 \<Rightarrow> role option"
    and give :: "'r \<Rightarrow> u32 \<Rightarrow> u32 \<Rightarrow> role \<Rightarrow> 'r"
    and take_away :: "'r \<Rightarrow> u32 \<Rightarrow> u32 \<Rightarrow> 'r"
    and forget :: "'r \<Rightarrow> u32 \<Rightarrow> 'r"
    and docs_of :: "'r \<Rightarrow> u32 \<Rightarrow> u32 list"
    and invar :: "'r \<Rightarrow> bool"
  assumes role_give:
      "role_of (give r d u x) d' u' = (if d' = d \<and> u' = u then Some x else role_of r d' u')"
    and role_take_away:
      "role_of (take_away r d u) d' u' = (if d' = d \<and> u' = u then None else role_of r d' u')"
    and role_forget:
      "invar r \<Longrightarrow> role_of (forget r d) d' u = (if d' = d then None else role_of r d' u)"
    and set_docs_of: "invar r \<Longrightarrow> set (docs_of r u) = {d. role_of r d u \<noteq> None}"
    and distinct_docs_of: "invar r \<Longrightarrow> distinct (docs_of r u)"
    and invar_give: "invar r \<Longrightarrow> invar (give r d u x)"
    and invar_take_away: "invar r \<Longrightarrow> invar (take_away r d u)"
    and invar_forget: "invar r \<Longrightarrow> invar (forget r d)"
begin

lemma docs_after_give:
  "invar r \<Longrightarrow> set (docs_of (give r d u x) u') =
     (if u' = u then insert d (set (docs_of r u')) else set (docs_of r u'))"
  by (auto simp: set_docs_of invar_give role_give)

lemma docs_after_forget:
  "invar r \<Longrightarrow> set (docs_of (forget r d) u) = set (docs_of r u) - {d}"
  by (auto simp: set_docs_of invar_forget role_forget)

lemma docs_after_take_away:
  "invar r \<Longrightarrow> set (docs_of (take_away r d u) u') =
     (if u' = u then set (docs_of r u') - {d} else set (docs_of r u'))"
  by (auto simp: set_docs_of invar_take_away role_take_away)

lemma give_take_away:
  "role_of r d u = None \<Longrightarrow> role_of (take_away (give r d u x) d u) = role_of r"
  by (intro ext) (simp add: role_take_away role_give)

end

lemma get_role_find: "get_role r d u = um_find r (make_key d u)"
  by (simp add: get_role_def get_role_locked_def split: option.splits)

lemma get_role_Nil: "get_role [] d u = None"
  by (simp add: get_role_find umap)

lemma revoke_all_filter:
  "revoke_all_for_document r d = filter (\<lambda>(k, _). key_doc k \<noteq> d) r"
  by (induction r d rule: revoke_all_for_document.induct) auto

lemma list_documents_map:
  "list_documents_for_user r u = map (\<lambda>(k, _). key_doc k) (filter (\<lambda>(k, _). key_user k = u) r)"
  by (induction r u rule: list_documents_for_user.induct) auto

lemma set_list_documents:
  assumes "um_wf r"
  shows "set (list_documents_for_user r u) = {d. get_role r d u \<noteq> None}"
proof -
  have "set (list_documents_for_user r u) = {key_doc k | k. k \<in> fst ` set r \<and> key_user k = u}"
    by (force simp: list_documents_map)
  also have "\<dots> = {d. make_key d u \<in> fst ` set r}"
  proof (intro set_eqI iffI)
    fix d assume "d \<in> {key_doc k | k. k \<in> fst ` set r \<and> key_user k = u}"
    then obtain k where "d = key_doc k" "key_user k = u" "k \<in> fst ` set r" by blast
    then show "d \<in> {d. make_key d u \<in> fst ` set r}" using make_key_split [of k] by simp
  next
    fix d assume "d \<in> {d. make_key d u \<in> fst ` set r}"
    then show "d \<in> {key_doc k | k. k \<in> fst ` set r \<and> key_user k = u}"
      by (intro CollectI exI [of _ "make_key d u"]) simp
  qed
  finally show ?thesis by (auto simp: um_keys get_role_find)
qed

lemma distinct_list_documents:
  assumes "um_wf r"
  shows "distinct (list_documents_for_user r u)"
proof -
  have "inj_on key_doc {k. key_user k = u}"
    by (rule inj_onI) (metis make_key_split mem_Collect_eq)
  moreover have "distinct (map fst (filter (\<lambda>(k, _). key_user k = u) r))"
    using assms by (simp add: um_wf_def distinct_map_filter)
  ultimately have "distinct (map key_doc (map fst (filter (\<lambda>(k, _). key_user k = u) r)))"
    by (subst distinct_map) (auto elim: inj_on_subset)
  then show ?thesis by (simp add: list_documents_map comp_def case_prod_unfold)
qed

interpretation acl: access_matrix get_role grant revoke revoke_all_for_document
  list_documents_for_user um_wf
proof unfold_locales
  fix r :: rights and d d' u u' :: u32 and x :: role
  show "get_role (grant r d u x) d' u' = (if d' = d \<and> u' = u then Some x else get_role r d' u')"
    by (auto simp: get_role_find grant_def umap)
  show "get_role (revoke r d u) d' u' = (if d' = d \<and> u' = u then None else get_role r d' u')"
    by (auto simp: get_role_find revoke_def umap)
  show "um_wf (grant r d u x)" if "um_wf r" using that by (simp add: grant_def umap)
  show "um_wf (revoke r d u)" if "um_wf r" using that by (simp add: revoke_def umap)
  show "um_wf (revoke_all_for_document r d)" if "um_wf r"
    using that by (simp add: revoke_all_filter umap)
  show "get_role (revoke_all_for_document r d) d' u = (if d' = d then None else get_role r d' u)"
    if "um_wf r"
    using that by (simp add: get_role_find revoke_all_filter um_find_filter split: option.splits)
qed (simp_all add: set_list_documents distinct_list_documents)

lemmas acl_laws = acl.role_give acl.role_take_away acl.role_forget acl.set_docs_of
  acl.distinct_docs_of acl.invar_give acl.invar_take_away acl.invar_forget

lemma permissions:
  "can_read r d u \<longleftrightarrow> get_role r d u \<noteq> None"
  "can_edit r d u \<longleftrightarrow> get_role r d u = Some Owner \<or> get_role r d u = Some Editor"
  "can_share r d u \<longleftrightarrow> get_role r d u = Some Owner"
  "can_delete r d u \<longleftrightarrow> get_role r d u = Some Owner"
  by (auto simp: can_read_def can_edit_def can_share_def can_delete_def get_role_def
      split: option.splits)

section \<open>Properties\<close>

text \<open>
  C13: refinement of a matrix of roles. Granting, revoking and forgetting a document change
  exactly the entries they name, in spite of the packed key, and the listing of a user's documents
  is exactly the documents in which the user has a role, each once.
\<close>

theorem access_control_is_matrix:
  assumes "um_wf r"
  shows "get_role (grant r d u x) d' u' = (if d' = d \<and> u' = u then Some x else get_role r d' u')
    \<and> get_role (revoke r d u) d' u' = (if d' = d \<and> u' = u then None else get_role r d' u')
    \<and> get_role (revoke_all_for_document r d) d' u' = (if d' = d then None else get_role r d' u')
    \<and> set (list_documents_for_user r u) = {d. can_read r d u}
    \<and> distinct (list_documents_for_user r u)"
  using assms by (simp add: acl_laws permissions)

theorem access_control_is_matrix_witness:
  "list_documents_for_user (revoke_all_for_document (grant (grant [] 7 1 Owner) 9 1 Viewer) 7) 1 = [9]"
proof -
  let ?r = "revoke_all_for_document (grant (grant [] 7 1 Owner) 9 1 Viewer) 7"
  have wf: "um_wf (grant (grant [] 7 1 Owner) 9 1 Viewer)" "um_wf ?r"
    by (simp_all add: acl_laws umap)
  have "can_read ?r d 1 \<longleftrightarrow> d = 9" for d
    using access_control_is_matrix [OF wf(1), of 0 0 Owner d 1]
    by (simp add: permissions acl_laws get_role_Nil wf)
  then have "distinct (list_documents_for_user ?r 1)" "set (list_documents_for_user ?r 1) = {9}"
    using access_control_is_matrix [OF wf(2), of 0 1 Owner 0 0] by auto
  then show ?thesis by (rule distinct_singleton_list)
qed

end
