(* ===== verification/Auth_Manager.thy ===== *)
theory Auth_Manager
  imports Collab_Prelude
begin

text \<open>
  Accounts: \<^verbatim>\<open>core/src/hash_utils.cpp\<close> and \<^verbatim>\<open>core/src/auth_manager.cpp\<close>.

  Two functions of the platform are parameters: \<open>digest\<close> stands for \<^verbatim>\<open>CC_SHA256\<close> (the bytes of
  its input to the bytes of its output) and \<open>rnd\<close> for the bytes that \<^verbatim>\<open>arc4random_buf\<close> writes
  into a buffer of the given length. The methods of \<^verbatim>\<open>AuthManager\<close> hold a mutex throughout, so
  each of them is one step.
\<close>

section \<open>Hashing\<close>

definition hex_digit :: "nat \<Rightarrow> char" where
  "hex_digit n = (if n < 10 then char_of (48 + n) else char_of (87 + n))"

text \<open>\<^verbatim>\<open>std::format("{:02x}", byte)\<close>.\<close>

definition hex_byte :: "u8 \<Rightarrow> string" where
  "hex_byte b = [hex_digit (unat b div 16), hex_digit (unat b mod 16)]"

definition generate_salt :: "(nat \<Rightarrow> u8 list) \<Rightarrow> nat \<Rightarrow> string" where
  "generate_salt rnd len = concat (map hex_byte (rnd len))"

text \<open>The input length is passed to the digest as a 32-bit \<^verbatim>\<open>CC_LONG\<close>.\<close>

definition sha256_hex :: "(string \<Rightarrow> u8 list) \<Rightarrow> string \<Rightarrow> string" where
  "sha256_hex digest input = concat (map hex_byte (digest (take (unat (size32 input)) input)))"

definition hash_password :: "(string \<Rightarrow> u8 list) \<Rightarrow> string \<Rightarrow> string \<Rightarrow> string" where
  "hash_password digest password salt = sha256_hex digest (salt @ password)"

definition verify_password :: "(string \<Rightarrow> u8 list) \<Rightarrow> string \<Rightarrow> string \<Rightarrow> string \<Rightarrow> bool" where
  "verify_password digest password salt expected_hash =
     (hash_password digest password salt = expected_hash)"

section \<open>The account table\<close>

record user_record =
  rec_id :: u32
  rec_username :: string
  password_hash :: string
  salt :: string

record auth_manager =
  users :: "(string, user_record) umap"
  next_id :: u32

record auth_result =
  auth_success :: bool
  auth_userId :: u32
  auth_error :: string

definition AuthManager :: auth_manager where
  "AuthManager = \<lparr>users = [], next_id = 1\<rparr>"

definition register_user ::
  "(string \<Rightarrow> u8 list) \<Rightarrow> (nat \<Rightarrow> u8 list) \<Rightarrow> auth_manager \<Rightarrow> string \<Rightarrow> string
   \<Rightarrow> auth_manager \<times> auth_result" where
  "register_user digest rnd m username password =
     (if username = [] then
        (m, \<lparr>auth_success = False, auth_userId = 0, auth_error = ''empty_username''\<rparr>)
      else if password = [] then
        (m, \<lparr>auth_success = False, auth_userId = 0, auth_error = ''empty_password''\<rparr>)
      else if um_find (users m) username \<noteq> None then
        (m, \<lparr>auth_success = False, auth_userId = 0, auth_error = ''duplicate_username''\<rparr>)
      else
        (let slt = generate_salt rnd 16;
             hash = hash_password digest password slt;
             i = next_id m
         in (m\<lparr>users := um_set username
                 \<lparr>rec_id = i, rec_username = username, password_hash = hash, salt = slt\<rparr> (users m),
               next_id := next_id m + 1\<rparr>,
             \<lparr>auth_success = True, auth_userId = i, auth_error = ''''\<rparr>)))"

definition login ::
  "(string \<Rightarrow> u8 list) \<Rightarrow> auth_manager \<Rightarrow> string \<Rightarrow> string \<Rightarrow> auth_result" where
  "login digest m username password =
     (case um_find (users m) username of
        None \<Rightarrow> \<lparr>auth_success = False, auth_userId = 0, auth_error = ''invalid_credentials''\<rparr>
      | Some record \<Rightarrow>
          if \<not> verify_password digest password (salt record) (password_hash record)
          then \<lparr>auth_success = False, auth_userId = 0, auth_error = ''invalid_credentials''\<rparr>
          else \<lparr>auth_success = True, auth_userId = rec_id record, auth_error = ''''\<rparr>)"

definition get_stored_hash :: "auth_manager \<Rightarrow> string \<Rightarrow> string" where
  "get_stored_hash m username =
     (case um_find (users m) username of None \<Rightarrow> '''' | Some record \<Rightarrow> password_hash record)"

definition find_user_id :: "auth_manager \<Rightarrow> string \<Rightarrow> u32 option" where
  "find_user_id m username =
     (case um_find (users m) username of None \<Rightarrow> None | Some record \<Rightarrow> Some (rec_id record))"

section \<open>The password scheme\<close>

text \<open>What the account table needs from the hashing functions.\<close>

locale password_scheme =
  fixes hash :: "string \<Rightarrow> string \<Rightarrow> string"
    and verify :: "string \<Rightarrow> string \<Rightarrow> string \<Rightarrow> bool"
  assumes verify_iff: "verify p s h \<longleftrightarrow> hash p s = h"
begin

lemma verify_own_hash: "verify p s (hash p s)"
  by (simp add: verify_iff)

lemma verify_collision: "verify q s (hash p s) \<longleftrightarrow> hash q s = hash p s"
  by (simp add: verify_iff)

end

interpretation pw: password_scheme "hash_password digest" "verify_password digest" for digest
  by unfold_locales (simp add: verify_password_def)

lemma hex_digit_inject: "m < 16 \<Longrightarrow> n < 16 \<Longrightarrow> hex_digit m = hex_digit n \<longleftrightarrow> m = n"
proof -
  have code: "(of_char (hex_digit k) :: nat) = (if k < 10 then 48 + k else 87 + k)" if "k < 16" for k
    using that by (simp add: hex_digit_def of_char_of take_bit_eq_mod)
  assume "m < 16" "n < 16"
  then have "m = n" if "(of_char (hex_digit m) :: nat) = of_char (hex_digit n)"
    using that unfolding code [OF \<open>m < 16\<close>] code [OF \<open>n < 16\<close>] by (simp split: if_splits)
  then show ?thesis by metis
qed

lemma hex_byte_inject: "hex_byte a = hex_byte b \<longleftrightarrow> a = b"
proof
  assume eq: "hex_byte a = hex_byte b"
  have small: "unat c div 16 < 16" "unat c mod 16 < 16" for c :: u8
  proof -
    have "unat c < 2 ^ LENGTH(8)" by (rule unsigned_less)
    then show "unat c div 16 < 16" "unat c mod 16 < 16" by simp_all
  qed
  from eq have "unat a div 16 = unat b div 16" "unat a mod 16 = unat b mod 16"
    by (simp_all add: hex_byte_def hex_digit_inject small)
  then have "unat a = unat b" by (metis div_mult_mod_eq)
  then show "a = b" by (simp only: word_unat_eq_iff)
qed simp

lemma concat_hex_inject: "concat (map hex_byte xs) = concat (map hex_byte ys) \<longleftrightarrow> xs = ys"
proof
  assume "concat (map hex_byte xs) = concat (map hex_byte ys)"
  then show "xs = ys"
  proof (induction xs arbitrary: ys)
    case Nil
    then show ?case by (cases ys) (auto simp: hex_byte_def)
  next
    case (Cons x xs)
    then obtain y ys' where ys: "ys = y # ys'" by (cases ys) (auto simp: hex_byte_def)
    have "length (hex_byte x) = length (hex_byte y)" by (simp add: hex_byte_def)
    with Cons.prems ys
    have "hex_byte x = hex_byte y" "concat (map hex_byte xs) = concat (map hex_byte ys')"
      by simp_all
    with Cons.IH ys show ?case by (simp add: hex_byte_inject)
  qed
qed simp

section \<open>The invariant of the account table\<close>

definition auth_inv :: "auth_manager \<Rightarrow> bool" where
  "auth_inv m = (um_wf (users m)
     \<and> (\<forall>u r. um_find (users m) u = Some r \<longrightarrow>
          u \<noteq> [] \<and> rec_username r = u \<and> 0 < unat (rec_id r) \<and> unat (rec_id r) < unat (next_id m))
     \<and> (\<forall>u v r s. um_find (users m) u = Some r \<longrightarrow> um_find (users m) v = Some s \<longrightarrow>
          rec_id r = rec_id s \<longrightarrow> u = v))"

lemma auth_inv_init: "auth_inv AuthManager"
  by (simp add: auth_inv_def AuthManager_def umap)

lemma auth_inv_extend:
  assumes inv: "auth_inv m" and u: "u \<noteq> []" "um_find (users m) u = None"
    and i: "unat (next_id m) < 2 ^ 32 - 1" "0 < unat (next_id m)"
    and r: "rec_id r = next_id m" "rec_username r = u"
  shows "auth_inv (m\<lparr>users := um_set u r (users m), next_id := next_id m + 1\<rparr>)"
proof -
  have suc: "unat (next_id m + 1) = Suc (unat (next_id m))"
    using i(1) by (simp add: unat_add_no_wrap)
  have old: "v \<noteq> []" "rec_username s = v" "0 < unat (rec_id s)" "unat (rec_id s) < unat (next_id m)"
    "rec_id s \<noteq> next_id m" if "um_find (users m) v = Some s" for v s
    using inv that by (fastforce simp: auth_inv_def)+
  have "um_wf (um_set u r (users m))" using inv by (simp add: auth_inv_def umap)
  moreover have "v \<noteq> [] \<and> rec_username s = v \<and> 0 < unat (rec_id s) \<and> unat (rec_id s) < Suc (unat (next_id m))"
    if "um_find (um_set u r (users m)) v = Some s" for v s
    using that u(1) i r old [of v s] by (auto simp: umap split: if_splits)
  moreover have "v = w" if "um_find (um_set u r (users m)) v = Some s"
    "um_find (um_set u r (users m)) w = Some t" "rec_id s = rec_id t" for v w s t
    using that r(1) old(5) [of v s] old(5) [of w t] inv
    by (auto simp: umap auth_inv_def split: if_splits)
  ultimately show ?thesis unfolding auth_inv_def by (simp add: suc)
qed

lemma register_user_inv:
  assumes "auth_inv m" "unat (next_id m) < 2 ^ 32 - 1" "0 < unat (next_id m)"
  shows "auth_inv (fst (register_user digest rnd m u p))"
  using assms auth_inv_extend [of m u] by (simp add: register_user_def Let_def)

text \<open>The outcome of a registration, read off the request and the table.\<close>

lemma register_user_cases:
  "auth_error (snd (register_user digest rnd m u p)) =
     (if u = [] then ''empty_username'' else if p = [] then ''empty_password''
      else if find_user_id m u \<noteq> None then ''duplicate_username'' else '''')"
  "auth_success (snd (register_user digest rnd m u p)) \<longleftrightarrow>
     u \<noteq> [] \<and> p \<noteq> [] \<and> find_user_id m u = None"
  by (auto simp: register_user_def Let_def find_user_id_def split: option.splits)

lemma login_after_register:
  assumes "auth_success (snd (register_user digest rnd m u p))"
  defines "m' \<equiv> fst (register_user digest rnd m u p)"
  shows "auth_success (login digest m' u q) \<longleftrightarrow>
      hash_password digest q (generate_salt rnd 16) = hash_password digest p (generate_salt rnd 16)"
    and "auth_success (login digest m' u q) \<Longrightarrow>
      auth_userId (login digest m' u q) = auth_userId (snd (register_user digest rnd m u p))"
    and "v \<noteq> u \<Longrightarrow> login digest m' v q = login digest m v q"
    and "find_user_id m' u = Some (auth_userId (snd (register_user digest rnd m u p)))"
  using assms
  by (auto simp: m'_def register_user_def login_def find_user_id_def Let_def umap pw.verify_iff
      split: if_splits)

section \<open>Properties\<close>

text \<open>
  C14: registration and login round trip. After a successful registration the same credentials
  log in with the identifier that was handed out; another password logs in exactly when the
  digests of the two salted passwords coincide; nobody else's login changes.
\<close>

theorem register_then_login:
  assumes "auth_success (snd (register_user digest rnd m u p))"
    and "length (generate_salt rnd 16) + length p < 2 ^ 32"
    and "length (generate_salt rnd 16) + length q < 2 ^ 32"
  shows "login digest (fst (register_user digest rnd m u p)) u p =
      \<lparr>auth_success = True, auth_userId = auth_userId (snd (register_user digest rnd m u p)), auth_error = ''''\<rparr>
    \<and> (auth_success (login digest (fst (register_user digest rnd m u p)) u q) \<longleftrightarrow>
        digest (generate_salt rnd 16 @ q) = digest (generate_salt rnd 16 @ p))
    \<and> (\<forall>v. v \<noteq> u \<longrightarrow> login digest (fst (register_user digest rnd m u p)) v q = login digest m v q)"
proof -
  let ?m = "fst (register_user digest rnd m u p)"
  note L = login_after_register [OF assms(1)]
  have ok: "auth_success (login digest ?m u p)" by (simp add: L(1))
  have err: "auth_success (login digest x v w) \<Longrightarrow> auth_error (login digest x v w) = ''''" for x v w
    by (auto simp: login_def split: option.splits if_splits)
  have "login digest ?m u p = \<lparr>auth_success = True,
      auth_userId = auth_userId (snd (register_user digest rnd m u p)), auth_error = ''''\<rparr>"
    by (rule auth_result.equality) (simp_all add: ok err L(2))
  moreover have "auth_success (login digest ?m u q) \<longleftrightarrow>
      digest (generate_salt rnd 16 @ q) = digest (generate_salt rnd 16 @ p)"
    using assms(2,3)
    by (simp add: L(1) hash_password_def sha256_hex_def concat_hex_inject unat_size32)
  ultimately show ?thesis using L(3) by blast
qed

theorem register_then_login_witness:
  "let digest = (\<lambda>s. map (\<lambda>c. word_of_nat (of_char c)) s); rnd = (\<lambda>n. replicate n 0);
       m = fst (register_user digest rnd AuthManager ''ann'' ''pw'')
   in login digest m ''ann'' ''pw'' = \<lparr>auth_success = True, auth_userId = 1, auth_error = ''''\<rparr>
      \<and> \<not> auth_success (login digest m ''ann'' ''qx'')"
proof -
  let ?digest = "\<lambda>s. map (\<lambda>c. word_of_nat (of_char c)) s :: u8 list" and ?rnd = "\<lambda>n. replicate n (0 :: u8)"
  have ok: "auth_success (snd (register_user ?digest ?rnd AuthManager ''ann'' ''pw''))"
    and i: "auth_userId (snd (register_user ?digest ?rnd AuthManager ''ann'' ''pw'')) = 1"
    by (simp_all add: register_user_def AuthManager_def umap Let_def)
  have len: "length (generate_salt ?rnd 16) = 32"
    by (simp add: generate_salt_def length_concat hex_byte_def sum_list_replicate map_replicate_const)
  show ?thesis
    using register_then_login [OF ok, of "''qx''"] len i by (simp add: Let_def)
qed

text \<open>
  Identifiers are unique and never zero. Registering keeps the invariant of the account
  table: every account is stored under its own non-empty name with an identifier between 1 and
  the next free one, and no two accounts share an identifier. The counter must not have run
  through all 32-bit values.
\<close>

lemma register_keeps_ids_unique:
  assumes "auth_inv m" "unat (next_id m) < 2 ^ 32 - 1" "0 < unat (next_id m)"
  shows "auth_inv (fst (register_user digest rnd m u p))
    \<and> 0 < unat (next_id (fst (register_user digest rnd m u p)))
    \<and> (auth_success (snd (register_user digest rnd m u p)) \<longrightarrow>
        (\<forall>v. find_user_id m v \<noteq> Some (auth_userId (snd (register_user digest rnd m u p)))))"
proof -
  have "unat (next_id m + 1) = Suc (unat (next_id m))"
    using assms(2) by (simp add: unat_add_no_wrap)
  then have "0 < unat (next_id (fst (register_user digest rnd m u p)))"
    using assms(3) by (auto simp: register_user_def Let_def)
  moreover have "find_user_id m v \<noteq> Some (auth_userId (snd (register_user digest rnd m u p)))"
    if "auth_success (snd (register_user digest rnd m u p))" for v
    using that assms(1)
    by (fastforce simp: register_user_def find_user_id_def auth_inv_def Let_def
        split: if_splits option.splits)
  ultimately show ?thesis using register_user_inv [OF assms] by blast
qed

lemma register_keeps_ids_unique_witness:
  "auth_inv (fst (register_user (\<lambda>s. []) (\<lambda>n. []) AuthManager ''ann'' ''pw''))"
  using register_keeps_ids_unique [OF auth_inv_init, of "\<lambda>s. []" "\<lambda>n. []" "''ann''" "''pw''"]
  by (simp add: AuthManager_def)

end
