(* ===== verification/Token_Bucket.thy ===== *)
theory Token_Bucket
  imports Collab_Prelude
begin

text \<open>
  The rate limiter of \<^verbatim>\<open>core/src/token_bucket.cpp\<close>.

  The bucket is one atomic 64-bit counter. \<^verbatim>\<open>try_consume\<close> and \<^verbatim>\<open>advance_time\<close> are
  compare-and-swap loops that run in many threads at once, so the code is modelled twice:
  first as the operation a caller sees (\<open>try_consume\<close>, \<open>refill\<close>, \<open>advance_time\<close>, each a function of
  the counter), then as a machine in which every atomic access is a step of its own and a weak
  exchange may fail for no reason. The invariant and the accounting are proved of the machine,
  and each of its steps is shown to be no change or exactly one of the three operations.
\<close>

section \<open>The operations\<close>

record token_bucket =
  tokens :: u64
  capacity :: u64

definition TokenBucket :: "u32 \<Rightarrow> token_bucket" where
  "TokenBucket cap = \<lparr>tokens = ucast cap, capacity = ucast cap\<rparr>"

definition try_consume :: "u32 \<Rightarrow> token_bucket \<Rightarrow> bool \<times> token_bucket" where
  "try_consume cnt b =
     (if tokens b < ucast cnt then (False, b)
      else (True, b\<lparr>tokens := tokens b - ucast cnt\<rparr>))"

definition refill :: "token_bucket \<Rightarrow> token_bucket" where
  "refill b = b\<lparr>tokens := capacity b\<rparr>"

text \<open>
  \<open>duration\<close> is the 64-bit count of milliseconds: cast to unsigned for the product, which wraps,
  and read as a signed number in the test.
\<close>

definition tokens_to_add :: "u64 \<Rightarrow> u64 \<Rightarrow> u64" where
  "tokens_to_add cap duration =
     (let n = cap * duration div 1000
      in if n = 0 \<and> 0 < sint duration then 1 else n)"

definition new_val :: "u64 \<Rightarrow> u64 \<Rightarrow> u64 \<Rightarrow> u64" where
  "new_val cap current add = min (current + add) cap"

definition advance_time :: "u64 \<Rightarrow> token_bucket \<Rightarrow> token_bucket" where
  "advance_time duration b =
     b\<lparr>tokens := new_val (capacity b) (tokens b) (tokens_to_add (capacity b) duration)\<rparr>"

section \<open>The loops, one atomic access at a time\<close>

datatype tb_pc =
  Outside
  | Consuming u32 u64 \<comment> \<open>count, the value of \<open>current\<close>\<close>
  | Advancing u64 u64 u64 \<comment> \<open>duration, tokens_to_add, the value of \<open>current\<close>\<close>

text \<open>\<open>granted\<close> and \<open>credited\<close> are ghost counters of the tokens handed out and put in.\<close>

record tb_state =
  bucket :: token_bucket
  pcs :: "nat \<Rightarrow> tb_pc"
  granted :: nat
  credited :: nat

definition tb_init :: "u32 \<Rightarrow> tb_state" where
  "tb_init cap = \<lparr>bucket = TokenBucket cap, pcs = (\<lambda>_. Outside), granted = 0, credited = unat cap\<rparr>"

abbreviation goto :: "nat \<Rightarrow> tb_pc \<Rightarrow> tb_state \<Rightarrow> tb_state" where
  "goto i pc s \<equiv> s\<lparr>pcs := (pcs s)(i := pc)\<rparr>"

definition put_tokens :: "u64 \<Rightarrow> tb_state \<Rightarrow> tb_state" where
  "put_tokens n s = s\<lparr>bucket := (bucket s)\<lparr>tokens := n\<rparr>,
     credited := credited s + (unat n - unat (tokens (bucket s)))\<rparr>"

inductive tb_step :: "tb_state \<Rightarrow> tb_state \<Rightarrow> bool" where
  consume_load:
    "pcs s i = Outside \<Longrightarrow> tb_step s (goto i (Consuming n (tokens (bucket s))) s)"
| consume_refused:
    "pcs s i = Consuming n cur \<Longrightarrow> cur < ucast n \<Longrightarrow> tb_step s (goto i Outside s)"
| consume_exchanged:
    "pcs s i = Consuming n cur \<Longrightarrow> \<not> cur < ucast n \<Longrightarrow> tokens (bucket s) = cur \<Longrightarrow>
     tb_step s (goto i Outside s\<lparr>bucket := (bucket s)\<lparr>tokens := cur - ucast n\<rparr>,
                                 granted := granted s + unat n\<rparr>)"
| consume_retry: \<comment> \<open>the exchange failed, spuriously or not, and reloaded \<open>current\<close>\<close>
    "pcs s i = Consuming n cur \<Longrightarrow> \<not> cur < ucast n \<Longrightarrow>
     tb_step s (goto i (Consuming n (tokens (bucket s))) s)"
| refill_store:
    "pcs s i = Outside \<Longrightarrow> tb_step s (put_tokens (capacity (bucket s)) s)"
| advance_load:
    "pcs s i = Outside \<Longrightarrow> add = tokens_to_add (capacity (bucket s)) d \<Longrightarrow>
     tb_step s (goto i (Advancing d add (tokens (bucket s))) s)"
| advance_exchanged:
    "pcs s i = Advancing d add cur \<Longrightarrow> tokens (bucket s) = cur \<Longrightarrow>
     tb_step s (goto i Outside (put_tokens (new_val (capacity (bucket s)) cur add) s))"
| advance_retry:
    "pcs s i = Advancing d add cur \<Longrightarrow>
     tb_step s (goto i (Advancing d add (tokens (bucket s))) s)"

section \<open>Arithmetic of the counter\<close>

lemma tokens_to_add_bound: "unat (tokens_to_add cap d) \<le> 2 ^ 64 div 1000"
proof -
  have "unat (cap * d) < 2 ^ LENGTH(64)" by (rule unsigned_less)
  then have "unat (cap * d) div 1000 \<le> 2 ^ 64 div 1000" by (intro div_le_mono) simp
  then show ?thesis by (auto simp: tokens_to_add_def Let_def unat_div)
qed

text \<open>The sum in \<^verbatim>\<open>advance_time\<close> never wraps for a 32-bit capacity.\<close>

lemma unat_new_val:
  assumes "unat cur \<le> unat cap" "unat cap < 2 ^ 32" "unat add \<le> 2 ^ 64 div 1000"
  shows "unat (new_val cap cur add) = min (unat cur + unat add) (unat cap)"
proof -
  have "unat cur + unat add < 2 ^ 64" using assms by simp
  then have "unat (cur + add) = unat cur + unat add" by (simp add: unat_word_ariths)
  then show ?thesis by (auto simp: new_val_def min_def word_le_nat_alt)
qed

section \<open>Invariant and accounting\<close>

definition tb_inv :: "tb_state \<Rightarrow> bool" where
  "tb_inv s = (unat (capacity (bucket s)) < 2 ^ 32
     \<and> unat (tokens (bucket s)) \<le> unat (capacity (bucket s))
     \<and> granted s + unat (tokens (bucket s)) = credited s
     \<and> (\<forall>i d add cur. pcs s i = Advancing d add cur \<longrightarrow>
          add = tokens_to_add (capacity (bucket s)) d \<and> unat cur \<le> unat (capacity (bucket s))))"

lemma tb_inv_init: "tb_inv (tb_init cap)"
proof -
  have "unat cap < 2 ^ LENGTH(32)" by (rule unsigned_less)
  then show ?thesis
    by (simp add: tb_inv_def tb_init_def TokenBucket_def unat_ucast_u64)
qed

lemma tb_inv_put:
  assumes "tb_inv s" "unat (tokens (bucket s)) \<le> unat n" "unat n \<le> unat (capacity (bucket s))"
  shows "tb_inv (put_tokens n s)"
  using assms by (auto simp: tb_inv_def put_tokens_def)

lemma tb_inv_goto_Outside: "tb_inv s \<Longrightarrow> tb_inv (goto i Outside s)"
  by (auto simp: tb_inv_def)

lemma tb_step_inv:
  assumes "tb_step s t" "tb_inv s"
  shows "tb_inv t"
  using assms
proof (induction rule: tb_step.induct)
  case (consume_exchanged s i n cur)
  have le: "unat n \<le> unat cur"
    using consume_exchanged by (simp add: word_less_nat_alt unat_ucast_u64 not_less)
  then have "unat (cur - ucast n) = unat cur - unat n"
    by (simp add: unat_sub word_le_nat_alt unat_ucast_u64)
  with le consume_exchanged show ?case by (auto simp: tb_inv_def)
next
  case (refill_store s i)
  then show ?case by (intro tb_inv_put) (simp_all add: tb_inv_def)
next
  case (advance_exchanged s i d add cur)
  then have "add = tokens_to_add (capacity (bucket s)) d" "unat cur \<le> unat (capacity (bucket s))"
    "unat (capacity (bucket s)) < 2 ^ 32"
    by (auto simp: tb_inv_def)
  then have "unat (new_val (capacity (bucket s)) cur add)
      = min (unat cur + unat add) (unat (capacity (bucket s)))"
    using unat_new_val tokens_to_add_bound by blast
  with advance_exchanged show ?case
    by (intro tb_inv_goto_Outside tb_inv_put) (auto simp: tb_inv_def)
qed (auto simp: tb_inv_def)

lemma tb_reachable_inv: "tb_step\<^sup>*\<^sup>* (tb_init cap) s \<Longrightarrow> tb_inv s"
  by (induction rule: rtranclp_induct) (auto intro: tb_inv_init tb_step_inv)

lemma tb_capacity_fixed: "tb_step s t \<Longrightarrow> capacity (bucket t) = capacity (bucket s)"
  by (induction rule: tb_step.induct) (auto simp: put_tokens_def)

lemma tb_reachable_capacity:
  "tb_step\<^sup>*\<^sup>* (tb_init cap) s \<Longrightarrow> capacity (bucket s) = ucast cap"
  by (induction rule: rtranclp_induct) (auto simp: tb_init_def TokenBucket_def tb_capacity_fixed)

lemma tb_step_atomic:
  assumes "tb_step s t" "tb_inv s"
  shows "bucket t = bucket s
    \<or> (\<exists>n. try_consume n (bucket s) = (True, bucket t) \<and> granted t = granted s + unat n)
    \<or> bucket t = refill (bucket s)
    \<or> (\<exists>d. bucket t = advance_time d (bucket s))"
  using assms
proof (induction rule: tb_step.induct)
  case (consume_exchanged s i n cur)
  then have "try_consume n (bucket s) = (True, (bucket s)\<lparr>tokens := cur - ucast n\<rparr>)"
    by (simp add: try_consume_def)
  then show ?case by auto
next
  case (refill_store s i)
  then show ?case by (simp add: put_tokens_def refill_def)
next
  case (advance_exchanged s i d add cur)
  then have "add = tokens_to_add (capacity (bucket s)) d" by (auto simp: tb_inv_def)
  with advance_exchanged show ?case
    by (auto simp: put_tokens_def advance_time_def)
qed simp_all

section \<open>Properties\<close>

text \<open>
  C16: the limiter holds under any interleaving. In every state that any number of threads can
  reach, with weak exchanges failing at will, the bucket holds at most its capacity and the
  tokens handed out plus the tokens left are exactly the tokens put in; and each step leaves the
  bucket alone or is one whole call of try_consume, refill or advance_time on it.
\<close>

theorem token_bucket_linearizable:
  assumes "tb_step\<^sup>*\<^sup>* (tb_init cap) s"
  shows "unat (tokens (bucket s)) \<le> unat cap
    \<and> granted s + unat (tokens (bucket s)) = credited s
    \<and> (\<forall>t. tb_step s t \<longrightarrow> bucket t = bucket s
        \<or> (\<exists>n. try_consume n (bucket s) = (True, bucket t) \<and> granted t = granted s + unat n)
        \<or> bucket t = refill (bucket s)
        \<or> (\<exists>d. bucket t = advance_time d (bucket s)))"
proof -
  have "tb_inv s" by (rule tb_reachable_inv [OF assms])
  moreover have "unat (capacity (bucket s)) = unat cap"
    by (simp add: tb_reachable_capacity [OF assms] unat_ucast_u64)
  ultimately show ?thesis using tb_step_atomic by (auto simp: tb_inv_def)
qed

definition tb_example :: tb_state where
  "tb_example = goto 0 (Consuming 2 5) (tb_init 5)"

lemma tb_example_reachable: "tb_step\<^sup>*\<^sup>* (tb_init 5) tb_example"
proof -
  have "tokens (bucket (tb_init 5)) = 5" "pcs (tb_init 5) 0 = Outside"
    by (simp_all add: tb_init_def TokenBucket_def)
  from consume_load [OF this(2), of 2, unfolded this(1)]
  show ?thesis unfolding tb_example_def by (rule r_into_rtranclp)
qed

theorem token_bucket_linearizable_witness:
  "granted tb_example + unat (tokens (bucket tb_example)) = credited tb_example
   \<and> credited tb_example = 5"
  using token_bucket_linearizable [OF tb_example_reachable]
  by (simp add: tb_example_def tb_init_def)

text \<open>
  Time fills the bucket at the stated rate. As long as the product of capacity and elapsed
  milliseconds fits into 64 bits, advance_time adds a thousandth of the product (at least one
  token for a positive time) up to the capacity, and the addition itself never wraps.
\<close>

lemma advance_time_rate:
  assumes "unat (capacity b) < 2 ^ 32" "unat (tokens b) \<le> unat (capacity b)"
    and "ms < 2 ^ 63" "unat (capacity b) * ms < 2 ^ 64"
  shows "unat (tokens (advance_time (word_of_nat ms) b)) =
    min (unat (tokens b) + (if ms = 0 then 0 else max 1 (unat (capacity b) * ms div 1000)))
        (unat (capacity b))"
proof -
  have ms: "unat (word_of_nat ms :: u64) = ms"
    using assms(3) by (simp add: unat_of_nat)
  have "sint (word_of_nat ms :: u64) = signed_take_bit 63 (int ms)"
    by (simp add: sint_uint uint_nat ms)
  also have "\<dots> = int ms"
    using assms(3) by (intro signed_take_bit_int_eq_self) simp_all
  finally have "sint (word_of_nat ms :: u64) = int ms" .
  moreover have "unat (capacity b * word_of_nat ms) = unat (capacity b) * ms"
    using assms(4) ms by (simp add: unat_word_ariths)
  ultimately have "unat (tokens_to_add (capacity b) (word_of_nat ms))
      = (if ms = 0 then 0 else max 1 (unat (capacity b) * ms div 1000))"
    by (auto simp: tokens_to_add_def Let_def unat_div word_unat_eq_iff)
  with unat_new_val [OF assms(2,1) tokens_to_add_bound] show ?thesis
    by (simp add: advance_time_def)
qed

lemma advance_time_rate_witness:
  "unat (tokens (advance_time (word_of_nat 2500) \<lparr>tokens = 1, capacity = 10\<rparr>)) = 10
   \<and> unat (tokens (advance_time (word_of_nat 1) \<lparr>tokens = 1, capacity = 10\<rparr>)) = 2"
  using advance_time_rate [of "\<lparr>tokens = 1, capacity = 10\<rparr>" 2500]
    advance_time_rate [of "\<lparr>tokens = 1, capacity = 10\<rparr>" 1] by simp

end
