(* ===== verification/Wire_Json.thy ===== *)
theory Wire_Json
  imports Collab_Prelude "HOL-Library.Monad_Syntax"
begin

text \<open>
  The interface of the JSON library.

  \<^verbatim>\<open>nlohmann::json\<close> is not part of the repository. The functions of it that the protocol code
  calls are the fields of \<open>json_api\<close>, and every definition that uses them takes the record as an
  argument \<open>J\<close>. A call that throws \<^verbatim>\<open>nlohmann::json::exception\<close> is the value \<open>None\<close>. The laws of
  \<open>json_values\<close> and \<open>json_library\<close> are the documented behaviour the code relies on. They are
  stated for values up to the library's \<^verbatim>\<open>operator==\<close>, for which the order of the members of
  an object and the signedness of a stored number are irrelevant.
\<close>

section \<open>The functions\<close>

record 'j json_api =
  j_object :: "(string \<times> 'j) list \<Rightarrow> 'j"   \<comment> \<open>\<^verbatim>\<open>json{{k, v}, ...}\<close>\<close>
  j_array :: "'j list \<Rightarrow> 'j"
  j_string :: "string \<Rightarrow> 'j"
  j_uint :: "u32 \<Rightarrow> 'j"
  j_int :: "u32 \<Rightarrow> 'j"                       \<comment> \<open>an \<^verbatim>\<open>int\<close>, 32 bits\<close>
  j_bool :: "bool \<Rightarrow> 'j"
  j_null :: 'j
  j_set :: "'j \<Rightarrow> string \<Rightarrow> 'j \<Rightarrow> 'j"         \<comment> \<open>\<^verbatim>\<open>j[k] = v\<close>\<close>
  j_at :: "'j \<Rightarrow> string \<Rightarrow> 'j option"         \<comment> \<open>\<^verbatim>\<open>j.at(k)\<close>\<close>
  j_get_string :: "'j \<Rightarrow> string option"      \<comment> \<open>\<^verbatim>\<open>j.get<T>()\<close>\<close>
  j_get_uint :: "'j \<Rightarrow> u32 option"
  j_get_int :: "'j \<Rightarrow> u32 option"
  j_get_bool :: "'j \<Rightarrow> bool option"
  j_get_array :: "'j \<Rightarrow> 'j list option"
  j_contains :: "'j \<Rightarrow> string \<Rightarrow> bool"
  j_is_object :: "'j \<Rightarrow> bool"
  j_is_null :: "'j \<Rightarrow> bool"
  j_is_string :: "'j \<Rightarrow> bool"
  j_dump :: "'j \<Rightarrow> string option"
  j_parse :: "string \<Rightarrow> 'j option"

text \<open>The combinations \<^verbatim>\<open>j.at(k).get_to(x)\<close> of the code, one per type of \<^verbatim>\<open>x\<close>.\<close>

definition at_string :: "'j json_api \<Rightarrow> 'j \<Rightarrow> string \<Rightarrow> string option" where
  "at_string J j k = Option.bind (j_at J j k) (j_get_string J)"

definition at_uint :: "'j json_api \<Rightarrow> 'j \<Rightarrow> string \<Rightarrow> u32 option" where
  "at_uint J j k = Option.bind (j_at J j k) (j_get_uint J)"

definition at_int :: "'j json_api \<Rightarrow> 'j \<Rightarrow> string \<Rightarrow> u32 option" where
  "at_int J j k = Option.bind (j_at J j k) (j_get_int J)"

definition at_bool :: "'j json_api \<Rightarrow> 'j \<Rightarrow> string \<Rightarrow> bool option" where
  "at_bool J j k = Option.bind (j_at J j k) (j_get_bool J)"

definition at_list :: "'j json_api \<Rightarrow> ('j \<Rightarrow> 'a option) \<Rightarrow> 'j \<Rightarrow> string \<Rightarrow> 'a list option" where
  "at_list J rd j k = Option.bind (j_at J j k) (\<lambda>a. Option.bind (j_get_array J a) (\<lambda>xs. those (map rd xs)))"

text \<open>\<^verbatim>\<open>m ? json(*m) : json(nullptr)\<close> and its reading counterpart.\<close>

definition j_optional :: "'j json_api \<Rightarrow> u32 option \<Rightarrow> 'j" where
  "j_optional J v = (case v of None \<Rightarrow> j_null J | Some n \<Rightarrow> j_uint J n)"

definition at_optional :: "'j json_api \<Rightarrow> 'j \<Rightarrow> string \<Rightarrow> u32 option option" where
  "at_optional J j k =
     (case (if j_contains J j k then j_at J j k else None) of
        None \<Rightarrow> Some None
      | Some v \<Rightarrow> if j_is_null J v then Some None else map_option Some (j_get_uint J v))"

lemmas json_at_defs = at_string_def at_uint_def at_int_def at_bool_def at_list_def

section \<open>The documented behaviour\<close>

named_theorems json \<open>laws of the JSON library\<close>

locale json_values =
  fixes J :: "'j json_api"
  assumes at_object [json]: "distinct (map fst kvs) \<Longrightarrow> j_at J (j_object J kvs) k = map_of kvs k"
    and is_object_object [json]: "j_is_object J (j_object J kvs)"
    and is_object_set [json]: "j_is_object J j \<Longrightarrow> j_is_object J (j_set J j k v)"
    and at_set [json]: "j_is_object J j \<Longrightarrow>
          j_at J (j_set J j k v) l = (if l = k then Some v else j_at J j l)"
    and contains_iff [json]: "j_contains J j k \<longleftrightarrow> j_at J j k \<noteq> None"
    and get_string [json]: "j_get_string J (j_string J s) = Some s"
    and get_uint [json]: "j_get_uint J (j_uint J n) = Some n"
    and get_int [json]: "j_get_int J (j_int J i) = Some i"
    and get_bool [json]: "j_get_bool J (j_bool J b) = Some b"
    and get_array [json]: "j_get_array J (j_array J xs) = Some xs"
    and is_null_null [json]: "j_is_null J (j_null J)"
    and is_null_uint [json]: "\<not> j_is_null J (j_uint J n)"
    and is_string_string [json]: "j_is_string J (j_string J s)"

text \<open>The values the code builds: no floating point numbers, no repeated member names.\<close>

inductive built :: "'j json_api \<Rightarrow> 'j \<Rightarrow> bool" for J :: "'j json_api" where
  built_object: "distinct (map fst kvs) \<Longrightarrow> (\<And>k v. (k, v) \<in> set kvs \<Longrightarrow> built J v) \<Longrightarrow> built J (j_object J kvs)"
| built_array: "(\<And>v. v \<in> set xs \<Longrightarrow> built J v) \<Longrightarrow> built J (j_array J xs)"
| built_string: "built J (j_string J s)"
| built_uint: "built J (j_uint J n)"
| built_int: "built J (j_int J n)"
| built_bool: "built J (j_bool J b)"
| built_null: "built J (j_null J)"
| built_set: "built J j \<Longrightarrow> j_is_object J j \<Longrightarrow> built J v \<Longrightarrow> built J (j_set J j k v)"

locale json_library = json_values +
  assumes parse_dump: "built J j \<Longrightarrow> j_dump J j = Some s \<Longrightarrow> j_parse J s = Some j"

section \<open>What the code uses of it\<close>

lemma those_map_inverse: "(\<And>x. x \<in> set xs \<Longrightarrow> f (g x) = Some x) \<Longrightarrow> those (map f (map g xs)) = Some xs"
  by (induction xs) auto

context json_values
begin

lemma at_optional_optional [json]:
  "j_at J j k = Some (j_optional J v) \<Longrightarrow> at_optional J j k = Some v"
  by (cases v) (simp_all add: at_optional_def j_optional_def json)

lemma at_optional_absent:
  "j_at J j k = None \<Longrightarrow> at_optional J j k = Some None"
  by (simp add: at_optional_def json)

lemma at_list_array [json]:
  "j_at J j k = Some (j_array J (map wr xs)) \<Longrightarrow> (\<And>x. x \<in> set xs \<Longrightarrow> rd (wr x) = Some x) \<Longrightarrow>
   at_list J rd j k = Some xs"
  using those_map_inverse [of xs rd wr] by (simp add: at_list_def json)

end

lemma built_optional: "built J (j_optional J v)"
  by (cases v) (simp_all add: j_optional_def built.intros)

lemma built_members:
  "distinct (map fst kvs) \<Longrightarrow> list_all (built J) (map snd kvs) \<Longrightarrow> built J (j_object J kvs)"
  by (rule built_object) (auto simp: list_all_iff)

lemma built_list: "(\<And>x. x \<in> set xs \<Longrightarrow> built J (wr x)) \<Longrightarrow> built J (j_array J (map wr xs))"
  by (rule built_array) auto

lemmas built_rules = built_members built_list built_optional built_string built_uint built_int built_bool
  built_null built_set

end
