(* ===== verification/Wire_Message.thy ===== *)
theory Wire_Message
  imports Wire_Json
begin

text \<open>
  The messages of the wire protocol: \<^verbatim>\<open>protocol/include/collab_protocol/protocol.h\<close> and the
  \<^verbatim>\<open>from_json\<close>/\<^verbatim>\<open>to_json\<close> functions of \<^verbatim>\<open>protocol/src/protocol.cpp\<close>.

  Each struct is a record, each pair of overloads a pair \<open>from_json_X\<close>, \<open>to_json_X\<close> over the JSON
  library \<open>J\<close>. Reading returns \<open>None\<close> where the library throws. Fields that a branch of
  \<^verbatim>\<open>from_json\<close> leaves alone keep the default of the struct.
\<close>

section \<open>Message types\<close>

datatype message_type =
  AuthRequest | AuthResponse | DocListRequest | DocListResponse
  | DocCreateRequest | DocCreateResponse | DocJoinRequest | DocJoinResponse
  | DocLeaveRequest | DocLeaveResponse | DocDeleteRequest | DocDeleteResponse
  | DocShareRequest | DocShareResponse | Operation | OperationAck
  | OperationBroadcast | CursorUpdate | CursorBroadcast | UserJoined
  | UserLeft | RoleChanged | DocDeleted | ServerShutdown
  | Error | UndoRequest | RedoRequest | SnapshotListRequest
  | SnapshotListResponse | SnapshotViewRequest | SnapshotViewResponse | SnapshotRestoreRequest
  | SnapshotRestoreResponse | RateLimit | Unknown

definition kStringToType :: "(string, message_type) umap" where
  "kStringToType =
    [(''auth_request'', AuthRequest),
     (''auth_response'', AuthResponse),
     (''doc_list_request'', DocListRequest),
     (''doc_list_response'', DocListResponse),
     (''doc_create_request'', DocCreateRequest),
     (''doc_create_response'', DocCreateResponse),
     (''doc_join_request'', DocJoinRequest),
     (''doc_join_response'', DocJoinResponse),
     (''doc_leave_request'', DocLeaveRequest),
     (''doc_leave_response'', DocLeaveResponse),
     (''doc_delete_request'', DocDeleteRequest),
     (''doc_delete_response'', DocDeleteResponse),
     (''doc_share_request'', DocShareRequest),
     (''doc_share_response'', DocShareResponse),
     (''operation'', Operation),
     (''operation_ack'', OperationAck),
     (''operation_broadcast'', OperationBroadcast),
     (''cursor_update'', CursorUpdate),
     (''cursor_broadcast'', CursorBroadcast),
     (''user_joined'', UserJoined),
     (''user_left'', UserLeft),
     (''role_changed'', RoleChanged),
     (''doc_deleted'', DocDeleted),
     (''server_shutdown'', ServerShutdown),
     (''error'', Error),
     (''undo_request'', UndoRequest),
     (''redo_request'', RedoRequest),
     (''snapshot_list_request'', SnapshotListRequest),
     (''snapshot_list_response'', SnapshotListResponse),
     (''snapshot_view_request'', SnapshotViewRequest),
     (''snapshot_view_response'', SnapshotViewResponse),
     (''snapshot_restore_request'', SnapshotRestoreRequest),
     (''snapshot_restore_response'', SnapshotRestoreResponse),
     (''rate_limit'', RateLimit)]"

text \<open>
  The reverse table is filled by a loop over the first one. The order in which the loop meets the
  entries is unspecified; no two of them share a type, so it does not matter.
\<close>

definition kTypeToString :: "(message_type, string) umap" where
  "kTypeToString = fold (\<lambda>(s, t) m. um_set t s m) kStringToType []"

definition parse_message_type :: "string \<Rightarrow> message_type" where
  "parse_message_type type_str =
     (case um_find kStringToType type_str of Some t \<Rightarrow> t | None \<Rightarrow> Unknown)"

definition message_type_to_string :: "message_type \<Rightarrow> string" where
  "message_type_to_string t =
     (case um_find kTypeToString t of Some s \<Rightarrow> s | None \<Rightarrow> ''unknown'')"

section \<open>Requests\<close>

record auth_request_msg =
  areq_action :: string
  areq_username :: string
  areq_password :: string

definition from_json_AuthRequest :: "'j json_api \<Rightarrow> 'j \<Rightarrow> auth_request_msg option" where
  "from_json_AuthRequest J j = do {
     v0 \<leftarrow> at_string J j ''action'';
     v1 \<leftarrow> at_string J j ''username'';
     v2 \<leftarrow> at_string J j ''password'';
     Some \<lparr>areq_action = v0, areq_username = v1, areq_password = v2\<rparr>}"

definition to_json_AuthRequest :: "'j json_api \<Rightarrow> auth_request_msg \<Rightarrow> 'j" where
  "to_json_AuthRequest J m = j_object J
     [(''type'', j_string J ''auth_request''),
      (''action'', j_string J (areq_action m)),
      (''username'', j_string J (areq_username m)),
      (''password'', j_string J (areq_password m))]"

definition to_json_DocListRequest :: "'j json_api \<Rightarrow> 'j" where
  "to_json_DocListRequest J = j_object J [(''type'', j_string J ''doc_list_request'')]"

record doc_create_request_msg =
  dcreq_title :: string

definition from_json_DocCreateRequest :: "'j json_api \<Rightarrow> 'j \<Rightarrow> doc_create_request_msg option" where
  "from_json_DocCreateRequest J j = do {
     v0 \<leftarrow> at_string J j ''title'';
     Some \<lparr>dcreq_title = v0\<rparr>}"

definition to_json_DocCreateRequest :: "'j json_api \<Rightarrow> doc_create_request_msg \<Rightarrow> 'j" where
  "to_json_DocCreateRequest J m = j_object J
     [(''type'', j_string J ''doc_create_request''),
      (''title'', j_string J (dcreq_title m))]"

record doc_join_request_msg =
  djreq_docId :: u32

definition from_json_DocJoinRequest :: "'j json_api \<Rightarrow> 'j \<Rightarrow> doc_join_request_msg option" where
  "from_json_DocJoinRequest J j = do {
     v0 \<leftarrow> at_uint J j ''docId'';
     Some \<lparr>djreq_docId = v0\<rparr>}"

definition to_json_DocJoinRequest :: "'j json_api \<Rightarrow> doc_join_request_msg \<Rightarrow> 'j" where
  "to_json_DocJoinRequest J m = j_object J
     [(''type'', j_string J ''doc_join_request''),
      (''docId'', j_uint J (djreq_docId m))]"

record doc_leave_request_msg =
  dlreq_docId :: u32

definition from_json_DocLeaveRequest :: "'j json_api \<Rightarrow> 'j \<Rightarrow> doc_leave_request_msg option" where
  "from_json_DocLeaveRequest J j = do {
     v0 \<leftarrow> at_uint J j ''docId'';
     Some \<lparr>dlreq_docId = v0\<rparr>}"

definition to_json_DocLeaveRequest :: "'j json_api \<Rightarrow> doc_leave_request_msg \<Rightarrow> 'j" where
  "to_json_DocLeaveRequest J m = j_object J
     [(''type'', j_string J ''doc_leave_request''),
      (''docId'', j_uint J (dlreq_docId m))]"

record doc_delete_request_msg =
  ddreq_docId :: u32

definition from_json_DocDeleteRequest :: "'j json_api \<Rightarrow> 'j \<Rightarrow> doc_delete_request_msg option" where
  "from_json_DocDeleteRequest J j = do {
     v0 \<leftarrow> at_uint J j ''docId'';
     Some \<lparr>ddreq_docId = v0\<rparr>}"

definition to_json_DocDeleteRequest :: "'j json_api \<Rightarrow> doc_delete_request_msg \<Rightarrow> 'j" where
  "to_json_DocDeleteRequest J m = j_object J
     [(''type'', j_string J ''doc_delete_request''),
      (''docId'', j_uint J (ddreq_docId m))]"

record doc_share_request_msg =
  dsreq_docId :: u32
  dsreq_targetUsername :: string
  dsreq_role :: string

definition from_json_DocShareRequest :: "'j json_api \<Rightarrow> 'j \<Rightarrow> doc_share_request_msg option" where
  "from_json_DocShareRequest J j = do {
     v0 \<leftarrow> at_uint J j ''docId'';
     v1 \<leftarrow> at_string J j ''targetUsername'';
     v2 \<leftarrow> at_string J j ''role'';
     Some \<lparr>dsreq_docId = v0, dsreq_targetUsername = v1, dsreq_role = v2\<rparr>}"

definition to_json_DocShareRequest :: "'j json_api \<Rightarrow> doc_share_request_msg \<Rightarrow> 'j" where
  "to_json_DocShareRequest J m = j_object J
     [(''type'', j_string J ''doc_share_request''),
      (''docId'', j_uint J (dsreq_docId m)),
      (''targetUsername'', j_string J (dsreq_targetUsername m)),
      (''role'', j_string J (dsreq_role m))]"

record op_entry =
  oe_op :: string
  oe_pos :: u32
  oe_text :: string
  oe_len :: u32

definition from_json_OpEntry :: "'j json_api \<Rightarrow> 'j \<Rightarrow> op_entry option" where
  "from_json_OpEntry J j = do {
     v0 \<leftarrow> at_string J j ''op'';
     v1 \<leftarrow> at_uint J j ''pos'';
     if v0 = ''insert'' then do {
       v2 \<leftarrow> at_string J j ''text'';
       Some \<lparr>oe_op = v0, oe_pos = v1, oe_text = v2, oe_len = 0\<rparr>}
     else if v0 = ''delete'' then do {
       v3 \<leftarrow> at_uint J j ''len'';
       Some \<lparr>oe_op = v0, oe_pos = v1, oe_text = [], oe_len = v3\<rparr>}
     else Some \<lparr>oe_op = v0, oe_pos = v1, oe_text = [], oe_len = 0\<rparr>}"

definition to_json_OpEntry :: "'j json_api \<Rightarrow> op_entry \<Rightarrow> 'j" where
  "to_json_OpEntry J m =
     (let j = j_object J [(''op'', j_string J (oe_op m)), (''pos'', j_uint J (oe_pos m))]
      in if oe_op m = ''insert'' then j_set J j ''text'' (j_string J (oe_text m))
         else if oe_op m = ''delete'' then j_set J j ''len'' (j_uint J (oe_len m))
         else j)"

record operation_msg =
  opm_docId :: u32
  opm_revision :: u32
  opm_ops :: "op_entry list"

definition from_json_Operation :: "'j json_api \<Rightarrow> 'j \<Rightarrow> operation_msg option" where
  "from_json_Operation J j = do {
     v0 \<leftarrow> at_uint J j ''docId'';
     v1 \<leftarrow> at_uint J j ''revision'';
     v2 \<leftarrow> at_list J (from_json_OpEntry J) j ''ops'';
     Some \<lparr>opm_docId = v0, opm_revision = v1, opm_ops = v2\<rparr>}"

definition to_json_Operation :: "'j json_api \<Rightarrow> operation_msg \<Rightarrow> 'j" where
  "to_json_Operation J m = j_object J
     [(''type'', j_string J ''operation''),
      (''docId'', j_uint J (opm_docId m)),
      (''revision'', j_uint J (opm_revision m)),
      (''ops'', j_array J (map (to_json_OpEntry J) (opm_ops m)))]"

record cursor_update_msg =
  cu_docId :: u32
  cu_position :: u32
  cu_selectionStart :: "u32 option"
  cu_selectionEnd :: "u32 option"

definition from_json_CursorUpdate :: "'j json_api \<Rightarrow> 'j \<Rightarrow> cursor_update_msg option" where
  "from_json_CursorUpdate J j = do {
     v0 \<leftarrow> at_uint J j ''docId'';
     v1 \<leftarrow> at_uint J j ''position'';
     v2 \<leftarrow> at_optional J j ''selectionStart'';
     v3 \<leftarrow> at_optional J j ''selectionEnd'';
     Some \<lparr>cu_docId = v0, cu_position = v1, cu_selectionStart = v2, cu_selectionEnd = v3\<rparr>}"

definition to_json_CursorUpdate :: "'j json_api \<Rightarrow> cursor_update_msg \<Rightarrow> 'j" where
  "to_json_CursorUpdate J m = j_set J (j_set J (j_object J
     [(''type'', j_string J ''cursor_update''),
      (''docId'', j_uint J (cu_docId m)),
      (''position'', j_uint J (cu_position m))])
     ''selectionStart'' (j_optional J (cu_selectionStart m)))
     ''selectionEnd'' (j_optional J (cu_selectionEnd m))"

section \<open>Responses and broadcasts\<close>

record auth_response_msg =
  ares_success :: bool
  ares_userId :: u32
  ares_error :: string

definition from_json_AuthResponse :: "'j json_api \<Rightarrow> 'j \<Rightarrow> auth_response_msg option" where
  "from_json_AuthResponse J j = do {
     v0 \<leftarrow> at_bool J j ''success'';
     if v0 then do {
       v1 \<leftarrow> at_uint J j ''userId'';
       Some \<lparr>ares_success = v0, ares_userId = v1, ares_error = []\<rparr>}
     else if j_contains J j ''error'' then do {
       v2 \<leftarrow> at_string J j ''error'';
       Some \<lparr>ares_success = v0, ares_userId = 0, ares_error = v2\<rparr>}
     else Some \<lparr>ares_success = v0, ares_userId = 0, ares_error = []\<rparr>}"

definition to_json_AuthResponse :: "'j json_api \<Rightarrow> auth_response_msg \<Rightarrow> 'j" where
  "to_json_AuthResponse J m =
     (let j = j_object J [(''type'', j_string J ''auth_response''), (''success'', j_bool J (ares_success m))]
      in if ares_success m then j_set J j ''userId'' (j_uint J (ares_userId m))
         else j_set J j ''error'' (j_string J (ares_error m)))"

record doc_list_entry =
  dle_docId :: u32
  dle_title :: string
  dle_role :: string
  dle_onlineCount :: u32

definition from_json_DocListEntry :: "'j json_api \<Rightarrow> 'j \<Rightarrow> doc_list_entry option" where
  "from_json_DocListEntry J j = do {
     v0 \<leftarrow> at_uint J j ''docId'';
     v1 \<leftarrow> at_string J j ''title'';
     v2 \<leftarrow> at_string J j ''role'';
     v3 \<leftarrow> at_int J j ''onlineCount'';
     Some \<lparr>dle_docId = v0, dle_title = v1, dle_role = v2, dle_onlineCount = v3\<rparr>}"

definition to_json_DocListEntry :: "'j json_api \<Rightarrow> doc_list_entry \<Rightarrow> 'j" where
  "to_json_DocListEntry J m = j_object J
     [(''docId'', j_uint J (dle_docId m)),
      (''title'', j_string J (dle_title m)),
      (''role'', j_string J (dle_role m)),
      (''onlineCount'', j_int J (dle_onlineCount m))]"

record doc_list_response_msg =
  dlres_documents :: "doc_list_entry list"

definition from_json_DocListResponse :: "'j json_api \<Rightarrow> 'j \<Rightarrow> doc_list_response_msg option" where
  "from_json_DocListResponse J j = do {
     v0 \<leftarrow> at_list J (from_json_DocListEntry J) j ''documents'';
     Some \<lparr>dlres_documents = v0\<rparr>}"

definition to_json_DocListResponse :: "'j json_api \<Rightarrow> doc_list_response_msg \<Rightarrow> 'j" where
  "to_json_DocListResponse J m = j_object J
     [(''type'', j_string J ''doc_list_response''),
      (''documents'', j_array J (map (to_json_DocListEntry J) (dlres_documents m)))]"

record doc_create_response_msg =
  dcres_success :: bool
  dcres_docId :: u32

definition from_json_DocCreateResponse :: "'j json_api \<Rightarrow> 'j \<Rightarrow> doc_create_response_msg option" where
  "from_json_DocCreateResponse J j = do {
     v0 \<leftarrow> at_bool J j ''success'';
     if v0 then do {
       v1 \<leftarrow> at_uint J j ''docId'';
       Some \<lparr>dcres_success = v0, dcres_docId = v1\<rparr>}
     else Some \<lparr>dcres_success = v0, dcres_docId = 0\<rparr>}"

definition to_json_DocCreateResponse :: "'j json_api \<Rightarrow> doc_create_response_msg \<Rightarrow> 'j" where
  "to_json_DocCreateResponse J m =
     (let j = j_object J [(''type'', j_string J ''doc_create_response''), (''success'', j_bool J (dcres_success m))]
      in if dcres_success m then j_set J j ''docId'' (j_uint J (dcres_docId m)) else j)"

record user_info =
  ui_userId :: u32
  ui_username :: string
  ui_color :: string

definition from_json_UserInfo :: "'j json_api \<Rightarrow> 'j \<Rightarrow> user_info option" where
  "from_json_UserInfo J j = do {
     v0 \<leftarrow> at_uint J j ''userId'';
     v1 \<leftarrow> at_string J j ''username'';
     v2 \<leftarrow> at_string J j ''color'';
     Some \<lparr>ui_userId = v0, ui_username = v1, ui_color = v2\<rparr>}"

definition to_json_UserInfo :: "'j json_api \<Rightarrow> user_info \<Rightarrow> 'j" where
  "to_json_UserInfo J m = j_object J
     [(''userId'', j_uint J (ui_userId m)),
      (''username'', j_string J (ui_username m)),
      (''color'', j_string J (ui_color m))]"

record doc_join_response_msg =
  djres_success :: bool
  djres_docId :: u32
  djres_title :: string
  djres_content :: string
  djres_revision :: u32
  djres_role :: string
  djres_users :: "user_info list"
  djres_error :: string

definition from_json_DocJoinResponse :: "'j json_api \<Rightarrow> 'j \<Rightarrow> doc_join_response_msg option" where
  "from_json_DocJoinResponse J j = do {
     v0 \<leftarrow> at_bool J j ''success'';
     if v0 then do {
       v1 \<leftarrow> at_uint J j ''docId'';
       v2 \<leftarrow> at_string J j ''title'';
       v3 \<leftarrow> at_string J j ''content'';
       v4 \<leftarrow> at_uint J j ''revision'';
       v5 \<leftarrow> at_string J j ''role'';
       v6 \<leftarrow> at_list J (from_json_UserInfo J) j ''users'';
       Some \<lparr>djres_success = v0, djres_docId = v1, djres_title = v2, djres_content = v3,
             djres_revision = v4, djres_role = v5, djres_users = v6, djres_error = []\<rparr>}
     else do {
       v7 \<leftarrow> (if j_contains J j ''error'' then at_string J j ''error'' else Some []);
       Some \<lparr>djres_success = v0, djres_docId = 0, djres_title = [], djres_content = [],
             djres_revision = 0, djres_role = [], djres_users = [], djres_error = v7\<rparr>}}"

definition to_json_DocJoinResponse :: "'j json_api \<Rightarrow> doc_join_response_msg \<Rightarrow> 'j" where
  "to_json_DocJoinResponse J m =
     (let j = j_object J [(''type'', j_string J ''doc_join_response''), (''success'', j_bool J (djres_success m))]
      in if djres_success m then
           (let j = j_set J j ''docId'' (j_uint J (djres_docId m));
                j = j_set J j ''title'' (j_string J (djres_title m));
                j = j_set J j ''content'' (j_string J (djres_content m));
                j = j_set J j ''revision'' (j_uint J (djres_revision m));
                j = j_set J j ''role'' (j_string J (djres_role m));
                j = j_set J j ''users'' (j_array J (map (to_json_UserInfo J) (djres_users m)))
            in j)
         else j_set J j ''error'' (j_string J (djres_error m)))"

record doc_leave_response_msg =
  dlvres_success :: bool

definition from_json_DocLeaveResponse :: "'j json_api \<Rightarrow> 'j \<Rightarrow> doc_leave_response_msg option" where
  "from_json_DocLeaveResponse J j = do {
     v0 \<leftarrow> at_bool J j ''success'';
     Some \<lparr>dlvres_success = v0\<rparr>}"

definition to_json_DocLeaveResponse :: "'j json_api \<Rightarrow> doc_leave_response_msg \<Rightarrow> 'j" where
  "to_json_DocLeaveResponse J m = j_object J
     [(''type'', j_string J ''doc_leave_response''),
      (''success'', j_bool J (dlvres_success m))]"

record doc_delete_response_msg =
  ddres_success :: bool

definition from_json_DocDeleteResponse :: "'j json_api \<Rightarrow> 'j \<Rightarrow> doc_delete_response_msg option" where
  "from_json_DocDeleteResponse J j = do {
     v0 \<leftarrow> at_bool J j ''success'';
     Some \<lparr>ddres_success = v0\<rparr>}"

definition to_json_DocDeleteResponse :: "'j json_api \<Rightarrow> doc_delete_response_msg \<Rightarrow> 'j" where
  "to_json_DocDeleteResponse J m = j_object J
     [(''type'', j_string J ''doc_delete_response''),
      (''success'', j_bool J (ddres_success m))]"

record doc_share_response_msg =
  dsres_success :: bool

definition from_json_DocShareResponse :: "'j json_api \<Rightarrow> 'j \<Rightarrow> doc_share_response_msg option" where
  "from_json_DocShareResponse J j = do {
     v0 \<leftarrow> at_bool J j ''success'';
     Some \<lparr>dsres_success = v0\<rparr>}"

definition to_json_DocShareResponse :: "'j json_api \<Rightarrow> doc_share_response_msg \<Rightarrow> 'j" where
  "to_json_DocShareResponse J m = j_object J
     [(''type'', j_string J ''doc_share_response''),
      (''success'', j_bool J (dsres_success m))]"

record operation_ack_msg =
  ack_docId :: u32
  ack_revision :: u32

definition from_json_OperationAck :: "'j json_api \<Rightarrow> 'j \<Rightarrow> operation_ack_msg option" where
  "from_json_OperationAck J j = do {
     v0 \<leftarrow> at_uint J j ''docId'';
     v1 \<leftarrow> at_uint J j ''revision'';
     Some \<lparr>ack_docId = v0, ack_revision = v1\<rparr>}"

definition to_json_OperationAck :: "'j json_api \<Rightarrow> operation_ack_msg \<Rightarrow> 'j" where
  "to_json_OperationAck J m = j_object J
     [(''type'', j_string J ''operation_ack''),
      (''docId'', j_uint J (ack_docId m)),
      (''revision'', j_uint J (ack_revision m))]"

record operation_broadcast_msg =
  ob_docId :: u32
  ob_userId :: u32
  ob_username :: string
  ob_revision :: u32
  ob_ops :: "op_entry list"

definition from_json_OperationBroadcast :: "'j json_api \<Rightarrow> 'j \<Rightarrow> operation_broadcast_msg option" where
  "from_json_OperationBroadcast J j = do {
     v0 \<leftarrow> at_uint J j ''docId'';
     v1 \<leftarrow> at_uint J j ''userId'';
     v2 \<leftarrow> at_string J j ''username'';
     v3 \<leftarrow> at_uint J j ''revision'';
     v4 \<leftarrow> at_list J (from_json_OpEntry J) j ''ops'';
     Some \<lparr>ob_docId = v0, ob_userId = v1, ob_username = v2, ob_revision = v3, ob_ops = v4\<rparr>}"

definition to_json_OperationBroadcast :: "'j json_api \<Rightarrow> operation_broadcast_msg \<Rightarrow> 'j" where
  "to_json_OperationBroadcast J m = j_object J
     [(''type'', j_string J ''operation_broadcast''),
      (''docId'', j_uint J (ob_docId m)),
      (''userId'', j_uint J (ob_userId m)),
      (''username'', j_string J (ob_username m)),
      (''revision'', j_uint J (ob_revision m)),
      (''ops'', j_array J (map (to_json_OpEntry J) (ob_ops m)))]"

record cursor_info =
  ci_userId :: u32
  ci_username :: string
  ci_color :: string
  ci_position :: u32
  ci_selectionStart :: "u32 option"
  ci_selectionEnd :: "u32 option"

definition from_json_CursorInfo :: "'j json_api \<Rightarrow> 'j \<Rightarrow> cursor_info option" where
  "from_json_CursorInfo J j = do {
     v0 \<leftarrow> at_uint J j ''userId'';
     v1 \<leftarrow> at_string J j ''username'';
     v2 \<leftarrow> at_string J j ''color'';
     v3 \<leftarrow> at_uint J j ''position'';
     v4 \<leftarrow> at_optional J j ''selectionStart'';
     v5 \<leftarrow> at_optional J j ''selectionEnd'';
     Some \<lparr>ci_userId = v0, ci_username = v1, ci_color = v2, ci_position = v3, ci_selectionStart = v4, ci_selectionEnd = v5\<rparr>}"

definition to_json_CursorInfo :: "'j json_api \<Rightarrow> cursor_info \<Rightarrow> 'j" where
  "to_json_CursorInfo J m = j_set J (j_set J (j_object J
     [(''userId'', j_uint J (ci_userId m)),
      (''username'', j_string J (ci_username m)),
      (''color'', j_string J (ci_color m)),
      (''position'', j_uint J (ci_position m))])
     ''selectionStart'' (j_optional J (ci_selectionStart m)))
     ''selectionEnd'' (j_optional J (ci_selectionEnd m))"

record cursor_broadcast_msg =
  cb_docId :: u32
  cb_cursors :: "cursor_info list"

definition from_json_CursorBroadcast :: "'j json_api \<Rightarrow> 'j \<Rightarrow> cursor_broadcast_msg option" where
  "from_json_CursorBroadcast J j = do {
     v0 \<leftarrow> at_uint J j ''docId'';
     v1 \<leftarrow> at_list J (from_json_CursorInfo J) j ''cursors'';
     Some \<lparr>cb_docId = v0, cb_cursors = v1\<rparr>}"

definition to_json_CursorBroadcast :: "'j json_api \<Rightarrow> cursor_broadcast_msg \<Rightarrow> 'j" where
  "to_json_CursorBroadcast J m = j_object J
     [(''type'', j_string J ''cursor_broadcast''),
      (''docId'', j_uint J (cb_docId m)),
      (''cursors'', j_array J (map (to_json_CursorInfo J) (cb_cursors m)))]"

record user_joined_msg =
  uj_docId :: u32
  uj_userId :: u32
  uj_username :: string
  uj_color :: string

definition from_json_UserJoined :: "'j json_api \<Rightarrow> 'j \<Rightarrow> user_joined_msg option" where
  "from_json_UserJoined J j = do {
     v0 \<leftarrow> at_uint J j ''docId'';
     v1 \<leftarrow> at_uint J j ''userId'';
     v2 \<leftarrow> at_string J j ''username'';
     v3 \<leftarrow> at_string J j ''color'';
     Some \<lparr>uj_docId = v0, uj_userId = v1, uj_username = v2, uj_color = v3\<rparr>}"

definition to_json_UserJoined :: "'j json_api \<Rightarrow> user_joined_msg \<Rightarrow> 'j" where
  "to_json_UserJoined J m = j_object J
     [(''type'', j_string J ''user_joined''),
      (''docId'', j_uint J (uj_docId m)),
      (''userId'', j_uint J (uj_userId m)),
      (''username'', j_string J (uj_username m)),
      (''color'', j_string J (uj_color m))]"

record user_left_msg =
  ul_docId :: u32
  ul_userId :: u32
  ul_username :: string

definition from_json_UserLeft :: "'j json_api \<Rightarrow> 'j \<Rightarrow> user_left_msg option" where
  "from_json_UserLeft J j = do {
     v0 \<leftarrow> at_uint J j ''docId'';
     v1 \<leftarrow> at_uint J j ''userId'';
     v2 \<leftarrow> at_string J j ''username'';
     Some \<lparr>ul_docId = v0, ul_userId = v1, ul_username = v2\<rparr>}"

definition to_json_UserLeft :: "'j json_api \<Rightarrow> user_left_msg \<Rightarrow> 'j" where
  "to_json_UserLeft J m = j_object J
     [(''type'', j_string J ''user_left''),
      (''docId'', j_uint J (ul_docId m)),
      (''userId'', j_uint J (ul_userId m)),
      (''username'', j_string J (ul_username m))]"

record role_changed_msg =
  rc_docId :: u32
  rc_newRole :: string

definition from_json_RoleChanged :: "'j json_api \<Rightarrow> 'j \<Rightarrow> role_changed_msg option" where
  "from_json_RoleChanged J j = do {
     v0 \<leftarrow> at_uint J j ''docId'';
     v1 \<leftarrow> at_string J j ''newRole'';
     Some \<lparr>rc_docId = v0, rc_newRole = v1\<rparr>}"

definition to_json_RoleChanged :: "'j json_api \<Rightarrow> role_changed_msg \<Rightarrow> 'j" where
  "to_json_RoleChanged J m = j_object J
     [(''type'', j_string J ''role_changed''),
      (''docId'', j_uint J (rc_docId m)),
      (''newRole'', j_string J (rc_newRole m))]"

record doc_deleted_msg =
  dd_docId :: u32

definition from_json_DocDeleted :: "'j json_api \<Rightarrow> 'j \<Rightarrow> doc_deleted_msg option" where
  "from_json_DocDeleted J j = do {
     v0 \<leftarrow> at_uint J j ''docId'';
     Some \<lparr>dd_docId = v0\<rparr>}"

definition to_json_DocDeleted :: "'j json_api \<Rightarrow> doc_deleted_msg \<Rightarrow> 'j" where
  "to_json_DocDeleted J m = j_object J
     [(''type'', j_string J ''doc_deleted''),
      (''docId'', j_uint J (dd_docId m))]"

record server_shutdown_msg =
  ss_message :: string

definition from_json_ServerShutdown :: "'j json_api \<Rightarrow> 'j \<Rightarrow> server_shutdown_msg option" where
  "from_json_ServerShutdown J j = do {
     v0 \<leftarrow> at_string J j ''message'';
     Some \<lparr>ss_message = v0\<rparr>}"

definition to_json_ServerShutdown :: "'j json_api \<Rightarrow> server_shutdown_msg \<Rightarrow> 'j" where
  "to_json_ServerShutdown J m = j_object J
     [(''type'', j_string J ''server_shutdown''),
      (''message'', j_string J (ss_message m))]"

record error_msg =
  em_code :: string
  em_message :: string

definition from_json_Error :: "'j json_api \<Rightarrow> 'j \<Rightarrow> error_msg option" where
  "from_json_Error J j = do {
     v0 \<leftarrow> at_string J j ''code'';
     v1 \<leftarrow> at_string J j ''message'';
     Some \<lparr>em_code = v0, em_message = v1\<rparr>}"

definition to_json_Error :: "'j json_api \<Rightarrow> error_msg \<Rightarrow> 'j" where
  "to_json_Error J m = j_object J
     [(''type'', j_string J ''error''),
      (''code'', j_string J (em_code m)),
      (''message'', j_string J (em_message m))]"

section \<open>A message of any kind\<close>

text \<open>
  The templates \<^verbatim>\<open>serialize<T>\<close> and \<^verbatim>\<open>parse_as<T>\<close> are instantiated for every struct with a tag.
  The instances are collected in one sum type: \<open>to_json\<close> and \<open>from_json\<close> choose the overload.
\<close>

datatype message =
  AuthRequestMsg auth_request_msg
  | DocListRequestMsg
  | DocCreateRequestMsg doc_create_request_msg
  | DocJoinRequestMsg doc_join_request_msg
  | DocLeaveRequestMsg doc_leave_request_msg
  | DocDeleteRequestMsg doc_delete_request_msg
  | DocShareRequestMsg doc_share_request_msg
  | OperationMsg operation_msg
  | CursorUpdateMsg cursor_update_msg
  | AuthResponseMsg auth_response_msg
  | DocListResponseMsg doc_list_response_msg
  | DocCreateResponseMsg doc_create_response_msg
  | DocJoinResponseMsg doc_join_response_msg
  | DocLeaveResponseMsg doc_leave_response_msg
  | DocDeleteResponseMsg doc_delete_response_msg
  | DocShareResponseMsg doc_share_response_msg
  | OperationAckMsg operation_ack_msg
  | OperationBroadcastMsg operation_broadcast_msg
  | CursorBroadcastMsg cursor_broadcast_msg
  | UserJoinedMsg user_joined_msg
  | UserLeftMsg user_left_msg
  | RoleChangedMsg role_changed_msg
  | DocDeletedMsg doc_deleted_msg
  | ServerShutdownMsg server_shutdown_msg
  | ErrorMsg error_msg

fun to_json :: "'j json_api \<Rightarrow> message \<Rightarrow> 'j" where
  "to_json J (AuthRequestMsg m) = to_json_AuthRequest J m"
| "to_json J DocListRequestMsg = to_json_DocListRequest J"
| "to_json J (DocCreateRequestMsg m) = to_json_DocCreateRequest J m"
| "to_json J (DocJoinRequestMsg m) = to_json_DocJoinRequest J m"
| "to_json J (DocLeaveRequestMsg m) = to_json_DocLeaveRequest J m"
| "to_json J (DocDeleteRequestMsg m) = to_json_DocDeleteRequest J m"
| "to_json J (DocShareRequestMsg m) = to_json_DocShareRequest J m"
| "to_json J (OperationMsg m) = to_json_Operation J m"
| "to_json J (CursorUpdateMsg m) = to_json_CursorUpdate J m"
| "to_json J (AuthResponseMsg m) = to_json_AuthResponse J m"
| "to_json J (DocListResponseMsg m) = to_json_DocListResponse J m"
| "to_json J (DocCreateResponseMsg m) = to_json_DocCreateResponse J m"
| "to_json J (DocJoinResponseMsg m) = to_json_DocJoinResponse J m"
| "to_json J (DocLeaveResponseMsg m) = to_json_DocLeaveResponse J m"
| "to_json J (DocDeleteResponseMsg m) = to_json_DocDeleteResponse J m"
| "to_json J (DocShareResponseMsg m) = to_json_DocShareResponse J m"
| "to_json J (OperationAckMsg m) = to_json_OperationAck J m"
| "to_json J (OperationBroadcastMsg m) = to_json_OperationBroadcast J m"
| "to_json J (CursorBroadcastMsg m) = to_json_CursorBroadcast J m"
| "to_json J (UserJoinedMsg m) = to_json_UserJoined J m"
| "to_json J (UserLeftMsg m) = to_json_UserLeft J m"
| "to_json J (RoleChangedMsg m) = to_json_RoleChanged J m"
| "to_json J (DocDeletedMsg m) = to_json_DocDeleted J m"
| "to_json J (ServerShutdownMsg m) = to_json_ServerShutdown J m"
| "to_json J (ErrorMsg m) = to_json_Error J m"

fun message_type_of :: "message \<Rightarrow> message_type" where
  "message_type_of (AuthRequestMsg m) = AuthRequest"
| "message_type_of DocListRequestMsg = DocListRequest"
| "message_type_of (DocCreateRequestMsg m) = DocCreateRequest"
| "message_type_of (DocJoinRequestMsg m) = DocJoinRequest"
| "message_type_of (DocLeaveRequestMsg m) = DocLeaveRequest"
| "message_type_of (DocDeleteRequestMsg m) = DocDeleteRequest"
| "message_type_of (DocShareRequestMsg m) = DocShareRequest"
| "message_type_of (OperationMsg m) = Operation"
| "message_type_of (CursorUpdateMsg m) = CursorUpdate"
| "message_type_of (AuthResponseMsg m) = AuthResponse"
| "message_type_of (DocListResponseMsg m) = DocListResponse"
| "message_type_of (DocCreateResponseMsg m) = DocCreateResponse"
| "message_type_of (DocJoinResponseMsg m) = DocJoinResponse"
| "message_type_of (DocLeaveResponseMsg m) = DocLeaveResponse"
| "message_type_of (DocDeleteResponseMsg m) = DocDeleteResponse"
| "message_type_of (DocShareResponseMsg m) = DocShareResponse"
| "message_type_of (OperationAckMsg m) = OperationAck"
| "message_type_of (OperationBroadcastMsg m) = OperationBroadcast"
| "message_type_of (CursorBroadcastMsg m) = CursorBroadcast"
| "message_type_of (UserJoinedMsg m) = UserJoined"
| "message_type_of (UserLeftMsg m) = UserLeft"
| "message_type_of (RoleChangedMsg m) = RoleChanged"
| "message_type_of (DocDeletedMsg m) = DocDeleted"
| "message_type_of (ServerShutdownMsg m) = ServerShutdown"
| "message_type_of (ErrorMsg m) = Error"

fun from_json :: "'j json_api \<Rightarrow> message_type \<Rightarrow> 'j \<Rightarrow> message option" where
  "from_json J AuthRequest j = map_option AuthRequestMsg (from_json_AuthRequest J j)"
| "from_json J DocListRequest j = Some DocListRequestMsg"
| "from_json J DocCreateRequest j = map_option DocCreateRequestMsg (from_json_DocCreateRequest J j)"
| "from_json J DocJoinRequest j = map_option DocJoinRequestMsg (from_json_DocJoinRequest J j)"
| "from_json J DocLeaveRequest j = map_option DocLeaveRequestMsg (from_json_DocLeaveRequest J j)"
| "from_json J DocDeleteRequest j = map_option DocDeleteRequestMsg (from_json_DocDeleteRequest J j)"
| "from_json J DocShareRequest j = map_option DocShareRequestMsg (from_json_DocShareRequest J j)"
| "from_json J Operation j = map_option OperationMsg (from_json_Operation J j)"
| "from_json J CursorUpdate j = map_option CursorUpdateMsg (from_json_CursorUpdate J j)"
| "from_json J AuthResponse j = map_option AuthResponseMsg (from_json_AuthResponse J j)"
| "from_json J DocListResponse j = map_option DocListResponseMsg (from_json_DocListResponse J j)"
| "from_json J DocCreateResponse j = map_option DocCreateResponseMsg (from_json_DocCreateResponse J j)"
| "from_json J DocJoinResponse j = map_option DocJoinResponseMsg (from_json_DocJoinResponse J j)"
| "from_json J DocLeaveResponse j = map_option DocLeaveResponseMsg (from_json_DocLeaveResponse J j)"
| "from_json J DocDeleteResponse j = map_option DocDeleteResponseMsg (from_json_DocDeleteResponse J j)"
| "from_json J DocShareResponse j = map_option DocShareResponseMsg (from_json_DocShareResponse J j)"
| "from_json J OperationAck j = map_option OperationAckMsg (from_json_OperationAck J j)"
| "from_json J OperationBroadcast j = map_option OperationBroadcastMsg (from_json_OperationBroadcast J j)"
| "from_json J CursorBroadcast j = map_option CursorBroadcastMsg (from_json_CursorBroadcast J j)"
| "from_json J UserJoined j = map_option UserJoinedMsg (from_json_UserJoined J j)"
| "from_json J UserLeft j = map_option UserLeftMsg (from_json_UserLeft J j)"
| "from_json J RoleChanged j = map_option RoleChangedMsg (from_json_RoleChanged J j)"
| "from_json J DocDeleted j = map_option DocDeletedMsg (from_json_DocDeleted J j)"
| "from_json J ServerShutdown j = map_option ServerShutdownMsg (from_json_ServerShutdown J j)"
| "from_json J Error j = map_option ErrorMsg (from_json_Error J j)"
| "from_json J _ j = None"

definition serialize :: "'j json_api \<Rightarrow> message \<Rightarrow> string option" where
  "serialize J msg = j_dump J (to_json J msg)"

end
