(* ===== verification/Wire_Json_Text.thy ===== *)
theory Wire_Json_Text
  imports Wire_Json
begin

text \<open>
  An instance of the JSON interface: JSON values as a datatype with a printer and a parser of
  JSON text (numbers are integers, strings escape the quote and the backslash). It shows that the
  laws of \<open>json_library\<close> can hold together and is what the concrete examples run on; no theorem
  about the protocol depends on it.
\<close>

datatype jvalue =
  JNull | JBool bool | JNum int | JStr string | JArr "jvalue list" | JObj "(string \<times> jvalue) list"

section \<open>Printing\<close>

definition escape :: "string \<Rightarrow> string" where
  "escape s = concat (map (\<lambda>c. if c = CHR 0x22 \<or> c = CHR 0x5C then [CHR 0x5C, c] else [c]) s)"

definition print_string :: "string \<Rightarrow> string" where
  "print_string s = CHR 0x22 # escape s @ [CHR 0x22]"

definition print_int :: "int \<Rightarrow> string" where
  "print_int i = (if i < 0 then CHR ''-'' # decimal (nat (- i)) else decimal (nat i))"

fun print :: "jvalue \<Rightarrow> string" where
  "print JNull = ''null''"
| "print (JBool b) = (if b then ''true'' else ''false'')"
| "print (JNum i) = print_int i"
| "print (JStr s) = print_string s"
| "print (JArr []) = ''[]''"
| "print (JArr (x # xs)) = CHR ''['' # print x @ concat (map (\<lambda>y. CHR '','' # print y) xs) @ '']''"
| "print (JObj []) = ''{}''"
| "print (JObj (m # ms)) =
     CHR ''{'' # print_string (fst m) @ CHR '':'' # print (snd m)
     @ concat (map (\<lambda>n. CHR '','' # print_string (fst n) @ CHR '':'' # print (snd n)) ms) @ ''}''"

section \<open>Parsing\<close>

definition digit :: "char \<Rightarrow> bool" where
  "digit c = ((48 :: nat) \<le> of_char c \<and> of_char c \<le> (57 :: nat))"

text \<open>The rest of a string literal, after the opening quote.\<close>

fun parse_chars :: "string \<Rightarrow> (string \<times> string) option" where
  "parse_chars [] = None"
| "parse_chars (c # r) =
     (if c = CHR 0x22 then Some ([], r)
      else if c = CHR 0x5C then
        (case r of [] \<Rightarrow> None | d # r' \<Rightarrow> map_option (map_prod ((#) d) id) (parse_chars r'))
      else map_option (map_prod ((#) c) id) (parse_chars r))"

definition parse_nat :: "string \<Rightarrow> (nat \<times> string) option" where
  "parse_nat s = (if takeWhile digit s = [] then None
     else Some (undecimal (takeWhile digit s), dropWhile digit s))"

definition parse_string :: "string \<Rightarrow> (string \<times> string) option" where
  "parse_string s = (case s of c # r \<Rightarrow> if c = CHR 0x22 then parse_chars r else None | [] \<Rightarrow> None)"

definition skip :: "char \<Rightarrow> string \<Rightarrow> string option" where
  "skip c s = (case s of d # r \<Rightarrow> if d = c then Some r else None | [] \<Rightarrow> None)"

text \<open>The nesting depth of the text bounds the recursion; the length of the text is enough.\<close>

fun parse_value :: "nat \<Rightarrow> string \<Rightarrow> (jvalue \<times> string) option"
  and parse_items :: "nat \<Rightarrow> string \<Rightarrow> (jvalue list \<times> string) option"
  and parse_member :: "nat \<Rightarrow> string \<Rightarrow> ((string \<times> jvalue) \<times> string) option"
  and parse_members :: "nat \<Rightarrow> string \<Rightarrow> ((string \<times> jvalue) list \<times> string) option" where
  "parse_value 0 s = None"
| "parse_value (Suc n) s =
     (case s of
        [] \<Rightarrow> None
      | c # r \<Rightarrow>
          if take 4 s = ''null'' then Some (JNull, drop 4 s)
          else if take 4 s = ''true'' then Some (JBool True, drop 4 s)
          else if take 5 s = ''false'' then Some (JBool False, drop 5 s)
          else if c = CHR 0x22 then map_option (map_prod JStr id) (parse_chars r)
          else if c = CHR ''-'' then map_option (map_prod (\<lambda>k. JNum (- int k)) id) (parse_nat r)
          else if take 2 s = ''[]'' then Some (JArr [], drop 2 s)
          else if c = CHR ''['' then do {
            (x, r) \<leftarrow> parse_value n r;
            (xs, r) \<leftarrow> parse_items n r;
            Some (JArr (x # xs), r)}
          else if take 2 s = ''{}'' then Some (JObj [], drop 2 s)
          else if c = CHR ''{'' then do {
            (m, r) \<leftarrow> parse_member n r;
            (ms, r) \<leftarrow> parse_members n r;
            Some (JObj (m # ms), r)}
          else map_option (map_prod (\<lambda>k. JNum (int k)) id) (parse_nat s))"
| "parse_items 0 s = None"
| "parse_items (Suc n) s =
     (case s of
        [] \<Rightarrow> None
      | c # r \<Rightarrow>
          if c = CHR '']'' then Some ([], r)
          else if c = CHR '','' then do {
            (x, r) \<leftarrow> parse_value n r;
            (xs, r) \<leftarrow> parse_items n r;
            Some (x # xs, r)}
          else None)"
| "parse_member 0 s = None"
| "parse_member (Suc n) s = do {
     (k, r) \<leftarrow> parse_string s;
     r \<leftarrow> skip (CHR '':'') r;
     (v, r) \<leftarrow> parse_value n r;
     Some ((k, v), r)}"
| "parse_members 0 s = None"
| "parse_members (Suc n) s =
     (case s of
        [] \<Rightarrow> None
      | c # r \<Rightarrow>
          if c = CHR ''}'' then Some ([], r)
          else if c = CHR '','' then do {
            (m, r) \<leftarrow> parse_member n r;
            (ms, r) \<leftarrow> parse_members n r;
            Some (m # ms, r)}
          else None)"

definition parse_text :: "string \<Rightarrow> jvalue option" where
  "parse_text s = (case parse_value (length s) s of Some (v, []) \<Rightarrow> Some v | _ \<Rightarrow> None)"

section \<open>Parsing undoes printing\<close>

definition stops :: "string \<Rightarrow> bool" where
  "stops r = (case r of [] \<Rightarrow> True | c # _ \<Rightarrow> \<not> digit c)"

lemma parse_chars_escape: "parse_chars (escape s @ CHR 0x22 # r) = Some (s, r)"
  by (induction s) (auto simp: escape_def)

lemma parse_string_print: "parse_string (print_string s @ r) = Some (s, r)"
  by (simp add: parse_string_def print_string_def parse_chars_escape)

lemma takeWhile_digits:
  assumes "stops r"
  shows "takeWhile digit (decimal n @ r) = decimal n" "dropWhile digit (decimal n @ r) = r"
proof -
  have "\<forall>c \<in> set (decimal n). digit c" using decimal_digits by (auto simp: digit_def)
  moreover have "takeWhile digit r = []" "dropWhile digit r = r"
    using assms by (cases r; simp add: stops_def)+
  ultimately show "takeWhile digit (decimal n @ r) = decimal n" "dropWhile digit (decimal n @ r) = r"
    by (simp_all add: takeWhile_append2 dropWhile_append2)
qed

lemma parse_nat_decimal: "stops r \<Longrightarrow> parse_nat (decimal n @ r) = Some (n, r)"
  by (simp add: parse_nat_def takeWhile_digits decimal_not_Nil undecimal_decimal)

lemma decimal_Cons: "\<exists>c ds. decimal n = c # ds \<and> digit c"
  using decimal_not_Nil [of n] decimal_digits [of "hd (decimal n)" n]
  by (cases "decimal n") (auto simp: digit_def)

lemma parse_value_number:
  assumes "stops r"
  shows "parse_value (Suc n) (print_int i @ r) = Some (JNum i, r)"
proof (cases "i < 0")
  case True
  then show ?thesis by (simp add: print_int_def parse_nat_decimal [OF assms])
next
  case False
  obtain c ds where ds: "decimal (nat i) = c # ds" "digit c" using decimal_Cons by blast
  then have "c \<noteq> CHR ''n''" "c \<noteq> CHR ''t''" "c \<noteq> CHR ''f''" "c \<noteq> CHR 0x22" "c \<noteq> CHR ''-''"
    "c \<noteq> CHR ''[''" "c \<noteq> CHR ''{''" by (auto simp: digit_def)
  with False ds parse_nat_decimal [OF assms, of "nat i"] show ?thesis
    by (simp add: print_int_def)
qed

lemma print_Cons: "\<exists>c cs. print v = c # cs \<and> c \<noteq> CHR '']''"
proof (cases v rule: print.cases)
  case (3 i)
  obtain c ds where "decimal (nat i) = c # ds" "digit c" using decimal_Cons by blast
  then show ?thesis using 3 by (auto simp: print_int_def digit_def)
qed (auto simp: print_string_def)

text \<open>What is to be shown of a value, with enough fuel and any continuation.\<close>

definition parses_back :: "jvalue \<Rightarrow> bool" where
  "parses_back v = (\<forall>n r. length (print v) \<le> n \<longrightarrow> stops r \<longrightarrow> parse_value n (print v @ r) = Some (v, r))"

definition items_text :: "jvalue list \<Rightarrow> string" where
  "items_text xs = concat (map (\<lambda>y. CHR '','' # print y) xs) @ '']''"

definition member_text :: "string \<times> jvalue \<Rightarrow> string" where
  "member_text m = print_string (fst m) @ CHR '':'' # print (snd m)"

definition members_text :: "(string \<times> jvalue) list \<Rightarrow> string" where
  "members_text ms = concat (map (\<lambda>m. CHR '','' # member_text m) ms) @ ''}''"

lemma stops_text: "stops (items_text xs @ r)" "stops (members_text ms @ r)"
  by (cases xs; simp add: stops_def items_text_def digit_def)
     (cases ms; simp add: stops_def members_text_def digit_def)

lemma parse_items_text:
  "\<forall>x \<in> set xs. parses_back x \<Longrightarrow> length (items_text xs) \<le> n \<Longrightarrow>
   parse_items n (items_text xs @ r) = Some (xs, r)"
proof (induction xs arbitrary: n)
  case Nil
  then show ?case by (cases n) (simp_all add: items_text_def)
next
  case (Cons x xs)
  then obtain k where n: "n = Suc k" by (cases n) (simp_all add: items_text_def)
  have shape: "items_text (x # xs) = CHR '','' # print x @ items_text xs" by (simp add: items_text_def)
  with Cons.prems n have "length (print x) \<le> k" "length (items_text xs) \<le> k" by simp_all
  with Cons.prems have "parse_value k (print x @ items_text xs @ r) = Some (x, items_text xs @ r)"
    by (simp add: parses_back_def stops_text)
  moreover have "parse_items k (items_text xs @ r) = Some (xs, r)"
    using Cons \<open>length (items_text xs) \<le> k\<close> by simp
  ultimately show ?case by (simp add: n shape)
qed

lemma parse_member_text:
  assumes "parses_back (snd m)" "length (member_text m) \<le> n" "stops r"
  shows "parse_member n (member_text m @ r) = Some (m, r)"
proof -
  obtain k where n: "n = Suc k" using assms(2) by (cases n) (simp_all add: member_text_def)
  with assms have "parse_value k (print (snd m) @ r) = Some (snd m, r)"
    by (simp add: parses_back_def member_text_def)
  then show ?thesis by (simp add: n member_text_def parse_string_print skip_def)
qed

lemma parse_members_text:
  "\<forall>m \<in> set ms. parses_back (snd m) \<Longrightarrow> length (members_text ms) \<le> n \<Longrightarrow>
   parse_members n (members_text ms @ r) = Some (ms, r)"
proof (induction ms arbitrary: n)
  case Nil
  then show ?case by (cases n) (simp_all add: members_text_def)
next
  case (Cons m ms)
  then obtain k where n: "n = Suc k" by (cases n) (simp_all add: members_text_def)
  have shape: "members_text (m # ms) = CHR '','' # member_text m @ members_text ms"
    by (simp add: members_text_def)
  with Cons.prems n have "length (member_text m) \<le> k" "length (members_text ms) \<le> k" by simp_all
  with Cons.prems have "parse_member k (member_text m @ members_text ms @ r) = Some (m, members_text ms @ r)"
    by (simp add: parse_member_text stops_text)
  moreover have "parse_members k (members_text ms @ r) = Some (ms, r)"
    using Cons \<open>length (members_text ms) \<le> k\<close> by simp
  ultimately show ?case by (simp add: n shape)
qed

lemma parses_back_array: "\<forall>x \<in> set xs. parses_back x \<Longrightarrow> parses_back (JArr xs)"
  unfolding parses_back_def [of "JArr xs"]
proof (intro allI impI)
  fix n r assume xs: "\<forall>x \<in> set xs. parses_back x" and len: "length (print (JArr xs)) \<le> n"
  obtain k where n: "n = Suc k" using len by (cases n; cases xs) simp_all
  show "parse_value n (print (JArr xs) @ r) = Some (JArr xs, r)"
  proof (cases xs)
    case (Cons y ys)
    have shape: "print (JArr xs) = CHR ''['' # print y @ items_text ys" by (simp add: Cons items_text_def)
    with len n have len': "length (print y) \<le> k" "length (items_text ys) \<le> k" by simp_all
    have "parse_value k (print y @ items_text ys @ r) = Some (y, items_text ys @ r)"
      using xs Cons len'(1) by (simp add: parses_back_def stops_text)
    moreover have "parse_items k (items_text ys @ r) = Some (ys, r)"
      using xs Cons len'(2) by (simp add: parse_items_text)
    moreover obtain c cs where "print y = c # cs" "c \<noteq> CHR '']''" using print_Cons by blast
    ultimately show ?thesis unfolding n shape by (simp add: Cons)
  qed (simp add: n)
qed

lemma parses_back_object: "\<forall>m \<in> set ms. parses_back (snd m) \<Longrightarrow> parses_back (JObj ms)"
  unfolding parses_back_def [of "JObj ms"]
proof (intro allI impI)
  fix n r assume ms: "\<forall>m \<in> set ms. parses_back (snd m)" and len: "length (print (JObj ms)) \<le> n"
  obtain k where n: "n = Suc k" using len by (cases n; cases ms) simp_all
  show "parse_value n (print (JObj ms) @ r) = Some (JObj ms, r)"
  proof (cases ms)
    case (Cons y ys)
    have shape: "print (JObj ms) = CHR ''{'' # member_text y @ members_text ys"
      by (simp add: Cons members_text_def member_text_def)
    with len n have len': "length (member_text y) \<le> k" "length (members_text ys) \<le> k" by simp_all
    have "parse_member k (member_text y @ members_text ys @ r) = Some (y, members_text ys @ r)"
      using ms Cons len'(1) by (simp add: parse_member_text stops_text)
    moreover have "parse_members k (members_text ys @ r) = Some (ys, r)"
      using ms Cons len'(2) by (simp add: parse_members_text)
    moreover obtain cs where "member_text y = CHR 0x22 # cs"
      by (simp add: member_text_def print_string_def)
    ultimately show ?thesis unfolding n shape by (simp add: Cons)
  qed (simp add: n)
qed

lemma print_parses_back: "parses_back v"
proof (induction v)
  case (JNum i)
  show ?case unfolding parses_back_def
  proof (intro allI impI)
    fix n r assume "length (print (JNum i)) \<le> n" "stops r"
    moreover have "print_int i \<noteq> []" by (simp add: print_int_def decimal_not_Nil)
    ultimately show "parse_value n (print (JNum i) @ r) = Some (JNum i, r)"
      by (cases n) (simp_all add: parse_value_number del: parse_value.simps)
  qed
next
  case (JStr s)
  show ?case unfolding parses_back_def
  proof (intro allI impI)
    fix n r assume "length (print (JStr s)) \<le> n"
    then show "parse_value n (print (JStr s) @ r) = Some (JStr s, r)"
      by (cases n) (simp_all add: print_string_def parse_chars_escape)
  qed
next
  case (JArr xs)
  then show ?case by (intro parses_back_array) blast
next
  case (JObj ms)
  then show ?case by (intro parses_back_object) (auto intro: snds.intros)
next
  case JNull
  have "parse_value n (print JNull @ r) = Some (JNull, r)" if "length (print JNull) \<le> n" for n r
    using that by (cases n) simp_all
  then show ?case by (simp add: parses_back_def)
next
  case (JBool b)
  have "parse_value n (print (JBool b) @ r) = Some (JBool b, r)" if "length (print (JBool b)) \<le> n" for n r
    using that by (cases n; cases b) simp_all
  then show ?case by (simp add: parses_back_def)
qed

lemma parse_print: "parse_text (print v) = Some v"
proof -
  have "stops []" by (simp add: stops_def)
  then have "parse_value (length (print v)) (print v @ []) = Some (v, [])"
    using print_parses_back [of v] unfolding parses_back_def by blast
  then show ?thesis by (simp add: parse_text_def)
qed

section \<open>The instance\<close>

fun jv_at :: "jvalue \<Rightarrow> string \<Rightarrow> jvalue option" where
  "jv_at (JObj ms) k = map_of ms k"
| "jv_at _ k = None"

fun jv_set :: "jvalue \<Rightarrow> string \<Rightarrow> jvalue \<Rightarrow> jvalue" where
  "jv_set (JObj ms) k v = JObj (AList.update k v ms)"
| "jv_set j k v = j"

fun jv_get_string :: "jvalue \<Rightarrow> string option" where
  "jv_get_string (JStr s) = Some s"
| "jv_get_string _ = None"

fun jv_get_word :: "jvalue \<Rightarrow> u32 option" where
  "jv_get_word (JNum i) = Some (word_of_int i)"
| "jv_get_word (JBool b) = Some (of_bool b)"
| "jv_get_word _ = None"

fun jv_get_bool :: "jvalue \<Rightarrow> bool option" where
  "jv_get_bool (JBool b) = Some b"
| "jv_get_bool _ = None"

fun jv_get_array :: "jvalue \<Rightarrow> jvalue list option" where
  "jv_get_array (JArr xs) = Some xs"
| "jv_get_array _ = None"

definition json_text :: "jvalue json_api" where
  "json_text = \<lparr>j_object = JObj, j_array = JArr, j_string = JStr, j_uint = (\<lambda>n. JNum (uint n)),
     j_int = (\<lambda>n. JNum (sint n)), j_bool = JBool, j_null = JNull, j_set = jv_set, j_at = jv_at,
     j_get_string = jv_get_string, j_get_uint = jv_get_word, j_get_int = jv_get_word,
     j_get_bool = jv_get_bool, j_get_array = jv_get_array,
     j_contains = (\<lambda>j k. jv_at j k \<noteq> None), j_is_object = (\<lambda>j. case j of JObj _ \<Rightarrow> True | _ \<Rightarrow> False),
     j_is_null = (\<lambda>j. case j of JNull \<Rightarrow> True | _ \<Rightarrow> False),
     j_is_string = (\<lambda>j. case j of JStr _ \<Rightarrow> True | _ \<Rightarrow> False),
     j_dump = (\<lambda>j. Some (print j)), j_parse = parse_text\<rparr>"

interpretation json_text: json_library json_text
  by unfold_locales
    (auto simp: json_text_def parse_print update_conv' split: jvalue.splits)

lemma json_text_serializes: "j_dump json_text j = Some (print j)"
  by (simp add: json_text_def)

end
