(* ===== verification/Wire_Codec.thy ===== *)
theory Wire_Codec
  imports Wire_Message Wire_Json_Text
begin

text \<open>
  Reading back what was written: the round trips of the JSON codecs of \<^verbatim>\<open>protocol.cpp\<close>, and the
  envelope and message parsers of the client, \<^verbatim>\<open>client/src/protocol_codec.cpp\<close>.

  \<open>canonical\<close> describes the messages whose unused fields hold their defaults, which is what the
  designated initialisers of the callers produce; only for those can the reader restore the
  struct, because \<^verbatim>\<open>to_json\<close> leaves unused fields out.
\<close>

section \<open>Parsers of the client\<close>

text \<open>
  \<^verbatim>\<open>QByteArray(s.data(), static_cast<int>(s.size()))\<close>: a negative size makes Qt take the bytes up
  to the first NUL.
\<close>

definition to_qbytes :: "string \<Rightarrow> string" where
  "to_qbytes s =
     (let n = sint (size32 s)
      in if n < 0 then takeWhile (\<lambda>c. c \<noteq> CHR 0x00) s else take (nat n) s)"

definition parse_envelope :: "'j json_api \<Rightarrow> string \<Rightarrow> message_type \<times> string" where
  "parse_envelope J payload =
     (case j_parse J payload of
        None \<Rightarrow> (Unknown, payload)
      | Some j \<Rightarrow>
          if \<not> j_contains J j ''type'' then (Unknown, payload)
          else (case j_at J j ''type'' of
                  None \<Rightarrow> (Unknown, payload)
                | Some t \<Rightarrow>
                    if \<not> j_is_string J t then (Unknown, payload)
                    else (case j_get_string J t of
                            None \<Rightarrow> (Unknown, payload)
                          | Some s \<Rightarrow> (parse_message_type s, payload))))"

text \<open>\<^verbatim>\<open>parse_as<T>\<close>; the reader \<open>rd\<close> is the \<^verbatim>\<open>from_json\<close> of \<^verbatim>\<open>T\<close>.\<close>

definition parse_as :: "'j json_api \<Rightarrow> ('j \<Rightarrow> 'a option) \<Rightarrow> string \<Rightarrow> 'a option" where
  "parse_as J rd payload = Option.bind (j_parse J payload) rd"

section \<open>Canonical messages\<close>

definition canonical_entry :: "op_entry \<Rightarrow> bool" where
  "canonical_entry e = ((oe_op e = ''insert'' \<or> oe_text e = []) \<and> (oe_op e = ''delete'' \<or> oe_len e = 0))"

fun canonical :: "message \<Rightarrow> bool" where
  "canonical (OperationMsg m) = list_all canonical_entry (opm_ops m)"
| "canonical (OperationBroadcastMsg m) = list_all canonical_entry (ob_ops m)"
| "canonical (AuthResponseMsg m) = (if ares_success m then ares_error m = [] else ares_userId m = 0)"
| "canonical (DocCreateResponseMsg m) = (dcres_success m \<or> dcres_docId m = 0)"
| "canonical (DocJoinResponseMsg m) =
     (if djres_success m then djres_error m = []
      else djres_docId m = 0 \<and> djres_title m = [] \<and> djres_content m = [] \<and> djres_revision m = 0
           \<and> djres_role m = [] \<and> djres_users m = [])"
| "canonical _ = True"

section \<open>The type tables\<close>

lemma um_wf_kStringToType: "um_wf kStringToType"
  by code_simp

lemma kTypeToString_inverse:
  "list_all (\<lambda>(s, t). message_type_to_string t = s) kStringToType
   \<and> message_type_to_string Unknown = ''unknown'' \<and> parse_message_type ''unknown'' = Unknown"
  by code_simp

lemma parse_message_type_entry: "(s, t) \<in> set kStringToType \<Longrightarrow> parse_message_type s = t"
  using um_wf_kStringToType by (simp add: parse_message_type_def umap)

lemma kStringToType_types:
  "map snd kStringToType =
    [AuthRequest, AuthResponse, DocListRequest, DocListResponse,
     DocCreateRequest, DocCreateResponse, DocJoinRequest, DocJoinResponse,
     DocLeaveRequest, DocLeaveResponse, DocDeleteRequest, DocDeleteResponse,
     DocShareRequest, DocShareResponse, Operation, OperationAck,
     OperationBroadcast, CursorUpdate, CursorBroadcast, UserJoined,
     UserLeft, RoleChanged, DocDeleted, ServerShutdown,
     Error, UndoRequest, RedoRequest, SnapshotListRequest,
     SnapshotListResponse, SnapshotViewRequest, SnapshotViewResponse, SnapshotRestoreRequest,
     SnapshotRestoreResponse, RateLimit]"
  by (simp only: kStringToType_def list.map snd_conv)

lemma message_type_entry: "t = Unknown \<or> (message_type_to_string t, t) \<in> set kStringToType"
proof -
  have "t = Unknown \<or> t \<in> set (map snd kStringToType)"
    unfolding kStringToType_types by (cases t) simp_all
  then show ?thesis using kTypeToString_inverse by (auto simp: list_all_iff)
qed

section \<open>Round trips, struct by struct\<close>

context json_values
begin

lemma AuthRequest_roundtrip: "from_json_AuthRequest J (to_json_AuthRequest J m) = Some m"
  by (simp add: from_json_AuthRequest_def to_json_AuthRequest_def json_at_defs json)

lemma DocCreateRequest_roundtrip: "from_json_DocCreateRequest J (to_json_DocCreateRequest J m) = Some m"
  by (simp add: from_json_DocCreateRequest_def to_json_DocCreateRequest_def json_at_defs json)

lemma DocJoinRequest_roundtrip: "from_json_DocJoinRequest J (to_json_DocJoinRequest J m) = Some m"
  by (simp add: from_json_DocJoinRequest_def to_json_DocJoinRequest_def json_at_defs json)

lemma DocLeaveRequest_roundtrip: "from_json_DocLeaveRequest J (to_json_DocLeaveRequest J m) = Some m"
  by (simp add: from_json_DocLeaveRequest_def to_json_DocLeaveRequest_def json_at_defs json)

lemma DocDeleteRequest_roundtrip: "from_json_DocDeleteRequest J (to_json_DocDeleteRequest J m) = Some m"
  by (simp add: from_json_DocDeleteRequest_def to_json_DocDeleteRequest_def json_at_defs json)

lemma DocShareRequest_roundtrip: "from_json_DocShareRequest J (to_json_DocShareRequest J m) = Some m"
  by (simp add: from_json_DocShareRequest_def to_json_DocShareRequest_def json_at_defs json)

lemma OpEntry_roundtrip: "canonical_entry m \<Longrightarrow> from_json_OpEntry J (to_json_OpEntry J m) = Some m"
  by (cases m) (auto simp: from_json_OpEntry_def to_json_OpEntry_def canonical_entry_def json_at_defs json Let_def)

lemma Operation_roundtrip: "list_all canonical_entry (opm_ops m) \<Longrightarrow> from_json_Operation J (to_json_Operation J m) = Some m"
  by (cases m) (simp add: from_json_Operation_def to_json_Operation_def at_string_def at_uint_def json
      at_list_array [of _ _ "to_json_OpEntry J"] OpEntry_roundtrip list_all_iff)

lemma CursorUpdate_roundtrip: "from_json_CursorUpdate J (to_json_CursorUpdate J m) = Some m"
  by (simp add: from_json_CursorUpdate_def to_json_CursorUpdate_def json_at_defs json)

lemma AuthResponse_roundtrip: "canonical (AuthResponseMsg m) \<Longrightarrow> from_json_AuthResponse J (to_json_AuthResponse J m) = Some m"
  by (cases m) (auto simp: from_json_AuthResponse_def to_json_AuthResponse_def json_at_defs json Let_def split: if_splits)

lemma DocListEntry_roundtrip: "from_json_DocListEntry J (to_json_DocListEntry J m) = Some m"
  by (simp add: from_json_DocListEntry_def to_json_DocListEntry_def json_at_defs json)

lemma DocListResponse_roundtrip: "from_json_DocListResponse J (to_json_DocListResponse J m) = Some m"
  by (cases m) (simp add: from_json_DocListResponse_def to_json_DocListResponse_def at_string_def at_uint_def json
      at_list_array [of _ _ "to_json_DocListEntry J"] DocListEntry_roundtrip)

lemma DocCreateResponse_roundtrip: "canonical (DocCreateResponseMsg m) \<Longrightarrow> from_json_DocCreateResponse J (to_json_DocCreateResponse J m) = Some m"
  by (cases m) (auto simp: from_json_DocCreateResponse_def to_json_DocCreateResponse_def json_at_defs json Let_def split: if_splits)

lemma UserInfo_roundtrip: "from_json_UserInfo J (to_json_UserInfo J m) = Some m"
  by (simp add: from_json_UserInfo_def to_json_UserInfo_def json_at_defs json)

lemma DocJoinResponse_roundtrip: "canonical (DocJoinResponseMsg m) \<Longrightarrow> from_json_DocJoinResponse J (to_json_DocJoinResponse J m) = Some m"
  by (cases m) (simp add: from_json_DocJoinResponse_def to_json_DocJoinResponse_def at_string_def at_uint_def
      at_bool_def json at_list_array [of _ _ "to_json_UserInfo J"] UserInfo_roundtrip Let_def split: if_splits)

lemma DocLeaveResponse_roundtrip: "from_json_DocLeaveResponse J (to_json_DocLeaveResponse J m) = Some m"
  by (simp add: from_json_DocLeaveResponse_def to_json_DocLeaveResponse_def json_at_defs json)

lemma DocDeleteResponse_roundtrip: "from_json_DocDeleteResponse J (to_json_DocDeleteResponse J m) = Some m"
  by (simp add: from_json_DocDeleteResponse_def to_json_DocDeleteResponse_def json_at_defs json)

lemma DocShareResponse_roundtrip: "from_json_DocShareResponse J (to_json_DocShareResponse J m) = Some m"
  by (simp add: from_json_DocShareResponse_def to_json_DocShareResponse_def json_at_defs json)

lemma OperationAck_roundtrip: "from_json_OperationAck J (to_json_OperationAck J m) = Some m"
  by (simp add: from_json_OperationAck_def to_json_OperationAck_def json_at_defs json)

lemma OperationBroadcast_roundtrip: "list_all canonical_entry (ob_ops m) \<Longrightarrow> from_json_OperationBroadcast J (to_json_OperationBroadcast J m) = Some m"
  by (cases m) (simp add: from_json_OperationBroadcast_def to_json_OperationBroadcast_def at_string_def at_uint_def json
      at_list_array [of _ _ "to_json_OpEntry J"] OpEntry_roundtrip list_all_iff)

lemma CursorInfo_roundtrip: "from_json_CursorInfo J (to_json_CursorInfo J m) = Some m"
  by (simp add: from_json_CursorInfo_def to_json_CursorInfo_def json_at_defs json)

lemma CursorBroadcast_roundtrip: "from_json_CursorBroadcast J (to_json_CursorBroadcast J m) = Some m"
  by (cases m) (simp add: from_json_CursorBroadcast_def to_json_CursorBroadcast_def at_string_def at_uint_def json
      at_list_array [of _ _ "to_json_CursorInfo J"] CursorInfo_roundtrip)

lemma UserJoined_roundtrip: "from_json_UserJoined J (to_json_UserJoined J m) = Some m"
  by (simp add: from_json_UserJoined_def to_json_UserJoined_def json_at_defs json)

lemma UserLeft_roundtrip: "from_json_UserLeft J (to_json_UserLeft J m) = Some m"
  by (simp add: from_json_UserLeft_def to_json_UserLeft_def json_at_defs json)

lemma RoleChanged_roundtrip: "from_json_RoleChanged J (to_json_RoleChanged J m) = Some m"
  by (simp add: from_json_RoleChanged_def to_json_RoleChanged_def json_at_defs json)

lemma DocDeleted_roundtrip: "from_json_DocDeleted J (to_json_DocDeleted J m) = Some m"
  by (simp add: from_json_DocDeleted_def to_json_DocDeleted_def json_at_defs json)

lemma ServerShutdown_roundtrip: "from_json_ServerShutdown J (to_json_ServerShutdown J m) = Some m"
  by (simp add: from_json_ServerShutdown_def to_json_ServerShutdown_def json_at_defs json)

lemma Error_roundtrip: "from_json_Error J (to_json_Error J m) = Some m"
  by (simp add: from_json_Error_def to_json_Error_def json_at_defs json)

end

section \<open>Round trips of any message\<close>

lemmas to_json_defs = 
  to_json_AuthRequest_def to_json_DocListRequest_def to_json_DocCreateRequest_def to_json_DocJoinRequest_def
  to_json_DocLeaveRequest_def to_json_DocDeleteRequest_def to_json_DocShareRequest_def to_json_OpEntry_def
  to_json_Operation_def to_json_CursorUpdate_def to_json_AuthResponse_def to_json_DocListEntry_def
  to_json_DocListResponse_def to_json_DocCreateResponse_def to_json_UserInfo_def to_json_DocJoinResponse_def
  to_json_DocLeaveResponse_def to_json_DocDeleteResponse_def to_json_DocShareResponse_def to_json_OperationAck_def
  to_json_OperationBroadcast_def to_json_CursorInfo_def to_json_CursorBroadcast_def to_json_UserJoined_def
  to_json_UserLeft_def to_json_RoleChanged_def to_json_DocDeleted_def to_json_ServerShutdown_def
  to_json_Error_def

lemmas message_type_names = kTypeToString_inverse [unfolded kStringToType_def list.pred_inject prod.case]

context json_library
begin

lemma from_json_to_json: "canonical msg \<Longrightarrow> from_json J (message_type_of msg) (to_json J msg) = Some msg"
  by (cases msg) (simp_all add: 
      AuthRequest_roundtrip DocCreateRequest_roundtrip DocJoinRequest_roundtrip DocLeaveRequest_roundtrip
      DocDeleteRequest_roundtrip DocShareRequest_roundtrip Operation_roundtrip CursorUpdate_roundtrip
      AuthResponse_roundtrip DocListResponse_roundtrip DocCreateResponse_roundtrip DocJoinResponse_roundtrip
      DocLeaveResponse_roundtrip DocDeleteResponse_roundtrip DocShareResponse_roundtrip OperationAck_roundtrip
      OperationBroadcast_roundtrip CursorBroadcast_roundtrip UserJoined_roundtrip UserLeft_roundtrip
      RoleChanged_roundtrip DocDeleted_roundtrip ServerShutdown_roundtrip Error_roundtrip)

lemma to_json_type:
  "j_at J (to_json J msg) ''type'' = Some (j_string J (message_type_to_string (message_type_of msg)))"
  by (cases msg) (simp_all add: to_json_defs json message_type_names Let_def)

lemma built_to_json: "built J (to_json J msg)"
  by (cases msg) (auto simp: to_json_defs json Let_def intro!: built_rules)

lemma parse_serialized: "serialize J msg = Some s \<Longrightarrow> j_parse J s = Some (to_json J msg)"
  unfolding serialize_def by (rule parse_dump [OF built_to_json])

lemma parse_as_serialized:
  "canonical msg \<Longrightarrow> serialize J msg = Some s \<Longrightarrow> parse_as J (from_json J (message_type_of msg)) s = Some msg"
  by (simp add: parse_as_def parse_serialized from_json_to_json)

lemma parse_envelope_serialized:
  assumes "serialize J msg = Some s"
  shows "parse_envelope J s = (message_type_of msg, s)"
proof -
  have "parse_message_type (message_type_to_string (message_type_of msg)) = message_type_of msg"
    using message_type_entry parse_message_type_entry kTypeToString_inverse by metis
  then show ?thesis
    by (simp add: parse_envelope_def parse_serialized [OF assms] to_json_type json)
qed

end

section \<open>Properties\<close>

text \<open>
  C18: the wire format loses nothing. For every message struct of the protocol, what serialize
  writes is recognised by parse_envelope as a message of its own type, and parse_as restores the
  struct, field by field. The JSON library is assumed to behave as documented; serialisation
  itself may throw (on text that is not UTF-8), and then nothing is sent.
\<close>

theorem wire_roundtrip:
  assumes "json_library J" "canonical msg" "serialize J msg = Some s"
  shows "parse_envelope J s = (message_type_of msg, s) \<and> parse_as J (from_json J (message_type_of msg)) s = Some msg"
  using json_library.parse_envelope_serialized [OF assms(1,3)]
    json_library.parse_as_serialized [OF assms] by blast

definition example_message :: message where
  "example_message = OperationBroadcastMsg
     \<lparr>ob_docId = 7, ob_userId = 2, ob_username = ''bob'', ob_revision = 5,
      ob_ops = [\<lparr>oe_op = ''insert'', oe_pos = 3, oe_text = ''a,b'', oe_len = 0\<rparr>,
                \<lparr>oe_op = ''delete'', oe_pos = 0, oe_text = '''', oe_len = 2\<rparr>]\<rparr>"

theorem wire_roundtrip_witness:
  "parse_as json_text (from_json json_text OperationBroadcast) (print (to_json json_text example_message))
     = Some example_message"
proof -
  have "serialize json_text example_message = Some (print (to_json json_text example_message))"
    by (simp add: serialize_def json_text_serializes)
  from wire_roundtrip [OF json_text.json_library_axioms _ this] show ?thesis
    by (simp add: example_message_def canonical_entry_def del: from_json.simps)
qed

text \<open>
  Type names and types correspond. Every message type survives being written as its name and
  read back, and reading then writing returns the name unless it is not in the table, which gives
  "unknown".
\<close>

lemma message_type_table:
  "parse_message_type (message_type_to_string t) = t
   \<and> message_type_to_string (parse_message_type s) = (if s \<in> fst ` set kStringToType then s else ''unknown'')"
proof
  show "parse_message_type (message_type_to_string t) = t"
    using message_type_entry parse_message_type_entry kTypeToString_inverse by metis
  show "message_type_to_string (parse_message_type s)
      = (if s \<in> fst ` set kStringToType then s else ''unknown'')"
  proof (cases "s \<in> fst ` set kStringToType")
    case True
    then obtain t where st: "(s, t) \<in> set kStringToType" by auto
    with kTypeToString_inverse have "message_type_to_string t = s" unfolding list_all_iff by blast
    with True parse_message_type_entry [OF st] show ?thesis by simp
  next
    case False
    then have "um_find kStringToType s = None" by (simp add: um_find_def map_of_eq_None_iff)
    then have "parse_message_type s = Unknown" by (simp add: parse_message_type_def)
    with False show ?thesis using kTypeToString_inverse by simp
  qed
qed

end
