(* ===== verification/Client_Codec.thy ===== *)
theory Client_Codec
  imports Wire_Codec
begin

text \<open>
  The requests of the client and the messages it reads: the \<^verbatim>\<open>encode_*\<close> and \<^verbatim>\<open>parse_*\<close> functions of
  \<^verbatim>\<open>client/src/protocol_codec.cpp\<close>.
  \<open>toStd\<close> stands for \<^verbatim>\<open>QString::toStdString\<close>, which is Qt's. A function returns \<open>None\<close> when the
  JSON library throws while printing.
\<close>

section \<open>Encoders\<close>

definition encode_msg :: "'j json_api \<Rightarrow> message \<Rightarrow> string option" where
  "encode_msg J msg = map_option to_qbytes (serialize J msg)"

definition encode_auth_request ::
  "'j json_api \<Rightarrow> ('q \<Rightarrow> string) \<Rightarrow> 'q \<Rightarrow> 'q \<Rightarrow> 'q \<Rightarrow> string option" where
  "encode_auth_request J toStd action username password =
     encode_msg J (AuthRequestMsg \<lparr>areq_action = toStd action, areq_username = toStd username,
       areq_password = toStd password\<rparr>)"

definition encode_doc_list_request :: "'j json_api \<Rightarrow> string option" where
  "encode_doc_list_request J = encode_msg J DocListRequestMsg"

definition encode_doc_create_request :: "'j json_api \<Rightarrow> ('q \<Rightarrow> string) \<Rightarrow> 'q \<Rightarrow> string option" where
  "encode_doc_create_request J toStd ttl = encode_msg J (DocCreateRequestMsg \<lparr>dcreq_title = toStd ttl\<rparr>)"

definition encode_doc_join_request :: "'j json_api \<Rightarrow> u32 \<Rightarrow> string option" where
  "encode_doc_join_request J docId = encode_msg J (DocJoinRequestMsg \<lparr>djreq_docId = docId\<rparr>)"

definition encode_doc_leave_request :: "'j json_api \<Rightarrow> u32 \<Rightarrow> string option" where
  "encode_doc_leave_request J docId = encode_msg J (DocLeaveRequestMsg \<lparr>dlreq_docId = docId\<rparr>)"

definition encode_doc_delete_request :: "'j json_api \<Rightarrow> u32 \<Rightarrow> string option" where
  "encode_doc_delete_request J docId = encode_msg J (DocDeleteRequestMsg \<lparr>ddreq_docId = docId\<rparr>)"

definition encode_doc_share_request ::
  "'j json_api \<Rightarrow> ('q \<Rightarrow> string) \<Rightarrow> u32 \<Rightarrow> 'q \<Rightarrow> 'q \<Rightarrow> string option" where
  "encode_doc_share_request J toStd docId targetUsername role =
     encode_msg J (DocShareRequestMsg \<lparr>dsreq_docId = docId,
       dsreq_targetUsername = toStd targetUsername, dsreq_role = toStd role\<rparr>)"

definition encode_cursor_update ::
  "'j json_api \<Rightarrow> u32 \<Rightarrow> u32 \<Rightarrow> u32 option \<Rightarrow> u32 option \<Rightarrow> string option" where
  "encode_cursor_update J docId pos selectionStart selectionEnd =
     encode_msg J (CursorUpdateMsg \<lparr>cu_docId = docId, cu_position = pos,
       cu_selectionStart = selectionStart, cu_selectionEnd = selectionEnd\<rparr>)"

lemmas encode_defs = encode_auth_request_def encode_doc_list_request_def encode_doc_create_request_def
  encode_doc_join_request_def encode_doc_leave_request_def encode_doc_delete_request_def
  encode_doc_share_request_def encode_cursor_update_def

section \<open>Parsers\<close>

text \<open>The \<^verbatim>\<open>parse_*\<close> functions: one reader per message the windows look into.\<close>

definition parse_auth_response :: "'j json_api \<Rightarrow> string \<Rightarrow> auth_response_msg option" where
  "parse_auth_response J payload = parse_as J (from_json_AuthResponse J) payload"

definition parse_doc_list_response :: "'j json_api \<Rightarrow> string \<Rightarrow> doc_list_response_msg option" where
  "parse_doc_list_response J payload = parse_as J (from_json_DocListResponse J) payload"

definition parse_doc_create_response :: "'j json_api \<Rightarrow> string \<Rightarrow> doc_create_response_msg option" where
  "parse_doc_create_response J payload = parse_as J (from_json_DocCreateResponse J) payload"

definition parse_doc_join_response :: "'j json_api \<Rightarrow> string \<Rightarrow> doc_join_response_msg option" where
  "parse_doc_join_response J payload = parse_as J (from_json_DocJoinResponse J) payload"

definition parse_doc_delete_response :: "'j json_api \<Rightarrow> string \<Rightarrow> doc_delete_response_msg option" where
  "parse_doc_delete_response J payload = parse_as J (from_json_DocDeleteResponse J) payload"

definition parse_cursor_broadcast :: "'j json_api \<Rightarrow> string \<Rightarrow> cursor_broadcast_msg option" where
  "parse_cursor_broadcast J payload = parse_as J (from_json_CursorBroadcast J) payload"

definition parse_user_joined :: "'j json_api \<Rightarrow> string \<Rightarrow> user_joined_msg option" where
  "parse_user_joined J payload = parse_as J (from_json_UserJoined J) payload"

definition parse_user_left :: "'j json_api \<Rightarrow> string \<Rightarrow> user_left_msg option" where
  "parse_user_left J payload = parse_as J (from_json_UserLeft J) payload"

definition parse_server_shutdown :: "'j json_api \<Rightarrow> string \<Rightarrow> server_shutdown_msg option" where
  "parse_server_shutdown J payload = parse_as J (from_json_ServerShutdown J) payload"

definition parse_doc_deleted :: "'j json_api \<Rightarrow> string \<Rightarrow> doc_deleted_msg option" where
  "parse_doc_deleted J payload = parse_as J (from_json_DocDeleted J) payload"

definition parse_role_changed :: "'j json_api \<Rightarrow> string \<Rightarrow> role_changed_msg option" where
  "parse_role_changed J payload = parse_as J (from_json_RoleChanged J) payload"

definition parse_error :: "'j json_api \<Rightarrow> string \<Rightarrow> error_msg option" where
  "parse_error J payload = parse_as J (from_json_Error J) payload"

lemmas parse_defs = parse_auth_response_def parse_doc_list_response_def parse_doc_create_response_def parse_doc_join_response_def parse_doc_delete_response_def parse_cursor_broadcast_def
  parse_user_joined_def parse_user_left_def parse_server_shutdown_def parse_doc_deleted_def parse_role_changed_def parse_error_def

section \<open>Requests arrive as they were meant\<close>

lemma to_qbytes_small: "length s < 2 ^ 31 \<Longrightarrow> to_qbytes s = s"
  by (simp add: to_qbytes_def Let_def sint_small unat_size32)

lemma encode_msg_decodes:
  assumes "json_library J" "canonical msg" "encode_msg J msg = Some s" "\<And>t. serialize J msg = Some t \<Longrightarrow> length t < 2 ^ 31"
  shows "parse_envelope J s = (message_type_of msg, s) \<and> from_json J (message_type_of msg) (the (j_parse J s)) = Some msg"
proof -
  from assms(3) obtain t where t: "serialize J msg = Some t" "s = to_qbytes t"
    by (auto simp: encode_msg_def)
  then have s: "serialize J msg = Some s" using assms(4) by (simp add: to_qbytes_small)
  show ?thesis
    using json_library.parse_envelope_serialized [OF assms(1) s]
      json_library.parse_serialized [OF assms(1) s] json_library.from_json_to_json [OF assms(1,2)]
    by simp
qed

end
