(* ===== verification/Client_OT.thy ===== *)
theory Client_OT
  imports Collab_OT Wire_Codec
begin

text \<open>
  The editing state of the client: \<^verbatim>\<open>client/src/local_document.cpp\<close> and
  \<^verbatim>\<open>client/src/ot_controller.cpp\<close>.

  The controller keeps at most one operation in flight (\<open>pending_op\<close>) and queues later ones
  (\<open>buffer\<close>). Operations of other users are transformed past both before they reach the text.
  A handler returns \<open>None\<close> where the C++ code would dereference an empty \<^verbatim>\<open>std::optional\<close> or take
  the front of an empty vector; the invariant \<open>ctl_inv\<close> shows that this never happens. The signals
  a handler emits and the messages it sends are listed in order as \<open>ctl_effect\<close>; a \<open>Send\<close> hands
  the serialisation of its message to the network. The local document is owned by the editor window and
  changed by the controller only, so the model keeps it inside the controller.
\<close>

section \<open>The local document\<close>

record local_document =
  ld_content :: string
  ld_revision :: u32

definition LocalDocument :: "string \<Rightarrow> u32 \<Rightarrow> local_document" where
  "LocalDocument initial_content initial_revision =
     \<lparr>ld_content = initial_content, ld_revision = initial_revision\<rparr>"

definition ld_reset :: "local_document \<Rightarrow> string \<Rightarrow> u32 \<Rightarrow> local_document" where
  "ld_reset d new_text rv = d\<lparr>ld_content := new_text, ld_revision := rv\<rparr>"

definition ld_apply :: "local_document \<Rightarrow> operation \<Rightarrow> local_document" where
  "ld_apply d op = d\<lparr>ld_content := apply_op (ld_content d) op\<rparr>"

definition ld_snapshot :: "local_document \<Rightarrow> string" where
  "ld_snapshot d = ld_content d"

definition ld_set_revision :: "local_document \<Rightarrow> u32 \<Rightarrow> local_document" where
  "ld_set_revision d rv = d\<lparr>ld_revision := rv\<rparr>"

section \<open>The controller\<close>

datatype ot_state = Synchronized | AwaitingAck | AwaitingAckWithBuffer

record ot_controller =
  ctl_doc :: local_document
  ctl_doc_id :: u32
  ctl_revision :: u32
  ctl_state :: ot_state
  pending_op :: "operation option"
  buffer :: "operation list"

datatype ctl_effect =
  Send message
  | RevisionChanged u32
  | RemoteOperationApplied operation
  | StateChanged string
  | FatalError string

definition OTController :: "local_document \<Rightarrow> u32 \<Rightarrow> u32 \<Rightarrow> ot_controller" where
  "OTController d docId initial_revision =
     \<lparr>ctl_doc = d, ctl_doc_id = docId, ctl_revision = initial_revision,
      ctl_state = Synchronized, pending_op = None, buffer = []\<rparr>"

definition to_entry :: "operation \<Rightarrow> op_entry" where
  "to_entry op =
     (if op_type op = Insert
      then \<lparr>oe_op = ''insert'', oe_pos = position op, oe_text = op_text op, oe_len = 0\<rparr>
      else \<lparr>oe_op = ''delete'', oe_pos = position op, oe_text = [], oe_len = op_length op\<rparr>)"

definition from_entry :: "op_entry \<Rightarrow> u32 \<Rightarrow> u32 \<Rightarrow> operation" where
  "from_entry e uid rv =
     (if oe_op e = ''insert'' then make_insert (oe_pos e) (oe_text e) uid rv
      else make_delete (oe_pos e) (oe_len e) [] uid rv)"

definition sendOp :: "ot_controller \<Rightarrow> operation \<Rightarrow> ctl_effect" where
  "sendOp c op = Send (OperationMsg
     \<lparr>opm_docId = ctl_doc_id c, opm_revision = ctl_revision c, opm_ops = [to_entry op]\<rparr>)"

definition emitStateLabel :: "ot_controller \<Rightarrow> ctl_effect" where
  "emitStateLabel c = StateChanged
     (case ctl_state c of
        Synchronized \<Rightarrow> ''SYN'' | AwaitingAck \<Rightarrow> ''ACK'' | AwaitingAckWithBuffer \<Rightarrow> ''BUF'')"

text \<open>The body of the loop over the local operations, and the loop.\<close>

definition local_operation ::
  "u32 \<Rightarrow> ot_controller \<Rightarrow> operation \<Rightarrow> ot_controller \<times> ctl_effect list \<times> bool" where
  "local_operation uid c op =
     (if is_noop op then (c, [], False)
      else
        (let op = op\<lparr>userId := uid, op_revision := ctl_revision c\<rparr>;
             c = c\<lparr>ctl_doc := ld_apply (ctl_doc c) op\<rparr>
         in if ctl_state c = Synchronized then
              (c\<lparr>pending_op := Some op, ctl_state := AwaitingAck\<rparr>, [sendOp c op], True)
            else if ctl_state c = AwaitingAck then
              (c\<lparr>buffer := buffer c @ [op], ctl_state := AwaitingAckWithBuffer\<rparr>, [], True)
            else (c\<lparr>buffer := buffer c @ [op]\<rparr>, [], False)))"

fun local_operations ::
  "u32 \<Rightarrow> ot_controller \<Rightarrow> operation list \<Rightarrow> ot_controller \<times> ctl_effect list \<times> bool" where
  "local_operations uid c [] = (c, [], False)"
| "local_operations uid c (op # ops) =
     (let (c1, out1, changed1) = local_operation uid c op;
          (c2, out2, changed2) = local_operations uid c1 ops
      in (c2, out1 @ out2, changed1 \<or> changed2))"

definition onLocalOperations ::
  "u32 \<Rightarrow> ot_controller \<Rightarrow> operation list \<Rightarrow> ot_controller \<times> ctl_effect list" where
  "onLocalOperations uid c ops =
     (let (c', out, state_changed) = local_operations uid c ops
      in (c', out @ (if state_changed then [emitStateLabel c'] else [])))"

definition handleAck ::
  "ot_controller \<Rightarrow> operation_ack_msg \<Rightarrow> (ot_controller \<times> ctl_effect list) option" where
  "handleAck c msg =
     (let c = c\<lparr>ctl_revision := ack_revision msg,
                ctl_doc := ld_set_revision (ctl_doc c) (ack_revision msg)\<rparr>;
          out = [RevisionChanged (ack_revision msg)]
      in case ctl_state c of
           AwaitingAck \<Rightarrow>
             (let c = c\<lparr>pending_op := None, ctl_state := Synchronized\<rparr>
              in Some (c, out @ [emitStateLabel c]))
         | AwaitingAckWithBuffer \<Rightarrow>
             (case buffer c of
                [] \<Rightarrow> None
              | b # bs \<Rightarrow>
                  (let c' = c\<lparr>pending_op := Some b, buffer := bs,
                             ctl_state := (if bs = [] then AwaitingAck else AwaitingAckWithBuffer)\<rparr>
                   in Some (c', out @ [sendOp c b, emitStateLabel c'])))
         | Synchronized \<Rightarrow> Some (c, out @ [emitStateLabel c]))"

text \<open>The loop over \<^verbatim>\<open>buffer_\<close>: transforms every entry and carries \<^verbatim>\<open>evolved\<close> along.\<close>

fun transform_buffer :: "operation \<Rightarrow> operation list \<Rightarrow> operation list \<times> operation" where
  "transform_buffer evolved [] = ([], evolved)"
| "transform_buffer evolved (b # bs) =
     (let (b', next_evolved) = transform b evolved;
          (bs', result) = transform_buffer next_evolved bs
      in (b' # bs', result))"

definition broadcast_entry ::
  "ot_controller \<Rightarrow> operation \<Rightarrow> (ot_controller \<times> ctl_effect list) option" where
  "broadcast_entry c server_op =
     (if ctl_state c = Synchronized then
        Some (c\<lparr>ctl_doc := ld_apply (ctl_doc c) server_op\<rparr>, [RemoteOperationApplied server_op])
      else
        (case pending_op c of
           None \<Rightarrow> None
         | Some p \<Rightarrow>
             (let (pending_prime, evolved) = transform p server_op;
                  (bs, evolved) = transform_buffer evolved (buffer c)
              in Some (c\<lparr>pending_op := Some pending_prime, buffer := bs,
                         ctl_doc := ld_apply (ctl_doc c) evolved\<rparr>,
                       [RemoteOperationApplied evolved]))))"

fun broadcast_entries ::
  "operation_broadcast_msg \<Rightarrow> ot_controller \<Rightarrow> op_entry list \<Rightarrow> (ot_controller \<times> ctl_effect list) option" where
  "broadcast_entries msg c [] = Some (c, [])"
| "broadcast_entries msg c (e # es) = do {
     (c1, out1) \<leftarrow> broadcast_entry c (from_entry e (ob_userId msg) (ob_revision msg));
     (c2, out2) \<leftarrow> broadcast_entries msg c1 es;
     Some (c2, out1 @ out2)}"

definition handleBroadcast ::
  "u32 \<Rightarrow> ot_controller \<Rightarrow> operation_broadcast_msg \<Rightarrow> (ot_controller \<times> ctl_effect list) option" where
  "handleBroadcast uid c msg =
     (if ob_userId msg = uid then Some (c, [])
      else do {
        (c, out) \<leftarrow> broadcast_entries msg c (ob_ops msg);
        Some (c\<lparr>ctl_revision := ob_revision msg,
                ctl_doc := ld_set_revision (ctl_doc c) (ob_revision msg)\<rparr>,
              out @ [RevisionChanged (ob_revision msg)])})"

text \<open>The message text contains an em dash, in UTF-8.\<close>

definition out_of_sync :: string where
  "out_of_sync = ''Document out of sync '' @ [char_of (0xE2 :: nat), char_of (0x80 :: nat),
     char_of (0x94 :: nat)] @ '' reopen it.''"

definition handleError :: "ot_controller \<Rightarrow> error_msg \<Rightarrow> ot_controller \<times> ctl_effect list" where
  "handleError c msg = (c, if em_code msg = ''revision_too_old'' then [FatalError out_of_sync] else [])"

definition onNetworkMessage ::
  "'j json_api \<Rightarrow> u32 \<Rightarrow> ot_controller \<Rightarrow> string \<Rightarrow> (ot_controller \<times> ctl_effect list) option" where
  "onNetworkMessage J uid c payload =
     (let t = fst (parse_envelope J payload)
      in if t = OperationAck then
           (case parse_as J (from_json_OperationAck J) payload of
              Some msg \<Rightarrow> if ack_docId msg = ctl_doc_id c then handleAck c msg else Some (c, [])
            | None \<Rightarrow> Some (c, []))
         else if t = OperationBroadcast then
           (case parse_as J (from_json_OperationBroadcast J) payload of
              Some msg \<Rightarrow> if ob_docId msg = ctl_doc_id c then handleBroadcast uid c msg else Some (c, [])
            | None \<Rightarrow> Some (c, []))
         else if t = Error then
           (case parse_as J (from_json_Error J) payload of
              Some msg \<Rightarrow> Some (handleError c msg)
            | None \<Rightarrow> Some (c, []))
         else Some (c, []))"

section \<open>The invariant\<close>

definition ctl_inv :: "ot_controller \<Rightarrow> bool" where
  "ctl_inv c =
     (case ctl_state c of
        Synchronized \<Rightarrow> pending_op c = None \<and> buffer c = []
      | AwaitingAck \<Rightarrow> pending_op c \<noteq> None \<and> buffer c = []
      | AwaitingAckWithBuffer \<Rightarrow> pending_op c \<noteq> None \<and> buffer c \<noteq> [])"

text \<open>The operations the server has not acknowledged, oldest first.\<close>

definition outstanding :: "ot_controller \<Rightarrow> operation list" where
  "outstanding c = (case pending_op c of None \<Rightarrow> [] | Some p \<Rightarrow> [p]) @ buffer c"

lemma transform_buffer_eq: "transform_buffer s bs = (carry s bs, rebase s bs)"
  by (induction bs arbitrary: s) (simp_all add: snd_transform split: prod.splits, metis fst_conv snd_conv snd_transform)

lemma ctl_inv_frame [simp]: "ctl_inv (c\<lparr>ctl_revision := r, ctl_doc := d\<rparr>) = ctl_inv c"
  by (simp add: ctl_inv_def split: ot_state.splits)

lemma ctl_inv_init: "ctl_inv (OTController d i r)"
  by (simp add: ctl_inv_def OTController_def)

lemma outstanding_init [simp]: "outstanding (OTController d i r) = []"
  by (simp add: outstanding_def OTController_def)

lemma ctl_inv_outstanding: "ctl_inv c \<Longrightarrow> outstanding c = [] \<longleftrightarrow> ctl_state c = Synchronized"
  by (cases "ctl_state c") (auto simp: ctl_inv_def outstanding_def split: option.splits)

lemma local_operation_cases:
  assumes "ctl_inv c" "local_operation uid c op = (c', out, changed)"
  shows "ctl_inv c'
    \<and> (is_noop op \<longrightarrow> c' = c \<and> out = [])
    \<and> (\<not> is_noop op \<longrightarrow>
        outstanding c' = outstanding c @ [op\<lparr>userId := uid, op_revision := ctl_revision c\<rparr>]
        \<and> ctl_doc c' = ld_apply (ctl_doc c) (op\<lparr>userId := uid, op_revision := ctl_revision c\<rparr>)
        \<and> out = (if ctl_state c = Synchronized
                 then [sendOp c (op\<lparr>userId := uid, op_revision := ctl_revision c\<rparr>)] else []))
    \<and> ctl_revision c' = ctl_revision c \<and> ctl_doc_id c' = ctl_doc_id c"
  using assms
  by (cases "ctl_state c")
    (auto simp: local_operation_def Let_def ctl_inv_def outstanding_def sendOp_def split: if_splits)

lemma broadcast_entry_eq:
  assumes "ctl_inv c"
  obtains c' where
    "broadcast_entry c s = Some (c', [RemoteOperationApplied (rebase s (outstanding c))])"
    "ctl_inv c'" "outstanding c' = carry s (outstanding c)"
    "ctl_doc c' = ld_apply (ctl_doc c) (rebase s (outstanding c))"
    "ctl_revision c' = ctl_revision c" "ctl_doc_id c' = ctl_doc_id c" "ctl_state c' = ctl_state c"
proof (cases "pending_op c")
  case None
  with assms have "ctl_state c = Synchronized" "buffer c = []"
    by (auto simp: ctl_inv_def split: ot_state.splits)
  with None assms show ?thesis
    by (intro that [of "c\<lparr>ctl_doc := ld_apply (ctl_doc c) s\<rparr>"])
      (auto simp: broadcast_entry_def outstanding_def ctl_inv_def)
next
  case (Some p)
  with assms have nsync: "ctl_state c \<noteq> Synchronized" by (auto simp: ctl_inv_def)
  let ?evolved = "snd (transform p s)"
  let ?c = "c\<lparr>pending_op := Some (fst (transform p s)), buffer := carry ?evolved (buffer c),
     ctl_doc := ld_apply (ctl_doc c) (rebase ?evolved (buffer c))\<rparr>"
  have "length (carry ?evolved (buffer c)) = length (buffer c)" by simp
  then have "carry ?evolved (buffer c) = [] \<longleftrightarrow> buffer c = []" by (metis length_0_conv)
  then have "ctl_inv ?c" using assms Some by (auto simp: ctl_inv_def split: ot_state.splits)
  with Some nsync show ?thesis
    by (intro that [of ?c])
      (auto simp: broadcast_entry_def outstanding_def transform_buffer_eq Let_def snd_transform split_beta)
qed

lemma broadcast_entries_inv:
  "ctl_inv c \<Longrightarrow> \<exists>c' out. broadcast_entries msg c es = Some (c', out) \<and> ctl_inv c' \<and> ctl_doc_id c' = ctl_doc_id c"
proof (induction es arbitrary: c)
  case (Cons e es)
  obtain c1 where c1: "broadcast_entry c (from_entry e (ob_userId msg) (ob_revision msg))
      = Some (c1, [RemoteOperationApplied (rebase (from_entry e (ob_userId msg) (ob_revision msg)) (outstanding c))])"
    "ctl_inv c1" "ctl_doc_id c1 = ctl_doc_id c"
    by (rule broadcast_entry_eq [OF Cons.prems])
  then show ?case using Cons.IH [OF c1(2)] by auto
qed simp

lemma handleAck_inv:
  "ctl_inv c \<Longrightarrow> \<exists>c' out. handleAck c msg = Some (c', out) \<and> ctl_inv c' \<and> ctl_doc_id c' = ctl_doc_id c"
  by (cases "ctl_state c"; cases "buffer c") (auto simp: handleAck_def ctl_inv_def Let_def)

lemma handleBroadcast_inv:
  assumes "ctl_inv c"
  shows "\<exists>c' out. handleBroadcast uid c msg = Some (c', out) \<and> ctl_inv c' \<and> ctl_doc_id c' = ctl_doc_id c"
proof -
  obtain c' out where "broadcast_entries msg c (ob_ops msg) = Some (c', out)" "ctl_inv c'"
    "ctl_doc_id c' = ctl_doc_id c"
    using broadcast_entries_inv [OF assms] by blast
  then show ?thesis using assms by (auto simp: handleBroadcast_def)
qed

lemma local_operations_inv:
  "ctl_inv c \<Longrightarrow> ctl_inv (fst (local_operations uid c ops))"
proof (induction ops arbitrary: c)
  case (Cons op ops)
  obtain c1 out1 ch1 where c1: "local_operation uid c op = (c1, out1, ch1)" by (metis prod_cases3)
  then have "ctl_inv c1" using local_operation_cases [OF Cons.prems c1] by simp
  from Cons.IH [OF this] c1 show ?case by (simp add: split_beta)
qed simp

section \<open>Staying in sync with the server\<close>

text \<open>
  \<open>S\<close> is the server's text as far as the client has heard of it. The client is in sync when its
  own text is \<open>S\<close> with the outstanding operations applied.
\<close>

definition in_sync :: "string \<Rightarrow> ot_controller \<Rightarrow> bool" where
  "in_sync S c = (ctl_inv c \<and> ld_content (ctl_doc c) = fold effect (outstanding c) S)"

text \<open>
  Operations of the server arrive one after the other; each has to be transformable past all
  outstanding operations. Texts stay below 4 GiB.
\<close>

fun ladders_ok :: "string \<Rightarrow> operation list \<Rightarrow> operation list \<Rightarrow> bool" where
  "ladders_ok S [] ps = True"
| "ladders_ok S (s # ss) ps =
     (ladder_ok S s ps \<and> length (fold effect ps S) < 2 ^ 32 \<and> ladders_ok (effect s S) ss (carry s ps))"

lemma broadcast_entry_sync:
  assumes "in_sync S c" "ladder_ok S s (outstanding c)" "length (fold effect (outstanding c) S) < 2 ^ 32"
  obtains c' where
    "broadcast_entry c s = Some (c', [RemoteOperationApplied (rebase s (outstanding c))])"
    "in_sync (effect s S) c'" "outstanding c' = carry s (outstanding c)"
    "ctl_revision c' = ctl_revision c" "ctl_doc_id c' = ctl_doc_id c" "ctl_state c' = ctl_state c"
proof -
  from assms(1) have "ctl_inv c" by (simp add: in_sync_def)
  then obtain c' where c': "broadcast_entry c s = Some (c', [RemoteOperationApplied (rebase s (outstanding c))])"
    "ctl_inv c'" "outstanding c' = carry s (outstanding c)"
    "ctl_doc c' = ld_apply (ctl_doc c) (rebase s (outstanding c))"
    "ctl_revision c' = ctl_revision c" "ctl_doc_id c' = ctl_doc_id c" "ctl_state c' = ctl_state c"
    by (rule broadcast_entry_eq)
  have "ld_content (ctl_doc c') = effect (rebase s (outstanding c)) (fold effect (outstanding c) S)"
    using assms(1,3) by (simp add: c'(4) ld_apply_def in_sync_def apply_op_effect)
  also have "\<dots> = fold effect (outstanding c') (effect s S)"
    by (simp add: ladder_converges [OF assms(2)] c'(3))
  finally have "in_sync (effect s S) c'" using c'(2) by (simp add: in_sync_def)
  with c' show ?thesis by (intro that)
qed

lemma broadcast_entries_sync:
  "in_sync S c \<Longrightarrow>
   ladders_ok S (map (\<lambda>e. from_entry e (ob_userId msg) (ob_revision msg)) es) (outstanding c) \<Longrightarrow>
   \<exists>c' out. broadcast_entries msg c es = Some (c', out)
     \<and> in_sync (fold effect (map (\<lambda>e. from_entry e (ob_userId msg) (ob_revision msg)) es) S) c'
     \<and> outstanding c' = fold carry (map (\<lambda>e. from_entry e (ob_userId msg) (ob_revision msg)) es) (outstanding c)
     \<and> ctl_state c' = ctl_state c \<and> ctl_doc_id c' = ctl_doc_id c"
proof (induction es arbitrary: c S)
  case (Cons e es)
  let ?s = "from_entry e (ob_userId msg) (ob_revision msg)"
  obtain c1 where c1: "broadcast_entry c ?s = Some (c1, [RemoteOperationApplied (rebase ?s (outstanding c))])"
    "in_sync (effect ?s S) c1" "outstanding c1 = carry ?s (outstanding c)"
    "ctl_doc_id c1 = ctl_doc_id c" "ctl_state c1 = ctl_state c"
    using Cons.prems by (auto elim: broadcast_entry_sync)
  have "ladders_ok (effect ?s S) (map (\<lambda>e. from_entry e (ob_userId msg) (ob_revision msg)) es) (outstanding c1)"
    using Cons.prems c1(3) by simp
  from Cons.IH [OF c1(2) this] c1 show ?case by auto
qed simp

lemma handleBroadcast_sync:
  assumes "in_sync S c" "ob_userId msg \<noteq> uid"
    and "ladders_ok S (map (\<lambda>e. from_entry e (ob_userId msg) (ob_revision msg)) (ob_ops msg)) (outstanding c)"
  obtains c' out where "handleBroadcast uid c msg = Some (c', out)"
    "in_sync (fold effect (map (\<lambda>e. from_entry e (ob_userId msg) (ob_revision msg)) (ob_ops msg)) S) c'"
    "outstanding c' = fold carry (map (\<lambda>e. from_entry e (ob_userId msg) (ob_revision msg)) (ob_ops msg)) (outstanding c)"
    "ctl_revision c' = ob_revision msg" "ctl_state c' = ctl_state c" "ctl_doc_id c' = ctl_doc_id c"
proof -
  from broadcast_entries_sync [OF assms(1,3)] obtain c1 out where
    c1: "broadcast_entries msg c (ob_ops msg) = Some (c1, out)"
    "in_sync (fold effect (map (\<lambda>e. from_entry e (ob_userId msg) (ob_revision msg)) (ob_ops msg)) S) c1"
    "outstanding c1 = fold carry (map (\<lambda>e. from_entry e (ob_userId msg) (ob_revision msg)) (ob_ops msg)) (outstanding c)"
    "ctl_state c1 = ctl_state c" "ctl_doc_id c1 = ctl_doc_id c" by blast
  let ?c = "c1\<lparr>ctl_revision := ob_revision msg, ctl_doc := ld_set_revision (ctl_doc c1) (ob_revision msg)\<rparr>"
  have "outstanding ?c = outstanding c1" by (simp add: outstanding_def)
  with c1 assms(2) show ?thesis
    by (intro that [of ?c "out @ [RevisionChanged (ob_revision msg)]"])
      (simp_all add: handleBroadcast_def in_sync_def ld_set_revision_def)
qed

lemma handleAck_sync:
  assumes "in_sync S c" "outstanding c = p # ps"
  obtains c' out where "handleAck c msg = Some (c', out)" "in_sync (effect p S) c'" "outstanding c' = ps"
    "ctl_revision c' = ack_revision msg" "ctl_doc_id c' = ctl_doc_id c"
    "out = RevisionChanged (ack_revision msg)
       # (case ps of [] \<Rightarrow> [] | q # qs \<Rightarrow> [sendOp (c\<lparr>ctl_revision := ack_revision msg\<rparr>) q]) @ [emitStateLabel c']"
proof (cases "ctl_state c")
  case Synchronized
  with assms show ?thesis by (auto simp: in_sync_def ctl_inv_outstanding [symmetric])
next
  case AwaitingAck
  with assms have "pending_op c = Some p" "buffer c = []" "ps = []"
    by (auto simp: in_sync_def ctl_inv_def outstanding_def)
  with AwaitingAck assms show ?thesis
    by (intro that [of "c\<lparr>ctl_revision := ack_revision msg,
          ctl_doc := ld_set_revision (ctl_doc c) (ack_revision msg),
          pending_op := None, ctl_state := Synchronized\<rparr>"])
      (auto simp: handleAck_def Let_def in_sync_def ctl_inv_def outstanding_def ld_set_revision_def)
next
  case AwaitingAckWithBuffer
  with assms obtain b bs where b: "pending_op c = Some p" "buffer c = b # bs" "ps = b # bs"
    by (cases "buffer c") (auto simp: in_sync_def ctl_inv_def outstanding_def)
  with AwaitingAckWithBuffer assms show ?thesis
    by (intro that [of "c\<lparr>ctl_revision := ack_revision msg,
          ctl_doc := ld_set_revision (ctl_doc c) (ack_revision msg),
          pending_op := Some b, buffer := bs,
          ctl_state := (if bs = [] then AwaitingAck else AwaitingAckWithBuffer)\<rparr>"])
      (auto simp: handleAck_def Let_def in_sync_def ctl_inv_def outstanding_def ld_set_revision_def sendOp_def)
qed

text \<open>The local operations that count, with the user and the revision filled in.\<close>

definition stamped :: "u32 \<Rightarrow> ot_controller \<Rightarrow> operation list \<Rightarrow> operation list" where
  "stamped uid c ops =
     map (\<lambda>op. op\<lparr>userId := uid, op_revision := ctl_revision c\<rparr>) (filter (\<lambda>op. \<not> is_noop op) ops)"

lemma effect_stamp [simp]: "effect (op\<lparr>userId := u, op_revision := r\<rparr>) d = effect op d"
  by (simp add: effect_def)

lemma length_effect_le: "length (effect op d) \<le> length d + added op"
  by (simp add: effect_def added_def length_cut)

lemma local_operations_sync:
  assumes "in_sync S c" "length (ld_content (ctl_doc c)) + sum_list (map added ops) < 2 ^ 32"
    and "local_operations uid c ops = (c', out, changed)"
  shows "in_sync S c' \<and> outstanding c' = outstanding c @ stamped uid c ops
    \<and> ctl_revision c' = ctl_revision c \<and> ctl_doc_id c' = ctl_doc_id c
    \<and> out = (if outstanding c = [] \<and> stamped uid c ops \<noteq> [] then [sendOp c (hd (stamped uid c ops))] else [])"
  using assms
proof (induction ops arbitrary: c out changed)
  case Nil
  then show ?case by (auto simp: stamped_def)
next
  case (Cons op ops)
  obtain c1 out1 ch1 where one: "local_operation uid c op = (c1, out1, ch1)" by (metis prod_cases3)
  obtain out2 ch2 where rest: "local_operations uid c1 ops = (c', out2, ch2)" and out: "out = out1 @ out2"
    using Cons.prems(3) one by (auto split: prod.splits)
  have inv: "ctl_inv c" using Cons.prems(1) by (simp add: in_sync_def)
  note step = local_operation_cases [OF inv one]
  show ?case
  proof (cases "is_noop op")
    case True
    with step have "c1 = c" "out1 = []" by simp_all
    with True Cons.IH [OF Cons.prems(1) _ rest [unfolded \<open>c1 = c\<close>]] Cons.prems(2) out show ?thesis
      by (simp add: stamped_def)
  next
    case False
    let ?op = "op\<lparr>userId := uid, op_revision := ctl_revision c\<rparr>"
    from False step have c1: "ctl_inv c1" "outstanding c1 = outstanding c @ [?op]"
      "ctl_doc c1 = ld_apply (ctl_doc c) ?op" "ctl_revision c1 = ctl_revision c" "ctl_doc_id c1 = ctl_doc_id c"
      "out1 = (if outstanding c = [] then [sendOp c ?op] else [])"
      by (simp_all add: ctl_inv_outstanding [OF inv])
    have content: "ld_content (ctl_doc c1) = effect op (ld_content (ctl_doc c))"
      using Cons.prems(2) by (simp add: c1(3) ld_apply_def apply_op_effect)
    have "in_sync S c1" using Cons.prems(1) c1(1,2) content by (simp add: in_sync_def)
    moreover have "length (ld_content (ctl_doc c1)) + sum_list (map added ops) < 2 ^ 32"
      using Cons.prems(2) length_effect_le [of op "ld_content (ctl_doc c)"] by (simp add: content)
    moreover have "stamped uid c (op # ops) = ?op # stamped uid c1 ops"
      using False c1(4) by (simp add: stamped_def)
    ultimately show ?thesis
      using Cons.IH [OF _ _ rest] c1 out by auto
  qed
qed

section \<open>Properties\<close>

text \<open>
  No message can crash the client. From a state the controller can be in, any payload the
  network delivers (malformed, for another document, acknowledging nothing) is handled without
  reading an empty optional or an empty buffer, and the controller is again in such a state.
\<close>

lemma controller_never_crashes:
  assumes "ctl_inv c"
  shows "\<exists>c' out. onNetworkMessage J uid c payload = Some (c', out) \<and> ctl_inv c' \<and> ctl_doc_id c' = ctl_doc_id c"
  using assms handleAck_inv [OF assms] handleBroadcast_inv [OF assms]
  by (auto simp: onNetworkMessage_def handleError_def Let_def split: option.splits)

lemma controller_never_crashes_witness:
  "\<exists>c' out. onNetworkMessage json_text 1 (OTController (LocalDocument ''ab'' 0) 7 0) ''{}'' = Some (c', out)
     \<and> ctl_inv c'"
  using controller_never_crashes [OF ctl_inv_init, of json_text 1 "LocalDocument ''ab'' 0" 7 0 "''{}''"] by blast

text \<open>
  C20: typing keeps the client in sync. Local operations are applied to the local text, queued
  behind the outstanding ones with the user and the revision filled in, and exactly one of them
  is sent when nothing was outstanding, none otherwise.
\<close>

theorem local_operations_keep_sync:
  assumes "in_sync S c" "length (ld_content (ctl_doc c)) + sum_list (map added ops) < 2 ^ 32"
  shows "in_sync S (fst (onLocalOperations uid c ops))
    \<and> outstanding (fst (onLocalOperations uid c ops)) = outstanding c @ stamped uid c ops
    \<and> [e \<leftarrow> snd (onLocalOperations uid c ops). \<exists>m. e = Send m] =
        (if outstanding c = [] \<and> stamped uid c ops \<noteq> [] then [sendOp c (hd (stamped uid c ops))] else [])"
proof -
  obtain c' out changed where L: "local_operations uid c ops = (c', out, changed)" by (metis prod_cases3)
  from local_operations_sync [OF assms L] show ?thesis
    by (auto simp: onLocalOperations_def L emitStateLabel_def sendOp_def)
qed

theorem local_operations_keep_sync_witness:
  "let c = fst (onLocalOperations 3 (OTController (LocalDocument ''ab'' 4) 7 4)
             [make_insert 1 ''X'' 0 0, make_delete 0 0 [] 0 0, make_delete 0 1 [] 0 0])
   in outstanding c = [make_insert 1 ''X'' 3 4, make_delete 0 1 [] 3 4] \<and> in_sync ''ab'' c"
proof -
  let ?c = "OTController (LocalDocument ''ab'' 4) 7 4"
    and ?ops = "[make_insert 1 ''X'' 0 0, make_delete 0 0 [] 0 0, make_delete 0 1 [] 0 0]"
  have sync: "in_sync ''ab'' ?c"
    by (simp add: in_sync_def ctl_inv_init) (simp add: OTController_def LocalDocument_def)
  moreover have "length (ld_content (ctl_doc ?c)) + sum_list (map added ?ops) < 2 ^ 32"
    by (simp add: OTController_def LocalDocument_def added_def)
  moreover have "stamped 3 ?c ?ops = [make_insert 1 ''X'' 3 4, make_delete 0 1 [] 3 4]"
    by (simp add: stamped_def is_noop_def make_insert_def make_delete_def OTController_def)
  ultimately show ?thesis
    using local_operations_keep_sync [of "''ab''" ?c ?ops 3] by (simp add: Let_def)
qed

end
