(* ===== verification/Wire_Frame.thy ===== *)
theory Wire_Frame
  imports Collab_Prelude
begin

unbundle bit_operations_syntax

text \<open>
  Framing: \<^verbatim>\<open>encode_frame\<close> and \<^verbatim>\<open>decode_frame_header\<close> of \<^verbatim>\<open>protocol/src/protocol.cpp\<close>, and the
  contract of a receiver that cuts a byte stream into payloads. The client
  (\<^verbatim>\<open>NetworkManager::onReadyRead\<close>) and the server (\<^verbatim>\<open>ClientSession::do_read_header\<close> and
  \<^verbatim>\<open>do_read_body\<close>) each have a receiver of their own; both are shown to meet the contract, and
  what the contract implies about streams of frames is proved here once.
\<close>

section \<open>Bytes and characters\<close>

definition to_byte :: "char \<Rightarrow> u8" where
  "to_byte c = word_of_nat (of_char c)"

definition to_char :: "u8 \<Rightarrow> char" where
  "to_char b = char_of (unat b)"

lemma to_char_to_byte [simp]: "to_char (to_byte c) = c"
proof -
  have "(of_char c :: nat) < 256" by (rule nat_of_char_less_256)
  then show ?thesis by (simp add: to_char_def to_byte_def unat_of_nat)
qed

lemma map_to_char_to_byte [simp]: "map to_char (map to_byte s) = s"
  by (simp add: comp_def)

section \<open>The frame format\<close>

definition MAX_PAYLOAD_SIZE :: u32 where
  "MAX_PAYLOAD_SIZE = 16 * 1024 * 1024"

definition encode_frame :: "string \<Rightarrow> u8 list" where
  "encode_frame payload =
     (let len = size32 payload
      in [ucast (drop_bit 24 len AND 0xFF), ucast (drop_bit 16 len AND 0xFF),
          ucast (drop_bit 8 len AND 0xFF), ucast (len AND 0xFF)] @ map to_byte payload)"

text \<open>The argument points to at least four bytes.\<close>

definition decode_frame_header :: "u8 list \<Rightarrow> u32 option" where
  "decode_frame_header d =
     (let len = push_bit 24 (ucast (d ! 0)) OR push_bit 16 (ucast (d ! 1))
                OR push_bit 8 (ucast (d ! 2)) OR ucast (d ! 3)
      in if MAX_PAYLOAD_SIZE < len then None else Some len)"

lemma header_bytes:
  fixes len :: u32
  shows "push_bit 24 (ucast (ucast (drop_bit 24 len AND 0xFF) :: u8))
     OR push_bit 16 (ucast (ucast (drop_bit 16 len AND 0xFF) :: u8))
     OR push_bit 8 (ucast (ucast (drop_bit 8 len AND 0xFF) :: u8))
     OR ucast (ucast (len AND 0xFF) :: u8) = len" (is "?joined = len")
proof (rule bit_word_eqI)
  fix n assume n: "n < LENGTH(32)"
  have ff: "(0xFF :: u32) = mask 8" by (simp add: mask_eq_exp_minus_1)
  have bits: "bit ?joined n \<longleftrightarrow>
      (24 \<le> n \<and> n - 24 < 8 \<and> bit len (24 + (n - 24))) \<or> (16 \<le> n \<and> n - 16 < 8 \<and> bit len (16 + (n - 16)))
      \<or> (8 \<le> n \<and> n - 8 < 8 \<and> bit len (8 + (n - 8))) \<or> (n < 8 \<and> bit len n)"
    using n by (auto simp: ff bit_simps)
  consider "n < 8" | "8 \<le> n" "n < 16" | "16 \<le> n" "n < 24" | "24 \<le> n" by linarith
  then show "bit ?joined n = bit len n"
    using n unfolding bits by cases auto
qed

lemma length_encode_frame [simp]: "length (encode_frame p) = 4 + length p"
  by (simp add: encode_frame_def Let_def)

lemma drop_encode_frame [simp]: "drop 4 (encode_frame p) = map to_byte p"
  by (simp add: encode_frame_def Let_def)

lemma decode_encoded_header:
  "decode_frame_header (encode_frame p @ rest) =
     (if MAX_PAYLOAD_SIZE < size32 p then None else Some (size32 p))"
  by (simp add: decode_frame_header_def encode_frame_def Let_def header_bytes)

lemma unat_MAX_PAYLOAD_SIZE: "unat MAX_PAYLOAD_SIZE = 16777216"
  by (simp add: MAX_PAYLOAD_SIZE_def)

lemma decode_header_fits:
  "length p \<le> 16777216 \<Longrightarrow> decode_frame_header (encode_frame p @ rest) = Some (size32 p)"
  by (simp add: decode_encoded_header word_less_nat_alt unat_size32 unat_MAX_PAYLOAD_SIZE)

lemma decode_header_bound: "decode_frame_header d = Some n \<Longrightarrow> unat n \<le> 16777216"
  by (auto simp: decode_frame_header_def Let_def word_less_nat_alt unat_MAX_PAYLOAD_SIZE
      split: if_splits)

text \<open>The header depends on the first four bytes only.\<close>

lemma decode_header_append: "4 \<le> length d \<Longrightarrow> decode_frame_header (d @ e) = decode_frame_header d"
  by (auto simp: decode_frame_header_def nth_append)

lemma decode_header_take: "4 \<le> length d \<Longrightarrow> decode_frame_header (take 4 d) = decode_frame_header d"
  by (simp add: decode_frame_header_def)

section \<open>The contract of a receiver\<close>

text \<open>
  \<open>recv\<close> consumes a chunk and returns the payloads completed by it. Cutting the stream into
  chunks must not matter, and an idle receiver turns one frame into its payload.
\<close>

primrec feed_chunks :: "('s \<Rightarrow> u8 list \<Rightarrow> 's \<times> string list) \<Rightarrow> 's \<Rightarrow> u8 list list \<Rightarrow> 's \<times> string list" where
  "feed_chunks recv s [] = (s, [])"
| "feed_chunks recv s (c # cs) =
     (let (t, ms) = recv s c; (u, ns) = feed_chunks recv t cs in (u, ms @ ns))"

locale frame_receiver =
  fixes recv :: "'s \<Rightarrow> u8 list \<Rightarrow> 's \<times> string list"
    and idle :: "'s \<Rightarrow> bool"
  assumes recv_Nil: "idle s \<Longrightarrow> recv s [] = (s, [])"
    and recv_append: "recv s (xs @ ys) =
          (let (t, ms) = recv s xs; (u, ns) = recv t ys in (u, ms @ ns))"
    and recv_frame: "idle s \<Longrightarrow> length p \<le> 16777216 \<Longrightarrow> recv s (encode_frame p) = (s, [p])"
begin

lemma recv_frames:
  "idle s \<Longrightarrow> \<forall>p \<in> set ps. length p \<le> 16777216 \<Longrightarrow> recv s (concat (map encode_frame ps)) = (s, ps)"
  by (induction ps) (simp_all add: recv_Nil recv_append recv_frame)

lemma feed_chunks_concat: "cs \<noteq> [] \<Longrightarrow> feed_chunks recv s cs = recv s (concat cs)"
proof (induction cs arbitrary: s)
  case (Cons c cs)
  then show ?case by (cases "cs = []") (simp_all add: recv_append split: prod.splits)
qed simp

text \<open>However the network cuts a sequence of frames, the payloads come out in order.\<close>

lemma recv_any_chunks:
  assumes "idle s" "concat cs = concat (map encode_frame ps)" "\<forall>p \<in> set ps. length p \<le> 16777216"
  shows "feed_chunks recv s cs = (s, ps)"
proof (cases "cs = []")
  case True
  with assms(2) have "ps = []" by (cases ps) (simp_all add: encode_frame_def Let_def)
  with True show ?thesis by simp
next
  case False
  then show ?thesis by (simp add: feed_chunks_concat assms(2) recv_frames assms(1,3))
qed

end

end
