(* ===== verification/Client_Network.thy ===== *)
theory Client_Network
  imports Wire_Frame
begin

text \<open>
  The network thread of the client: \<^verbatim>\<open>client/src/network_manager.cpp\<close>.

  The socket is Qt's; its state (\<open>nm_socket\<close>, \<open>None\<close> before \<^verbatim>\<open>ensureSocket\<close>) changes by Qt's
  doing, and a slot reads it. What a slot asks of the socket and which signals it emits is the list
  of effects it returns. Slots are queued to one thread, so each is one step. Names of users are
  of type \<open>'q\<close> (\<^verbatim>\<open>QString\<close>).
\<close>

section \<open>State\<close>

datatype socket_state = UnconnectedState | ConnectingState | ConnectedState | ClosingState

record 'q network_manager =
  nm_socket :: "socket_state option"
  rx_buffer :: "u8 list"
  nm_user_id :: u32
  nm_username :: 'q

datatype 'q nm_effect =
  SigConnected
  | SigDisconnected string
  | SigMessageReceived string
  | SigErrorOccurred string
  | SocketConnect 'q u16
  | SocketDisconnect
  | SocketWrite "u8 list"

definition setIdentity :: "'q network_manager \<Rightarrow> u32 \<Rightarrow> 'q \<Rightarrow> 'q network_manager" where
  "setIdentity nm uid uname = nm\<lparr>nm_username := uname, nm_user_id := uid\<rparr>"

definition ensureSocket :: "'q network_manager \<Rightarrow> 'q network_manager" where
  "ensureSocket nm =
     (case nm_socket nm of Some _ \<Rightarrow> nm | None \<Rightarrow> nm\<lparr>nm_socket := Some UnconnectedState\<rparr>)"

definition connectToHost ::
  "'q network_manager \<Rightarrow> 'q \<Rightarrow> u16 \<Rightarrow> 'q network_manager \<times> 'q nm_effect list" where
  "connectToHost nm host port =
     (let nm = ensureSocket nm in (nm\<lparr>rx_buffer := []\<rparr>, [SocketConnect host port]))"

definition disconnectFromHost :: "'q network_manager \<Rightarrow> 'q nm_effect list" where
  "disconnectFromHost nm =
     (case nm_socket nm of
        None \<Rightarrow> []
      | Some st \<Rightarrow> if st \<noteq> UnconnectedState then [SocketDisconnect] else [])"

definition sendFrame :: "'q network_manager \<Rightarrow> string \<Rightarrow> 'q nm_effect list" where
  "sendFrame nm payload =
     (if nm_socket nm \<noteq> Some ConnectedState then [SigErrorOccurred ''Not connected'']
      else [SocketWrite (encode_frame payload)])"

definition onSocketConnected :: "'q nm_effect list" where
  "onSocketConnected = [SigConnected]"

definition onSocketDisconnected :: "'q network_manager \<Rightarrow> 'q network_manager \<times> 'q nm_effect list" where
  "onSocketDisconnected nm = (nm\<lparr>rx_buffer := []\<rparr>, [SigDisconnected ''Socket closed''])"

definition onSocketError :: "'q network_manager \<Rightarrow> string \<Rightarrow> 'q nm_effect list" where
  "onSocketError nm errorString =
     (case nm_socket nm of None \<Rightarrow> [] | Some _ \<Rightarrow> [SigErrorOccurred errorString])"

section \<open>Reassembly\<close>

text \<open>
  The loop of \<^verbatim>\<open>onReadyRead\<close>: the remaining buffer, the payloads emitted, and whether the loop
  ended at a header that announces too large a frame.
\<close>

function rx_loop :: "u8 list \<Rightarrow> u8 list \<times> string list \<times> bool" where
  "rx_loop buf =
     (if length buf < 4 then (buf, [], False)
      else case decode_frame_header buf of
             None \<Rightarrow> (buf, [], True)
           | Some len \<Rightarrow>
               if length buf < 4 + unat len then (buf, [], False)
               else (let (rest, ms, bad) = rx_loop (drop (4 + unat len) buf)
                     in (rest, map to_char (take (unat len) (drop 4 buf)) # ms, bad)))"
  by auto
termination by (relation "measure length") auto

declare rx_loop.simps [simp del]

definition onReadyRead :: "'q network_manager \<Rightarrow> u8 list \<Rightarrow> 'q network_manager \<times> 'q nm_effect list" where
  "onReadyRead nm readAll =
     (case nm_socket nm of
        None \<Rightarrow> (nm, [])
      | Some _ \<Rightarrow>
          (let (rest, ms, bad) = rx_loop (rx_buffer nm @ readAll)
           in (nm\<lparr>rx_buffer := rest\<rparr>,
               map SigMessageReceived ms @
               (if bad then SigErrorOccurred ''Frame exceeds 16 MiB limit'' # disconnectFromHost nm else []))))"

lemma rx_loop_append:
  "rx_loop (buf @ ys) =
     (let (rest, ms, bad) = rx_loop buf; (rest', ns, bad') = rx_loop (rest @ ys) in (rest', ms @ ns, bad'))"
proof (induction buf rule: rx_loop.induct)
  case (1 buf)
  show ?case
  proof (cases "length buf < 4 \<or> decode_frame_header buf = None
      \<or> length buf < 4 + unat (the (decode_frame_header buf))")
    case True
    then have "\<exists>bad. rx_loop buf = (buf, [], bad)" by (auto simp: rx_loop.simps [of buf] split: option.splits)
    then show ?thesis by auto
  next
    case False
    then obtain len where len: "4 \<le> length buf" "decode_frame_header buf = Some len" "4 + unat len \<le> length buf"
      by auto
    have "rx_loop (drop (4 + unat len) buf @ ys) = (let (rest, ms, bad) = rx_loop (drop (4 + unat len) buf);
        (rest', ns, bad') = rx_loop (rest @ ys) in (rest', ms @ ns, bad'))"
      using False len by (intro "1.IH") auto
    with len show ?thesis
      by (simp add: rx_loop.simps [of "buf @ ys"] rx_loop.simps [of buf] decode_header_append split_beta Let_def)
  qed
qed

lemma rx_loop_Nil [simp]: "rx_loop [] = ([], [], False)"
  by (simp add: rx_loop.simps)

lemma rx_loop_frame:
  assumes "length p \<le> 16777216"
  shows "rx_loop (encode_frame p) = ([], [p], False)"
proof -
  have "unat (size32 p) = length p" using assms by (simp add: unat_size32)
  moreover have "decode_frame_header (encode_frame p) = Some (size32 p)"
    using decode_header_fits [OF assms, of "[]"] by simp
  ultimately show ?thesis by (simp add: rx_loop.simps [of "encode_frame p"] comp_def)
qed

definition received :: "'q nm_effect list \<Rightarrow> string list" where
  "received es = concat (map (\<lambda>e. case e of SigMessageReceived m \<Rightarrow> [m] | _ \<Rightarrow> []) es)"

definition client_recv :: "'q network_manager \<Rightarrow> u8 list \<Rightarrow> 'q network_manager \<times> string list" where
  "client_recv nm bs = map_prod id received (onReadyRead nm bs)"

lemma received_messages [simp]: "received (map SigMessageReceived ms) = ms"
  by (induction ms) (simp_all add: received_def)

lemma received_append [simp]: "received (es @ fs) = received es @ received fs"
  by (simp add: received_def)

lemma client_recv_eq:
  "client_recv nm bs =
     (if nm_socket nm = None then (nm, [])
      else (nm\<lparr>rx_buffer := fst (rx_loop (rx_buffer nm @ bs))\<rparr>, fst (snd (rx_loop (rx_buffer nm @ bs)))))"
proof -
  have "received (SigErrorOccurred ''Frame exceeds 16 MiB limit'' # disconnectFromHost nm) = []"
    by (auto simp: received_def disconnectFromHost_def split: option.splits)
  moreover have "received [] = []" by (simp add: received_def)
  ultimately show ?thesis
    by (auto simp: client_recv_def onReadyRead_def split_beta split: option.splits)
qed

interpretation client_rx: frame_receiver client_recv "\<lambda>nm. nm_socket nm \<noteq> None \<and> rx_buffer nm = []"
proof
  show "client_recv nm (xs @ ys) =
      (let (t, ms) = client_recv nm xs; (u, ns) = client_recv t ys in (u, ms @ ns))"
    for nm :: "'q network_manager" and xs ys
    using rx_loop_append [of "rx_buffer nm @ xs" ys] by (simp add: client_recv_eq split_beta)
qed (simp_all add: client_recv_eq rx_loop_frame)

section \<open>Properties\<close>

text \<open>
  C23: the client reassembles what the server sends. However the transport cuts a sequence of
  frames (each payload at most 16 MiB) into chunks, the signals emitted carry exactly the
  payloads, in order, and the receive buffer ends empty.
\<close>

theorem client_reassembles_frames:
  assumes "nm_socket nm \<noteq> None" "rx_buffer nm = []" "\<forall>p \<in> set ps. length p \<le> 16777216"
    and "concat chunks = concat (map encode_frame ps)"
  shows "feed_chunks client_recv nm chunks = (nm, ps)"
  using assms by (intro client_rx.recv_any_chunks) simp_all

theorem client_reassembles_frames_witness:
  "snd (feed_chunks client_recv
      \<lparr>nm_socket = Some ConnectedState, rx_buffer = [], nm_user_id = 1, nm_username = ''ann''\<rparr>
      [take 5 (encode_frame ''ab'' @ encode_frame ''c''), [], drop 5 (encode_frame ''ab'' @ encode_frame ''c'')])
   = [''ab'', ''c'']"
  by (subst client_reassembles_frames [of _ "[''ab'', ''c'']"]) simp_all

text \<open>
  An announced length above 16 MiB ends the connection. As soon as such a header is at the
  front of the buffer, a read emits no payload, reports the error, asks an open socket to
  disconnect, and leaves the bytes alone until the socket reports the disconnection.
\<close>

lemma oversized_frame_disconnects:
  assumes "nm_socket nm = Some st" "4 \<le> length (rx_buffer nm @ bs)"
    and "decode_frame_header (rx_buffer nm @ bs) = None"
  shows "onReadyRead nm bs =
    (nm\<lparr>rx_buffer := rx_buffer nm @ bs\<rparr>,
     SigErrorOccurred ''Frame exceeds 16 MiB limit''
       # (if st = UnconnectedState then [] else [SocketDisconnect]))"
  using assms by (simp add: onReadyRead_def rx_loop.simps [of "rx_buffer nm @ bs"] disconnectFromHost_def)

lemma oversized_frame_disconnects_witness:
  "snd (onReadyRead \<lparr>nm_socket = Some ConnectedState, rx_buffer = [0xFF], nm_user_id = 1, nm_username = ''ann''\<rparr>
      [0, 0, 0]) = [SigErrorOccurred ''Frame exceeds 16 MiB limit'', SocketDisconnect]"
  by (subst oversized_frame_disconnects [of _ ConnectedState])
    (simp_all add: decode_frame_header_def MAX_PAYLOAD_SIZE_def Let_def)

end
