(* ===== verification/Collab_Double.thy ===== *)
theory Collab_Double
  imports Collab_Prelude "HOL-Library.Log_Nat"
begin

text \<open>
  The double precision arithmetic of the C++ code, where no operation overflows or underflows: a
  \<^verbatim>\<open>double\<close> is a rational, and every operation rounds its exact result to 53 significant bits, a
  tie to the even neighbour. The compiler may evaluate a product and the sum it is part of with a
  single rounding (\<^verbatim>\<open>-ffp-contract\<close>); \<open>fused\<close> says whether it does.
\<close>

section \<open>Rounding\<close>

type_synonym double = rat

definition round_even :: "rat \<Rightarrow> int" where
  "round_even x =
     (let f = \<lfloor>x\<rfloor>; r = x - of_int f
      in if r < 1 / 2 \<or> r = 1 / 2 \<and> even f then f else f + 1)"

text \<open>The largest \<open>e\<close> with \<open>2 powi e \<le> \<bar>x\<bar>\<close>.\<close>

definition exponent :: "rat \<Rightarrow> int" where
  "exponent x =
     (let (n, d) = quotient_of \<bar>x\<bar>; k = bitlen n - bitlen d
      in if 2 powi k \<le> \<bar>x\<bar> then k else k - 1)"

definition round53 :: "rat \<Rightarrow> double" where
  "round53 x =
     (if x = 0 then 0
      else (let ulp = 2 powi (exponent x - 52) in of_int (round_even (x / ulp)) * ulp))"

definition mul_add :: "bool \<Rightarrow> double \<Rightarrow> double \<Rightarrow> double \<Rightarrow> double" where
  "mul_add fused x y a = (if fused then round53 (a + x * y) else round53 (a + round53 (x * y)))"

text \<open>The exact conversion from 32 bits, and \<^verbatim>\<open>std::lround\<close>, which rounds ties away from zero.\<close>

definition of_u32 :: "u32 \<Rightarrow> double" where
  "of_u32 w = of_int (uint w)"

definition lround :: "double \<Rightarrow> int" where
  "lround x = (if 0 \<le> x then \<lfloor>x + 1 / 2\<rfloor> else - \<lfloor>1 / 2 - x\<rfloor>)"

section \<open>The error of an operation\<close>

lemma round_even_error: "\<bar>of_int (round_even x) - x\<bar> \<le> 1 / 2"
proof -
  have "of_int \<lfloor>x\<rfloor> \<le> x" "x < of_int \<lfloor>x\<rfloor> + 1" using floor_correct [of x] by simp_all
  then show ?thesis by (auto simp: round_even_def Let_def abs_le_iff)
qed

lemma quotient_bounds:
  assumes "0 < x" "quotient_of x = (n, d)"
  shows "0 < n" "0 < d" "x = of_int n / of_int d"
proof -
  show d: "0 < d" by (rule quotient_of_denom_pos [OF assms(2)])
  show x: "x = of_int n / of_int d" by (rule quotient_of_div [OF assms(2)])
  then show "0 < n" using assms(1) d by (simp add: zero_less_divide_iff)
qed

lemma exponent_le: "x \<noteq> 0 \<Longrightarrow> 2 powi exponent x \<le> \<bar>x\<bar>"
proof -
  assume "x \<noteq> 0"
  obtain n d where q: "quotient_of \<bar>x\<bar> = (n, d)" by fastforce
  note b = quotient_bounds [OF _ q] 
  have pos: "0 < n" "0 < d" "\<bar>x\<bar> = of_int n / of_int d" using b \<open>x \<noteq> 0\<close> by simp_all
  define i j where ij: "i = nat (bitlen n - 1)" "j = nat (bitlen d)"
  have "2 ^ i \<le> n" "d < 2 ^ j" "1 \<le> bitlen n" "0 \<le> bitlen d"
    using bitlen_bounds [of n] bitlen_bounds [of d] pos bitlen_nonneg [of d] bitlen_eq_zero_iff [of n] bitlen_nonneg [of n] by (simp_all add: ij)
  then have "(2::rat) ^ i \<le> of_int n" "of_int d \<le> (2::rat) ^ j"
    by (metis of_int_le_iff of_int_numeral of_int_power less_imp_le)+
  then have "(2::rat) ^ i / 2 ^ j \<le> \<bar>x\<bar>"
    unfolding pos(3) using pos(1,2) by (intro frac_le) auto
  moreover have "bitlen n - bitlen d - 1 = int i - int j" using \<open>1 \<le> bitlen n\<close> \<open>0 \<le> bitlen d\<close> by (simp add: ij)
  then have "(2::rat) powi (bitlen n - bitlen d - 1) = 2 ^ i / 2 ^ j" by (simp only: power_int_diff) (simp add: power_int_diff)
  ultimately show ?thesis by (simp add: exponent_def q Let_def)
qed

lemma round53_error: "\<bar>round53 x - x\<bar> \<le> \<bar>x\<bar> / 2 ^ 53"
proof (cases "x = 0")
  case False
  let ?u = "(2::rat) powi (exponent x - 52)"
  have u: "0 < ?u" by (simp add: zero_less_power_int)
  have "round53 x - x = (of_int (round_even (x / ?u)) - x / ?u) * ?u"
    using False u by (simp add: round53_def Let_def left_diff_distrib)
  then have "\<bar>round53 x - x\<bar> = \<bar>of_int (round_even (x / ?u)) - x / ?u\<bar> * ?u" using u by (simp add: abs_mult)
  also have "\<dots> \<le> 1 / 2 * ?u" by (rule mult_right_mono [OF round_even_error]) (use u in simp)
  also have "?u = 2 powi exponent x / 2 ^ 52" by (simp add: power_int_diff)
  finally show ?thesis using exponent_le [OF False] by simp
qed (simp add: round53_def)

text \<open>Bounds that are enough for the computations of the program.\<close>

lemma round53_0 [simp]: "round53 0 = 0"
  by (simp add: round53_def)

lemma round53_bound: "\<bar>x\<bar> \<le> b \<Longrightarrow> \<bar>round53 x - x\<bar> \<le> b / 2 ^ 53"
  by (rule order_trans [OF round53_error divide_right_mono]) simp_all

lemma round53_within:
  assumes "0 \<le> a" "a \<le> x" "x \<le> b"
  shows "a - b / 2 ^ 53 \<le> round53 x" "round53 x \<le> b + b / 2 ^ 53"
  using round53_bound [of x b] assms unfolding abs_le_iff by linarith+

lemma of_u32_bounds: "0 \<le> of_u32 w" "of_u32 w \<le> 2 ^ 32 - 1"
proof -
  have "uint w \<le> 2 ^ 32 - 1" using uint_bounded [of w] by simp
  then have "of_int (uint w) \<le> (of_int (2 ^ 32 - 1) :: rat)" unfolding of_int_le_iff .
  then show "of_u32 w \<le> 2 ^ 32 - 1" by (simp add: of_u32_def)
  have "(0 :: rat) \<le> of_int (uint w)" unfolding of_int_0_le_iff by simp
  then show "0 \<le> of_u32 w" unfolding of_u32_def .
qed

lemma lround_u32 [simp]: "word_of_int (lround (of_u32 w)) = w"
proof -
  have "\<lfloor>of_int (uint w) + (1 / 2 :: rat)\<rfloor> = uint w" by (rule floor_unique) (simp_all del: of_int_uint)
  then have "lround (of_u32 w) = uint w" using of_u32_bounds(1) [of w] by (simp add: lround_def of_u32_def del: of_int_uint)
  then show ?thesis by simp
qed

end
