(* ===== verification/Server_Colour.thy ===== *)
theory Server_Colour
  imports Collab_Double
begin

text \<open>
  The colour of a user, \<^verbatim>\<open>generate_color\<close> of \<^verbatim>\<open>server/src/message_handler.cpp\<close>: a hue from the user's
  number by the golden ratio, turned into red, green and blue in double precision. \<open>fused\<close> is the
  compiler's choice of rounding.
\<close>

section \<open>The computation\<close>

definition golden :: double where
  "golden = round53 (618033988749895 / 10 ^ 15)"

definition saturation :: double where
  "saturation = round53 (7 / 10)"

definition lightness :: double where
  "lightness = round53 (1 / 2)"

text \<open>\<^verbatim>\<open>std::fmod (x, 1.0)\<close>, which is exact, for a number that is not negative.\<close>

definition fmod1 :: "double \<Rightarrow> double" where
  "fmod1 x = x - of_int \<lfloor>x\<rfloor>"

definition colour_q :: "bool \<Rightarrow> double" where
  "colour_q fused =
     (if lightness < round53 (1 / 2) then round53 (lightness * round53 (1 + saturation))
      else mul_add fused (- lightness) saturation (round53 (lightness + saturation)))"

definition colour_p :: "bool \<Rightarrow> double" where
  "colour_p fused = mul_add fused 2 lightness (- colour_q fused)"

definition hue2rgb :: "bool \<Rightarrow> double \<Rightarrow> double" where
  "hue2rgb fused t =
     (let p = colour_p fused; q = colour_q fused;
          t = (if t < 0 then round53 (t + 1) else t);
          t = (if 1 < t then round53 (t - 1) else t)
      in if t < round53 (1 / 6) then mul_add fused (round53 (round53 (q - p) * 6)) t p
         else if t < round53 (1 / 2) then q
         else if t < round53 (2 / 3) then mul_add fused (round53 (round53 (q - p) * round53 (round53 (2 / 3) - t))) 6 p
         else p)"

text \<open>\<^verbatim>\<open>static_cast<int>\<close> cuts the fraction off.\<close>

definition cut_off :: "double \<Rightarrow> int" where
  "cut_off x = (if 0 \<le> x then \<lfloor>x\<rfloor> else \<lceil>x\<rceil>)"

definition channel :: "bool \<Rightarrow> double \<Rightarrow> int" where
  "channel fused t = cut_off (round53 (hue2rgb fused t * 255))"

text \<open>\<^verbatim>\<open>{:02X}\<close>\<close>

definition upper_hex :: "nat \<Rightarrow> char" where
  "upper_hex n = (if n < 10 then char_of (48 + n) else char_of (55 + n))"

fun hex_digits :: "nat \<Rightarrow> string" where
  "hex_digits n = (if n < 16 then [upper_hex n] else hex_digits (n div 16) @ [upper_hex (n mod 16)])"

definition format_02X :: "int \<Rightarrow> string" where
  "format_02X n =
     (let sgn = (if n < 0 then ''-'' else []); digits = hex_digits (nat \<bar>n\<bar>)
      in sgn @ replicate (2 - length (sgn @ digits)) CHR ''0'' @ digits)"

definition generate_color :: "bool \<Rightarrow> u32 \<Rightarrow> string" where
  "generate_color fused userId =
     (let hue = fmod1 (round53 (of_u32 userId * golden));
          r = channel fused (round53 (hue + round53 (1 / 3)));
          g = channel fused hue;
          b = channel fused (round53 (hue - round53 (1 / 3)))
      in ''#'' @ format_02X r @ format_02X g @ format_02X b)"

section \<open>Its bounds\<close>

lemma thirds:
  "round53 (1 / 6) \<le> 17 / 100" "0 \<le> round53 (1 / 6)" "round53 (1 / 2) = 1 / 2" "round53 (2 / 3) \<le> 67 / 100" "round53 (1 / 3) \<le> 34 / 100" "0 \<le> round53 (1 / 3)"
  by code_simp+

lemma round53_near:
  assumes "\<bar>x\<bar> \<le> 8"
  shows "\<bar>round53 x - x\<bar> \<le> 1 / 1000"
proof -
  have "8 / 2 ^ 53 \<le> (1 / 1000 :: rat)" by simp
  with round53_bound [OF assms] show ?thesis by (rule order_trans)
qed

lemma mul_add_near:
  assumes "\<bar>x * y\<bar> \<le> 4" "\<bar>a\<bar> \<le> 2"
  shows "\<bar>mul_add fused x y a - (x * y + a)\<bar> \<le> 1 / 500"
proof -
  define m where "m = x * y"
  have m: "\<bar>m\<bar> \<le> 4" using assms(1) by (simp add: m_def)
  then have r: "\<bar>round53 m - m\<bar> \<le> 1 / 1000" by (intro round53_near) simp
  have "\<bar>a + round53 m\<bar> \<le> 8" "\<bar>a + m\<bar> \<le> 8" using r m assms(2) by linarith+
  from this [THEN round53_near] r have "\<bar>round53 (a + round53 m) - (m + a)\<bar> \<le> 1 / 500" "\<bar>round53 (a + m) - (m + a)\<bar> \<le> 1 / 500" by linarith+
  then show ?thesis by (cases fused) (simp_all add: mul_add_def m_def)
qed

lemma colour_constants: "lightness = 1 / 2" "\<bar>saturation - 7 / 10\<bar> \<le> 1 / 1000" "0 \<le> golden"
  unfolding lightness_def saturation_def golden_def by code_simp+

lemma colour_q: "\<bar>colour_q fused - 85 / 100\<bar> \<le> 1 / 200"
proof -
  define s where "s = saturation"
  have s: "\<bar>s - 7 / 10\<bar> \<le> 1 / 1000" using colour_constants(2) by (simp add: s_def)
  then have r: "\<bar>round53 (1 / 2 + s) - (1 / 2 + s)\<bar> \<le> 1 / 1000" by (intro round53_near) linarith
  have "\<bar>- (1 / 2) * s\<bar> \<le> 4" "\<bar>round53 (1 / 2 + s)\<bar> \<le> 2" using s r by linarith+
  from mul_add_near [OF this, of fused]
  have "\<bar>mul_add fused (- (1 / 2)) s (round53 (1 / 2 + s)) - 85 / 100\<bar> \<le> 1 / 200" using s r by linarith
  then show ?thesis by (simp add: colour_q_def colour_constants(1) thirds(3) s_def)
qed

lemma colour_p: "\<bar>colour_p fused - 15 / 100\<bar> \<le> 1 / 100"
proof -
  define q where "q = colour_q fused"
  have q: "\<bar>q - 85 / 100\<bar> \<le> 1 / 200" using colour_q by (simp add: q_def)
  have "\<bar>2 * (1 / 2)\<bar> \<le> (4 :: rat)" "\<bar>- q\<bar> \<le> 2" using q by linarith+
  from mul_add_near [OF this, of fused] have "\<bar>mul_add fused 2 (1 / 2) (- q) - (1 - q)\<bar> \<le> 1 / 500" by simp
  with q show ?thesis unfolding colour_p_def colour_constants(1) q_def [symmetric] by linarith
qed

lemma product_between:
  fixes x y :: rat
  assumes "0 \<le> x" "x \<le> a" "- b \<le> y" "y \<le> c" "0 \<le> b" "0 \<le> c"
  shows "- (a * b) \<le> x * y" "x * y \<le> a * c"
proof -
  have "x * y \<le> x * c" "x * c \<le> a * c" "x * - b \<le> x * y" "x * b \<le> a * b"
    using assms by (intro mult_left_mono mult_right_mono; simp)+
  then show "- (a * b) \<le> x * y" "x * y \<le> a * c" by simp_all
qed

lemma hue2rgb_bounds:
  assumes "- 35 / 100 \<le> t" "t \<le> 135 / 100"
  shows "1 / 10 \<le> hue2rgb fused t \<and> hue2rgb fused t \<le> 95 / 100"
proof -
  define p q where pq: "p = colour_p fused" "q = colour_q fused"
  have p: "14 / 100 \<le> p" "p \<le> 16 / 100" and q: "84 / 100 \<le> q" "q \<le> 86 / 100"
    using colour_p [of fused] colour_q [of fused] unfolding pq by linarith+
  define d where "d = round53 (q - p)"
  have "\<bar>d - (q - p)\<bar> \<le> 1 / 1000" unfolding d_def by (rule round53_near) (use p q in linarith)
  then have d: "60 / 100 \<le> d" "d \<le> 73 / 100" using p q by linarith+
  define t1 where "t1 = (if t < 0 then round53 (t + 1) else t)"
  define t2 where "t2 = (if 1 < t1 then round53 (t1 - 1) else t1)"
  have "\<bar>round53 (t + 1) - (t + 1)\<bar> \<le> 1 / 1000" by (rule round53_near) (use assms in linarith)
  then have t1: "0 \<le> t1" "t1 \<le> 14 / 10" using assms unfolding t1_def by (cases "t < 0"; simp; linarith)+
  have "\<bar>round53 (t1 - 1) - (t1 - 1)\<bar> \<le> 1 / 1000" by (rule round53_near) (use t1 in linarith)
  then have t2: "- 1 / 1000 \<le> t2" using t1 unfolding t2_def by (cases "1 < t1"; simp; linarith)
  have first: "1 / 10 \<le> mul_add fused (round53 (d * 6)) t2 p \<and> mul_add fused (round53 (d * 6)) t2 p \<le> 95 / 100" if "t2 < round53 (1 / 6)"
  proof -
    have "\<bar>round53 (d * 6) - d * 6\<bar> \<le> 1 / 1000" by (rule round53_near) (use d in linarith)
    then have "0 \<le> round53 (d * 6)" "round53 (d * 6) \<le> 439 / 100" using d by linarith+
    from product_between [OF this, of "1 / 1000" t2 "17 / 100"] t2 that thirds(1)
    have m: "- (1 / 100) \<le> round53 (d * 6) * t2" "round53 (d * 6) * t2 \<le> 75 / 100" by auto
    then have "\<bar>round53 (d * 6) * t2\<bar> \<le> 4" "\<bar>p\<bar> \<le> 2" using p by linarith+
    from mul_add_near [OF this, of fused] m p show ?thesis by linarith
  qed
  have third: "1 / 10 \<le> mul_add fused (round53 (d * round53 (round53 (2 / 3) - t2))) 6 p
      \<and> mul_add fused (round53 (d * round53 (round53 (2 / 3) - t2))) 6 p \<le> 95 / 100" if "t2 < round53 (2 / 3)" "\<not> t2 < 1 / 2"
  proof -
    define u where "u = round53 (round53 (2 / 3) - t2)"
    have "\<bar>u - (round53 (2 / 3) - t2)\<bar> \<le> 1 / 1000" unfolding u_def by (rule round53_near) (use that thirds(4) in linarith)
    then have u: "- (1 / 1000) \<le> u" "u \<le> 172 / 1000" using that thirds(4) by linarith+
    have m: "- (1 / 1000) \<le> d * u" "d * u \<le> 127 / 1000"
      using product_between [of d "73 / 100" "1 / 1000" u "172 / 1000"] d u by auto
    then have "\<bar>round53 (d * u) - d * u\<bar> \<le> 1 / 1000" by (intro round53_near) linarith
    then have m': "\<bar>round53 (d * u) * 6\<bar> \<le> 4" "- (2 / 1000) \<le> round53 (d * u)" "round53 (d * u) \<le> 128 / 1000" using m by linarith+
    have "\<bar>p\<bar> \<le> 2" using p by linarith
    from mul_add_near [OF m'(1) this, of fused] m' p show ?thesis unfolding u_def [symmetric] by linarith
  qed
  show ?thesis
    using first third p q unfolding hue2rgb_def pq [symmetric] d_def [symmetric] t1_def [symmetric] t2_def [symmetric] Let_def thirds(3)
    by auto
qed

lemma channel_bounds:
  assumes "- 35 / 100 \<le> t" "t \<le> 135 / 100"
  shows "25 \<le> channel fused t \<and> channel fused t \<le> 243"
proof -
  have "1 / 10 * 255 \<le> hue2rgb fused t * 255" "hue2rgb fused t * 255 \<le> 95 / 100 * 255"
    using hue2rgb_bounds [OF assms, of fused] by linarith+
  from round53_within [OF _ this] have "25 \<le> round53 (hue2rgb fused t * 255)" "round53 (hue2rgb fused t * 255) < 244" by simp_all
  then show ?thesis by (auto simp: channel_def cut_off_def le_floor_iff floor_le_iff)
qed

lemma fmod1_bounds: "0 \<le> fmod1 x" "fmod1 x < 1"
  using floor_correct [of x] by (simp_all add: fmod1_def)

definition hex_pair :: "nat \<Rightarrow> string" where
  "hex_pair n = [upper_hex (n div 16), upper_hex (n mod 16)]"

lemma format_02X_pair: "16 \<le> n \<Longrightarrow> n < 256 \<Longrightarrow> format_02X (int n) = hex_pair n"
  by (simp add: format_02X_def hex_pair_def Let_def)

lemma channel_text: "- 35 / 100 \<le> t \<Longrightarrow> t \<le> 135 / 100 \<Longrightarrow> \<exists>n \<in> {25..243}. format_02X (channel fused t) = hex_pair n"
  using channel_bounds [of t fused] format_02X_pair [of "nat (channel fused t)"]
  by (intro bexI [of _ "nat (channel fused t)"]) auto

text \<open>
  Every user's colour is well formed. Whatever the user's number and however the compiler
  rounds, the three channels are integers from 25 to 243, so the text is a number sign and three
  pairs of hexadecimal digits, and the colour is neither black nor white.
\<close>

lemma user_colour_well_formed:
  "\<exists>r \<in> {25..243}. \<exists>g \<in> {25..243}. \<exists>b \<in> {25..243}.
     generate_color fused userId = ''#'' @ hex_pair r @ hex_pair g @ hex_pair b"
proof -
  define hue where "hue = fmod1 (round53 (of_u32 userId * golden))"
  have h: "0 \<le> hue" "hue < 1" unfolding hue_def by (rule fmod1_bounds)+
  have "\<bar>round53 (hue + round53 (1 / 3)) - (hue + round53 (1 / 3))\<bar> \<le> 1 / 1000" "\<bar>round53 (hue - round53 (1 / 3)) - (hue - round53 (1 / 3))\<bar> \<le> 1 / 1000"
    by (intro round53_near; use h thirds(5,6) in linarith)+
  then have "- 35 / 100 \<le> round53 (hue + round53 (1 / 3))" "round53 (hue + round53 (1 / 3)) \<le> 135 / 100"
    "- 35 / 100 \<le> round53 (hue - round53 (1 / 3))" "round53 (hue - round53 (1 / 3)) \<le> 135 / 100" "- 35 / 100 \<le> hue" "hue \<le> 135 / 100"
    using h thirds(5,6) by linarith+
  then obtain r g b where "r \<in> {25..243}" "g \<in> {25..243}" "b \<in> {25..243}"
    "format_02X (channel fused (round53 (hue + round53 (1 / 3)))) = hex_pair r" "format_02X (channel fused hue) = hex_pair g"
    "format_02X (channel fused (round53 (hue - round53 (1 / 3)))) = hex_pair b"
    using channel_text by metis
  then show ?thesis
    unfolding generate_color_def Let_def hue_def [symmetric] by (metis append_assoc)
qed

end
