(* ===== verification/Server_Document.thy ===== *)
theory Server_Document
  imports Collab_Document Collab_Fifo Wire_Message
begin

text \<open>
  The actor that owns a document on the server: \<^verbatim>\<open>server/src/document_session.cpp\<close>.

  Commands arrive through the MPSC queue and are handled by one thread. The document is shared
  with \<^verbatim>\<open>DocumentManager\<close> and autosave, so a session holds a reference to it and the operations take
  the current document and return the new one. A \<^verbatim>\<open>weak_ptr\<close> to a connection is the identifier of
  the connection; \<open>alive\<close> says which connections still exist when it is locked. The messages sent
  are listed with the connection they go to. A message handed to a connection is serialised
  first; every text in it came out of the JSON parser, so this does not throw.
\<close>

section \<open>State\<close>

record connected_user =
  cu_userId :: u32
  cu_username :: string
  cu_color :: string
  cu_session :: "u64 option"   \<comment> \<open>\<open>None\<close> is an empty \<^verbatim>\<open>weak_ptr\<close>\<close>

record cursor_state =
  cur_userId :: u32
  cur_username :: string
  cur_color :: string
  cur_position :: u32
  cur_selectionStart :: "u32 option"
  cur_selectionEnd :: "u32 option"

datatype cmd_kind = OperationCmd | JoinCmd | LeaveCmd | DeleteCmd | ShutdownCmd

record doc_command =
  cmd_type :: cmd_kind
  cmd_operation :: operation
  cmd_userId :: u32
  cmd_username :: string
  cmd_color :: string
  cmd_session :: "u64 option"

definition DocCommand :: "cmd_kind \<Rightarrow> doc_command" where
  "DocCommand k = \<lparr>cmd_type = k,
     cmd_operation = \<lparr>op_type = Insert, position = 0, op_text = [], op_length = 0, userId = 0, op_revision = 0\<rparr>,
     cmd_userId = 0, cmd_username = [], cmd_color = [], cmd_session = None\<rparr>"

record document_session =
  ds_docref :: nat
  command_queue :: "doc_command list"
  users_online :: "(u32, connected_user) umap"
  stop_requested :: bool

type_synonym outbox = "(u64 \<times> message) list"

definition DocumentSession :: "nat \<Rightarrow> document_session" where
  "DocumentSession r = \<lparr>ds_docref = r, command_queue = [], users_online = [], stop_requested = False\<rparr>"

section \<open>Sending\<close>

text \<open>\<^verbatim>\<open>if (auto session = wp.lock()) session->send(...)\<close>\<close>

definition locked_send :: "(u64 \<Rightarrow> bool) \<Rightarrow> u64 option \<Rightarrow> message \<Rightarrow> outbox" where
  "locked_send alive wp msg =
     (case wp of None \<Rightarrow> [] | Some sid \<Rightarrow> if alive sid then [(sid, msg)] else [])"

definition broadcast :: "(u64 \<Rightarrow> bool) \<Rightarrow> document_session \<Rightarrow> message \<Rightarrow> u32 \<Rightarrow> outbox" where
  "broadcast alive ds msg excludeUserId =
     concat (map (\<lambda>(uid, user). if uid \<noteq> excludeUserId then locked_send alive (cu_session user) msg else [])
       (users_online ds))"

definition send_to_user :: "(u64 \<Rightarrow> bool) \<Rightarrow> document_session \<Rightarrow> u32 \<Rightarrow> message \<Rightarrow> outbox" where
  "send_to_user alive ds uid msg =
     (case um_find (users_online ds) uid of
        None \<Rightarrow> []
      | Some user \<Rightarrow> locked_send alive (cu_session user) msg)"

section \<open>Commands\<close>

definition enqueue_command :: "document_session \<Rightarrow> doc_command \<Rightarrow> document_session" where
  "enqueue_command ds cmd = ds\<lparr>command_queue := fifo_enqueue cmd (command_queue ds)\<rparr>"

definition request_stop :: "document_session \<Rightarrow> document_session" where
  "request_stop ds = ds\<lparr>stop_requested := True\<rparr>"

definition connected_users :: "document_session \<Rightarrow> connected_user list" where
  "connected_users ds = map snd (users_online ds)"

definition has_subscribers :: "document \<Rightarrow> bool" where
  "has_subscribers d = (0 < subscriber_count d)"

definition handle_join ::
  "(u64 \<Rightarrow> bool) \<Rightarrow> document_session \<times> document \<Rightarrow> doc_command \<Rightarrow> (document_session \<times> document) \<times> outbox" where
  "handle_join alive = (\<lambda>(ds, d) cmd.
     let ds = ds\<lparr>users_online := um_set (cmd_userId cmd)
                  \<lparr>cu_userId = cmd_userId cmd, cu_username = cmd_username cmd, cu_color = cmd_color cmd,
                   cu_session = cmd_session cmd\<rparr> (users_online ds)\<rparr>;
         d = subscribe d (cmd_userId cmd)
     in ((ds, d), broadcast alive ds (UserJoinedMsg
           \<lparr>uj_docId = doc_id d, uj_userId = cmd_userId cmd, uj_username = cmd_username cmd,
            uj_color = cmd_color cmd\<rparr>) (cmd_userId cmd)))"

definition handle_leave ::
  "(u64 \<Rightarrow> bool) \<Rightarrow> document_session \<times> document \<Rightarrow> doc_command \<Rightarrow> (document_session \<times> document) \<times> outbox" where
  "handle_leave alive = (\<lambda>(ds, d) cmd.
     let ds = ds\<lparr>users_online := um_erase (cmd_userId cmd) (users_online ds)\<rparr>;
         d = unsubscribe d (cmd_userId cmd)
     in ((ds, d), broadcast alive ds (UserLeftMsg
           \<lparr>ul_docId = doc_id d, ul_userId = cmd_userId cmd, ul_username = cmd_username cmd\<rparr>) 0))"

definition operation_entry :: "operation \<Rightarrow> op_entry" where
  "operation_entry op =
     (if op_type op = Insert
      then \<lparr>oe_op = ''insert'', oe_pos = position op, oe_text = op_text op, oe_len = 0\<rparr>
      else \<lparr>oe_op = ''delete'', oe_pos = position op, oe_text = [], oe_len = op_length op\<rparr>)"

definition handle_operation_cmd ::
  "(u64 \<Rightarrow> bool) \<Rightarrow> document_session \<times> document \<Rightarrow> doc_command \<Rightarrow> (document_session \<times> document) \<times> outbox" where
  "handle_operation_cmd alive = (\<lambda>(ds, d) cmd.
     let (d, result) = apply_with_ot d (cmd_operation cmd)
     in if \<not> ot_success result then
          ((ds, d), send_to_user alive ds (cmd_userId cmd)
             (ErrorMsg \<lparr>em_code = ''revision_too_old'', em_message = ot_error result\<rparr>))
        else
          ((ds, d),
           send_to_user alive ds (cmd_userId cmd)
             (OperationAckMsg \<lparr>ack_docId = doc_id d, ack_revision = revision d\<rparr>)
           @ broadcast alive ds (OperationBroadcastMsg
               \<lparr>ob_docId = doc_id d, ob_userId = cmd_userId cmd, ob_username = cmd_username cmd,
                ob_revision = revision d, ob_ops = [operation_entry (transformed_op result)]\<rparr>)
             (cmd_userId cmd)))"

definition handle_delete ::
  "(u64 \<Rightarrow> bool) \<Rightarrow> document_session \<times> document \<Rightarrow> (document_session \<times> document) \<times> outbox" where
  "handle_delete alive = (\<lambda>(ds, d).
     ((ds\<lparr>users_online := []\<rparr>, d),
      broadcast alive ds (DocDeletedMsg \<lparr>dd_docId = doc_id d\<rparr>) 0))"

definition process_command ::
  "(u64 \<Rightarrow> bool) \<Rightarrow> document_session \<times> document \<Rightarrow> doc_command \<Rightarrow> (document_session \<times> document) \<times> outbox" where
  "process_command alive sd cmd =
     (case cmd_type cmd of
        JoinCmd \<Rightarrow> handle_join alive sd cmd
      | LeaveCmd \<Rightarrow> handle_leave alive sd cmd
      | OperationCmd \<Rightarrow> handle_operation_cmd alive sd cmd
      | DeleteCmd \<Rightarrow> handle_delete alive sd
      | ShutdownCmd \<Rightarrow> (sd, []))"

text \<open>One round of the thread: dequeue and process, if there is a command.\<close>

definition run_step ::
  "(u64 \<Rightarrow> bool) \<Rightarrow> document_session \<times> document \<Rightarrow> (document_session \<times> document) \<times> outbox" where
  "run_step alive = (\<lambda>(ds, d).
     case fifo_try_dequeue (command_queue ds) of
       (None, _) \<Rightarrow> ((ds, d), [])
     | (Some cmd, q) \<Rightarrow> process_command alive (ds\<lparr>command_queue := q\<rparr>, d) cmd)"

text \<open>
  \<^verbatim>\<open>while (auto cmd = command_queue_.try_dequeue()) process_command(*cmd)\<close>, which \<^verbatim>\<open>run\<close> uses for a
  round and once more after the stop request. Nothing a command does enqueues another one.
\<close>

fun drain ::
  "(u64 \<Rightarrow> bool) \<Rightarrow> document_session \<times> document \<Rightarrow> doc_command list \<Rightarrow> (document_session \<times> document) \<times> outbox" where
  "drain alive sd [] = (sd, [])"
| "drain alive sd (cmd # cmds) =
     (let (sd1, out1) = process_command alive sd cmd; (sd2, out2) = drain alive sd1 cmds
      in (sd2, out1 @ out2))"

definition run_drain ::
  "(u64 \<Rightarrow> bool) \<Rightarrow> document_session \<times> document \<Rightarrow> (document_session \<times> document) \<times> outbox" where
  "run_drain alive = (\<lambda>(ds, d). drain alive (ds\<lparr>command_queue := []\<rparr>, d) (command_queue ds))"

section \<open>Who receives what\<close>

lemma in_locked_send: "(sid, m) \<in> set (locked_send alive wp msg) \<longleftrightarrow> wp = Some sid \<and> alive sid \<and> m = msg"
  by (auto simp: locked_send_def split: option.splits)

definition connected :: "document_session \<Rightarrow> u32 \<Rightarrow> u64 \<Rightarrow> bool" where
  "connected ds uid sid = (\<exists>user. um_find (users_online ds) uid = Some user \<and> cu_session user = Some sid)"

lemma in_send_to_user:
  "(sid, m) \<in> set (send_to_user alive ds uid msg) \<longleftrightarrow> connected ds uid sid \<and> alive sid \<and> m = msg"
  by (cases "um_find (users_online ds) uid") (auto simp: send_to_user_def connected_def in_locked_send)

lemma in_broadcast:
  "um_wf (users_online ds) \<Longrightarrow> (sid, m) \<in> set (broadcast alive ds msg ex) \<longleftrightarrow>
     (\<exists>uid. uid \<noteq> ex \<and> connected ds uid sid) \<and> alive sid \<and> m = msg"
  by (fastforce simp: broadcast_def connected_def in_locked_send umap split: if_splits)

lemma process_command_wf:
  "um_wf (users_online ds) \<Longrightarrow> process_command alive (ds, d) cmd = ((ds', d'), out) \<Longrightarrow>
   um_wf (users_online ds') \<and> ds_docref ds' = ds_docref ds \<and> command_queue ds' = command_queue ds"
  by (auto simp: process_command_def handle_join_def handle_leave_def handle_operation_cmd_def handle_delete_def
      Let_def umap split: cmd_kind.splits prod.splits if_splits)

lemma drain_queue: "drain alive sd cmds = (sd', out) \<Longrightarrow> command_queue (fst sd') = command_queue (fst sd)"
proof (induction cmds arbitrary: sd out)
  case (Cons cmd cmds)
  obtain sd1 out1 where one: "process_command alive sd cmd = (sd1, out1)" by fastforce
  then have "command_queue (fst sd1) = command_queue (fst sd)"
    by (cases sd) (auto simp: process_command_def handle_join_def handle_leave_def handle_operation_cmd_def
        handle_delete_def Let_def split: cmd_kind.splits prod.splits if_splits)
  with Cons one show ?case by (auto split: prod.splits)
qed simp

section \<open>Properties\<close>

text \<open>
  C25: the outcome of an operation reaches the right connections. Processing an operation command
  applies it to the document as apply_with_ot does and changes nothing else in the session. If it
  is accepted, its author's connection gets one acknowledgement with the new revision and every
  other connected user's connection the transformed operation with the same revision; if it is
  too old, its author's connection gets the error and nobody else anything.
\<close>

theorem operation_delivery:
  assumes "um_wf (users_online ds)" "cmd_type cmd = OperationCmd"
    and "apply_with_ot d (cmd_operation cmd) = (d1, r)"
    and "process_command alive (ds, d) cmd = ((ds', d'), out)"
  shows "ds' = ds \<and> d' = d1 \<and> (\<forall>sid m. (sid, m) \<in> set out \<longleftrightarrow> alive sid \<and>
    (if ot_success r then
       (connected ds (cmd_userId cmd) sid
         \<and> m = OperationAckMsg \<lparr>ack_docId = doc_id d, ack_revision = revision d1\<rparr>)
       \<or> ((\<exists>v. v \<noteq> cmd_userId cmd \<and> connected ds v sid)
         \<and> m = OperationBroadcastMsg \<lparr>ob_docId = doc_id d, ob_userId = cmd_userId cmd,
             ob_username = cmd_username cmd, ob_revision = revision d1,
             ob_ops = [operation_entry (transformed_op r)]\<rparr>)
     else connected ds (cmd_userId cmd) sid
         \<and> m = ErrorMsg \<lparr>em_code = ''revision_too_old'', em_message = ot_error r\<rparr>))"
proof -
  have "doc_id d1 = doc_id d" using assms(3) by (metis apply_with_ot_frame(1) fst_conv)
  with assms show ?thesis
    by (auto simp: process_command_def handle_operation_cmd_def in_send_to_user in_broadcast split: if_splits)
qed

theorem operation_delivery_witness:
  "let u = (\<lambda>i. \<lparr>cu_userId = i, cu_username = ''x'', cu_color = '''', cu_session = Some (ucast i)\<rparr>);
       ds = \<lparr>ds_docref = 0, command_queue = [], users_online = [(1, u 1), (2, u 2)], stop_requested = False\<rparr>;
       cmd = (DocCommand OperationCmd)\<lparr>cmd_userId := 1, cmd_operation := make_insert 0 ''a'' 1 0\<rparr>;
       out = snd (process_command (\<lambda>_. True) (ds, load_content (Document 7 ''t'') ''AB'') cmd)
   in (1, OperationAckMsg \<lparr>ack_docId = 7, ack_revision = 1\<rparr>) \<in> set out
      \<and> (2, OperationAckMsg \<lparr>ack_docId = 7, ack_revision = 1\<rparr>) \<notin> set out"
proof -
  let ?u = "\<lambda>i. \<lparr>cu_userId = i, cu_username = ''x'', cu_color = '''', cu_session = Some (ucast i)\<rparr>"
  let ?ds = "\<lparr>ds_docref = 0, command_queue = [], users_online = [(1, ?u 1), (2, ?u 2)], stop_requested = False\<rparr>"
  let ?cmd = "(DocCommand OperationCmd)\<lparr>cmd_userId := 1, cmd_operation := make_insert 0 ''a'' 1 0\<rparr>"
  obtain d1 r where r: "apply_with_ot (load_content (Document 7 ''t'') ''AB'') (cmd_operation ?cmd) = (d1, r)" by fastforce
  obtain ds' d' out where p: "process_command (\<lambda>_. True) (?ds, load_content (Document 7 ''t'') ''AB'') ?cmd = ((ds', d'), out)"
    by (metis prod.collapse)
  have "um_wf (users_online ?ds)" "cmd_type ?cmd = OperationCmd"
    by (simp_all add: um_wf_def DocCommand_def)
  note D = operation_delivery [OF this r p]
  have fresh: "\<not> too_old (load_content (Document 7 ''t'') ''AB'') (cmd_operation ?cmd)"
    by (simp add: too_old_def load_content_def Document_def)
  have rv: "ot_success r" "unat (revision d1) = 1"
    using apply_with_ot_accepted [OF Document_represents fresh] r
    by (simp_all add: represents_def log_submit_def)
  from rv(2) have "revision d1 = 1" by (simp add: word_unat_eq_iff)
  have "connected ?ds 1 1" "\<not> connected ?ds 1 2"
    by (simp_all add: connected_def um_find_def)
  with D p rv \<open>revision d1 = 1\<close> show ?thesis by (simp add: Let_def DocCommand_def Document_def load_content_def)
qed

end
