(* ===== verification/Server_Manager.thy ===== *)
theory Server_Manager
  imports Server_Document Access_Control
begin

text \<open>
  The registry of documents and their sessions, \<^verbatim>\<open>server/src/document_manager.cpp\<close>, and the thread
  that writes documents to disk, \<^verbatim>\<open>server/src/autosave.cpp\<close>.

  A \<^verbatim>\<open>shared_ptr<Document>\<close> is an index into \<open>dm_heap\<close>: the manager, a session and autosave may hold
  the same document. Every method holds the manager's mutex (\<^verbatim>\<open>get_document\<close> releases it while it
  reads the disk and looks again afterwards), so it is one step. A session that was removed keeps
  running until its thread has drained its queue; such sessions are in \<open>stopping\<close>. The file
  system is a map from paths to contents; \<open>writable\<close> tells whether a stream can be opened for
  writing. The access rights are the object shared with the message handler.
\<close>

section \<open>State\<close>

record document_manager =
  dm_heap :: "document list"
  documents :: "(u32, nat) umap"
  titles :: "(u32, string) umap"
  sessions :: "(u32, document_session) umap"
  stopping :: "document_session list"
  cursor_buffers :: "(u32, (u32, cursor_state) umap) umap"
  next_doc_id :: u32
  data_dir :: string
  access :: rights
  files :: "(string, string) umap"
  folders :: "string list"

definition create_directories :: "string \<Rightarrow> document_manager \<Rightarrow> document_manager" where
  "create_directories path dm = dm\<lparr>folders := path # folders dm\<rparr>"

definition DocumentManager :: "rights \<Rightarrow> string \<Rightarrow> (string, string) umap \<Rightarrow> string list \<Rightarrow> document_manager" where
  "DocumentManager r dir fs dirs =
     create_directories (dir @ ''/snapshots'')
       (create_directories (dir @ ''/documents'')
         \<lparr>dm_heap = [], documents = [], titles = [], sessions = [], stopping = [], cursor_buffers = [],
          next_doc_id = 1, data_dir = dir, access = r, files = fs, folders = dirs\<rparr>)"

section \<open>Paths\<close>

definition doc_path :: "string \<Rightarrow> u32 \<Rightarrow> string" where
  "doc_path dir docId = dir @ ''/documents/'' @ decimal (unat docId) @ ''.txt''"

definition meta_path :: "string \<Rightarrow> u32 \<Rightarrow> string" where
  "meta_path dir docId = dir @ ''/documents/'' @ decimal (unat docId) @ ''.meta''"

definition snapshot_path :: "string \<Rightarrow> u32 \<Rightarrow> u32 \<Rightarrow> string" where
  "snapshot_path dir docId rv =
     dir @ ''/snapshots/'' @ decimal (unat docId) @ ''_'' @ decimal (unat rv) @ ''.txt''"

text \<open>Writing a whole file: opening truncates it; a stream that does not open writes nothing.\<close>

definition write_file :: "(string \<Rightarrow> bool) \<Rightarrow> string \<Rightarrow> string \<Rightarrow> (string, string) umap \<Rightarrow> (string, string) umap" where
  "write_file writable path body fs = (if writable path then um_set path body fs else fs)"

section \<open>Metadata and loading\<close>

definition save_meta :: "(string \<Rightarrow> bool) \<Rightarrow> document_manager \<Rightarrow> u32 \<Rightarrow> string \<Rightarrow> document_manager" where
  "save_meta writable dm docId ttl =
     dm\<lparr>files := write_file writable (meta_path (data_dir dm) docId) ttl (files dm)\<rparr>"

text \<open>\<^verbatim>\<open>std::getline\<close>: up to the first newline.\<close>

definition load_meta :: "document_manager \<Rightarrow> u32 \<Rightarrow> string" where
  "load_meta dm docId =
     (case um_find (files dm) (meta_path (data_dir dm) docId) of
        None \<Rightarrow> []
      | Some body \<Rightarrow> takeWhile (\<lambda>c. c \<noteq> CHR 0x0A) body)"

definition load_from_disk_unlocked :: "document_manager \<Rightarrow> u32 \<Rightarrow> document option" where
  "load_from_disk_unlocked dm docId =
     (case um_find (files dm) (doc_path (data_dir dm) docId) of
        None \<Rightarrow> None
      | Some body \<Rightarrow>
          (let ttl = load_meta dm docId;
               ttl = (if ttl = [] then ''Document '' @ decimal (unat docId) else ttl)
           in Some (load_content (Document docId ttl) body)))"

definition role_to_string :: "document_manager \<Rightarrow> u32 \<Rightarrow> u32 \<Rightarrow> string" where
  "role_to_string dm docId uid =
     (case get_role (access dm) docId uid of
        None \<Rightarrow> ''none'' | Some Owner \<Rightarrow> ''owner'' | Some Editor \<Rightarrow> ''editor'' | Some Viewer \<Rightarrow> ''viewer'')"

section \<open>Documents\<close>

definition create_document ::
  "(string \<Rightarrow> bool) \<Rightarrow> document_manager \<Rightarrow> string \<Rightarrow> u32 \<Rightarrow> document_manager \<times> u32" where
  "create_document writable dm ttl ownerId =
     (let docId = next_doc_id dm;
          dm = dm\<lparr>next_doc_id := next_doc_id dm + 1\<rparr>;
          dm = dm\<lparr>dm_heap := dm_heap dm @ [Document docId ttl],
                  documents := um_set docId (length (dm_heap dm)) (documents dm),
                  titles := um_set docId ttl (titles dm)\<rparr>;
          dm = dm\<lparr>access := grant (access dm) docId ownerId Owner\<rparr>;
          dm = dm\<lparr>files := write_file writable (doc_path (data_dir dm) docId) [] (files dm)\<rparr>
      in (save_meta writable dm docId ttl, docId))"

text \<open>The second critical section of \<^verbatim>\<open>get_document\<close>, after a document was loaded.\<close>

definition install_loaded :: "document_manager \<Rightarrow> u32 \<Rightarrow> document \<Rightarrow> document_manager \<times> nat" where
  "install_loaded dm docId loaded =
     (case um_find (documents dm) docId of
        Some r \<Rightarrow> (dm, r)
      | None \<Rightarrow>
          (let r = length (dm_heap dm);
               dm = dm\<lparr>dm_heap := dm_heap dm @ [loaded], documents := um_set docId r (documents dm),
                       titles := um_set docId (title loaded) (titles dm)\<rparr>
           in ((if next_doc_id dm \<le> docId then dm\<lparr>next_doc_id := docId + 1\<rparr> else dm), r)))"

definition get_document :: "document_manager \<Rightarrow> u32 \<Rightarrow> document_manager \<times> nat option" where
  "get_document dm docId =
     (case um_find (documents dm) docId of
        Some r \<Rightarrow> (dm, Some r)
      | None \<Rightarrow>
          (case load_from_disk_unlocked dm docId of
             None \<Rightarrow> (dm, None)
           | Some loaded \<Rightarrow> (let (dm, r) = install_loaded dm docId loaded in (dm, Some r))))"

definition remove_session :: "document_manager \<Rightarrow> u32 \<Rightarrow> document_manager" where
  "remove_session dm docId =
     (case um_find (sessions dm) docId of
        None \<Rightarrow> dm
      | Some ds \<Rightarrow> dm\<lparr>sessions := um_erase docId (sessions dm), stopping := request_stop ds # stopping dm\<rparr>)"

definition delete_document :: "document_manager \<Rightarrow> u32 \<Rightarrow> document_manager \<times> bool" where
  "delete_document dm docId =
     (let dm = dm\<lparr>documents := um_erase docId (documents dm), titles := um_erase docId (titles dm)\<rparr>;
          dm = (case um_find (sessions dm) docId of
                  None \<Rightarrow> dm
                | Some ds \<Rightarrow> dm\<lparr>sessions := um_erase docId (sessions dm),
                                stopping := request_stop ds # stopping dm\<rparr>);
          dm = dm\<lparr>cursor_buffers := um_erase docId (cursor_buffers dm),
                  access := revoke_all_for_document (access dm) docId\<rparr>;
          dm = dm\<lparr>files := um_erase (meta_path (data_dir dm) docId)
                            (um_erase (doc_path (data_dir dm) docId) (files dm))\<rparr>
      in (dm, True))"

definition deref :: "document_manager \<Rightarrow> nat \<Rightarrow> document" where
  "deref dm r = dm_heap dm ! r"

definition list_documents :: "document_manager \<Rightarrow> u32 \<Rightarrow> doc_list_entry list" where
  "list_documents dm uid =
     map (\<lambda>docId.
        \<lparr>dle_docId = docId,
         dle_title = (case um_find (titles dm) docId of None \<Rightarrow> [] | Some t \<Rightarrow> t),
         dle_role = role_to_string dm docId uid,
         dle_onlineCount = (case um_find (documents dm) docId of
            None \<Rightarrow> 0 | Some r \<Rightarrow> word_of_int (subscriber_count (deref dm r)))\<rparr>)
       (list_documents_for_user (access dm) uid)"

definition all_loaded_documents :: "document_manager \<Rightarrow> nat list" where
  "all_loaded_documents dm = map snd (documents dm)"

section \<open>Sessions and cursors\<close>

definition get_or_create_session :: "document_manager \<Rightarrow> u32 \<Rightarrow> document_manager \<times> document_session option" where
  "get_or_create_session dm docId =
     (case um_find (sessions dm) docId of
        Some ds \<Rightarrow> (dm, Some ds)
      | None \<Rightarrow>
          (case um_find (documents dm) docId of
             None \<Rightarrow> (dm, None)
           | Some r \<Rightarrow>
               (let ds = DocumentSession r
                in (dm\<lparr>sessions := um_set docId ds (sessions dm)\<rparr>, Some ds))))"

definition get_session :: "document_manager \<Rightarrow> u32 \<Rightarrow> document_session option" where
  "get_session dm docId = um_find (sessions dm) docId"

definition update_cursor :: "document_manager \<Rightarrow> u32 \<Rightarrow> cursor_state \<Rightarrow> document_manager" where
  "update_cursor dm docId st =
     (let m = (case um_find (cursor_buffers dm) docId of None \<Rightarrow> [] | Some m \<Rightarrow> m)
      in dm\<lparr>cursor_buffers := um_set docId (um_set (cur_userId st) st m) (cursor_buffers dm)\<rparr>)"

definition get_cursors :: "document_manager \<Rightarrow> u32 \<Rightarrow> (u32, cursor_state) umap" where
  "get_cursors dm docId = (case um_find (cursor_buffers dm) docId of None \<Rightarrow> [] | Some m \<Rightarrow> m)"

definition remove_cursor :: "document_manager \<Rightarrow> u32 \<Rightarrow> u32 \<Rightarrow> document_manager" where
  "remove_cursor dm docId uid =
     (case um_find (cursor_buffers dm) docId of
        None \<Rightarrow> dm
      | Some m \<Rightarrow> dm\<lparr>cursor_buffers := um_set docId (um_erase uid m) (cursor_buffers dm)\<rparr>)"

definition all_active_doc_ids :: "document_manager \<Rightarrow> u32 list" where
  "all_active_doc_ids dm = map fst (sessions dm)"

text \<open>A call through a \<^verbatim>\<open>shared_ptr<DocumentSession>\<close> that was looked up under \<open>docId\<close>.\<close>

definition enqueue_to :: "document_manager \<Rightarrow> u32 \<Rightarrow> doc_command \<Rightarrow> document_manager" where
  "enqueue_to dm docId cmd =
     (case um_find (sessions dm) docId of
        None \<Rightarrow> dm
      | Some ds \<Rightarrow> dm\<lparr>sessions := um_set docId (enqueue_command ds cmd) (sessions dm)\<rparr>)"

text \<open>One round of the thread of the session of \<open>docId\<close>.\<close>

definition session_thread ::
  "(u64 \<Rightarrow> bool) \<Rightarrow> document_manager \<Rightarrow> u32 \<Rightarrow> document_manager \<times> outbox" where
  "session_thread alive dm docId =
     (case um_find (sessions dm) docId of
        None \<Rightarrow> (dm, [])
      | Some ds \<Rightarrow>
          (let ((ds', d'), out) = run_step alive (ds, deref dm (ds_docref ds))
           in (dm\<lparr>sessions := um_set docId ds' (sessions dm),
                  dm_heap := (dm_heap dm)[ds_docref ds := d']\<rparr>, out)))"

text \<open>
  The destructor of a removed session: its thread drains the queue and is joined.
\<close>

definition retire :: "(u64 \<Rightarrow> bool) \<Rightarrow> document_session \<Rightarrow> document_manager \<times> outbox \<Rightarrow> document_manager \<times> outbox" where
  "retire alive ds = (\<lambda>(dm, out).
     let ((ds', d'), out') = run_drain alive (ds, deref dm (ds_docref ds))
     in (dm\<lparr>dm_heap := (dm_heap dm)[ds_docref ds := d']\<rparr>, out @ out'))"

definition join_stopped :: "(u64 \<Rightarrow> bool) \<Rightarrow> document_manager \<Rightarrow> document_manager \<times> outbox" where
  "join_stopped alive dm = fold (retire alive) (rev (stopping dm)) (dm\<lparr>stopping := []\<rparr>, [])"

section \<open>Autosave\<close>

text \<open>
  \<^verbatim>\<open>save_document\<close> in the three steps other threads can come between: reading the content,
  writing it, marking the document saved. The rename of the temporary file replaces the target.
\<close>

definition save_read :: "document \<Rightarrow> string \<times> u32" where
  "save_read d = (get_content d, revision d)"

definition save_write :: "(string \<Rightarrow> bool) \<Rightarrow> document_manager \<Rightarrow> u32 \<Rightarrow> string \<Rightarrow> document_manager \<times> bool" where
  "save_write writable dm docId body =
     (let path = doc_path (data_dir dm) docId; tmp_path = path @ ''.tmp''
      in if \<not> writable tmp_path then (dm, False)
         else (dm\<lparr>files := um_set path body (um_erase tmp_path (um_set tmp_path body (files dm)))\<rparr>, True))"

definition save_mark :: "document_manager \<Rightarrow> nat \<Rightarrow> document_manager" where
  "save_mark dm r = dm\<lparr>dm_heap := (dm_heap dm)[r := mark_saved (deref dm r)]\<rparr>"

definition save_document :: "(string \<Rightarrow> bool) \<Rightarrow> document_manager \<Rightarrow> nat \<Rightarrow> document_manager" where
  "save_document writable dm r =
     (let (body, rv) = save_read (deref dm r);
          (dm, ok) = save_write writable dm (doc_id (deref dm r)) body
      in if ok then save_mark dm r else dm)"

definition maybe_create_snapshot :: "(string \<Rightarrow> bool) \<Rightarrow> document_manager \<Rightarrow> nat \<Rightarrow> document_manager" where
  "maybe_create_snapshot writable dm r =
     (let d = deref dm r
      in if \<not> needs_snapshot d then dm
         else (let path = snapshot_path (data_dir dm) (doc_id d) (revision d)
               in if writable path then
                    dm\<lparr>files := um_set path (get_content d) (files dm),
                       dm_heap := (dm_heap dm)[r := mark_snapshot_created d]\<rparr>
                  else dm))"

definition force_save_all :: "(string \<Rightarrow> bool) \<Rightarrow> document_manager \<Rightarrow> document_manager" where
  "force_save_all writable dm = fold (\<lambda>r dm. save_document writable dm r) (all_loaded_documents dm) dm"

text \<open>One interval of \<^verbatim>\<open>AutosaveThread::run\<close>.\<close>

definition autosave_round :: "(string \<Rightarrow> bool) \<Rightarrow> document_manager \<Rightarrow> document_manager" where
  "autosave_round writable dm =
     fold (\<lambda>r dm. if is_dirty (deref dm r)
                   then maybe_create_snapshot writable (save_document writable dm r) r else dm)
       (all_loaded_documents dm) dm"

section \<open>The cursor aggregator\<close>

text \<open>
  The body of \<^verbatim>\<open>CursorAggregator::broadcast_loop\<close> (\<^verbatim>\<open>server/src/cursor_aggregator.cpp\<close>) for one document,
  and one interval.
\<close>

definition cursor_entry :: "cursor_state \<Rightarrow> cursor_info" where
  "cursor_entry st = \<lparr>ci_userId = cur_userId st, ci_username = cur_username st, ci_color = cur_color st,
     ci_position = cur_position st, ci_selectionStart = cur_selectionStart st,
     ci_selectionEnd = cur_selectionEnd st\<rparr>"

definition broadcast_cursors :: "(u64 \<Rightarrow> bool) \<Rightarrow> document_manager \<Rightarrow> u32 \<Rightarrow> outbox" where
  "broadcast_cursors alive dm docId =
     (let cursors = get_cursors dm docId
      in if cursors = [] then []
         else (case get_session dm docId of
                 None \<Rightarrow> []
               | Some ds \<Rightarrow>
                   (let msg = CursorBroadcastMsg \<lparr>cb_docId = docId, cb_cursors = map (cursor_entry \<circ> snd) cursors\<rparr>
                    in concat (map (\<lambda>user. locked_send alive (cu_session user) msg) (connected_users ds)))))"

definition cursor_round :: "(u64 \<Rightarrow> bool) \<Rightarrow> document_manager \<Rightarrow> outbox" where
  "cursor_round alive dm = concat (map (broadcast_cursors alive dm) (all_active_doc_ids dm))"

end
