(* ===== verification/Server_Session.thy ===== *)
theory Server_Session
  imports Wire_Frame
begin

text \<open>
  A connection on the server: \<^verbatim>\<open>server/src/client_session.cpp\<close>.

  The socket belongs to Boost.Asio. What the class relies on is written into the events of the
  model: \<^verbatim>\<open>async_read\<close> of a buffer completes when the buffer is full (for an empty buffer at once)
  or with an error, and \<^verbatim>\<open>async_write\<close> completes when everything is written or with an error. So
  the reading side consumes bytes (\<open>recv_byte\<close>) or an error (\<open>read_error\<close>), and the writing side
  a completion (\<open>write_done\<close>, \<open>write_error\<close>). Callbacks are events of the result.
\<close>

section \<open>State\<close>

datatype read_state =
  ReadHeader "u8 list"      \<comment> \<open>\<^verbatim>\<open>do_read_header\<close> is waiting, with the bytes it has\<close>
  | ReadBody u32 "u8 list"  \<comment> \<open>\<^verbatim>\<open>do_read_body\<close> is waiting\<close>
  | ReadStopped             \<comment> \<open>no read is pending any more\<close>

record client_session =
  session_id :: u64
  authenticated :: bool
  cs_userId :: u32
  cs_username :: string
  cs_color :: string
  currentDocId :: u32
  disconnected :: bool
  error_count :: u32
  write_queue :: "u8 list list"
  writing :: bool
  reading :: read_state
  socket_open :: bool

datatype cs_event = OnMessage string | OnDisconnect

definition ClientSession :: "u64 \<Rightarrow> client_session" where
  "ClientSession i = \<lparr>session_id = i, authenticated = False, cs_userId = 0, cs_username = [],
     cs_color = [], currentDocId = 0, disconnected = False, error_count = 0, write_queue = [],
     writing = False, reading = ReadStopped, socket_open = True\<rparr>"

section \<open>Requests of the server\<close>

definition set_auth :: "client_session \<Rightarrow> u32 \<Rightarrow> string \<Rightarrow> string \<Rightarrow> client_session" where
  "set_auth s uid uname col =
     s\<lparr>cs_userId := uid, cs_username := uname, cs_color := col, authenticated := True\<rparr>"

definition set_current_doc :: "client_session \<Rightarrow> u32 \<Rightarrow> client_session" where
  "set_current_doc s docId = s\<lparr>currentDocId := docId\<rparr>"

text \<open>\<^verbatim>\<open>fetch_add(1) + 1\<close>: the new value, as a 32-bit \<^verbatim>\<open>int\<close>.\<close>

definition increment_error_count :: "client_session \<Rightarrow> client_session \<times> u32" where
  "increment_error_count s = (s\<lparr>error_count := error_count s + 1\<rparr>, error_count s + 1)"

definition close_session :: "client_session \<Rightarrow> client_session" where
  "close_session s = s\<lparr>socket_open := False\<rparr>"

text \<open>
  \<^verbatim>\<open>do_write\<close> hands the front of the queue to \<^verbatim>\<open>async_write\<close>; the second component is what the
  socket is asked to write.
\<close>

definition do_write :: "client_session \<Rightarrow> client_session \<times> u8 list option" where
  "do_write s =
     (case write_queue s of
        [] \<Rightarrow> (s\<lparr>writing := False\<rparr>, None)
      | front # _ \<Rightarrow> (s, Some front))"

definition send :: "client_session \<Rightarrow> string \<Rightarrow> client_session \<times> u8 list option" where
  "send s json_payload =
     (if disconnected s then (s, None)
      else
        (let s = s\<lparr>write_queue := write_queue s @ [encode_frame json_payload]\<rparr>
         in if \<not> writing s then do_write (s\<lparr>writing := True\<rparr>) else (s, None)))"

section \<open>Completions\<close>

definition disconnect_once :: "client_session \<Rightarrow> client_session \<times> cs_event list" where
  "disconnect_once s =
     (if disconnected s then (s, []) else (s\<lparr>disconnected := True\<rparr>, [OnDisconnect]))"

definition write_done :: "client_session \<Rightarrow> client_session \<times> u8 list option" where
  "write_done s =
     (let s = s\<lparr>write_queue := tl (write_queue s)\<rparr>
      in if write_queue s \<noteq> [] then do_write s else (s\<lparr>writing := False\<rparr>, None))"

definition write_error :: "client_session \<Rightarrow> client_session \<times> cs_event list" where
  "write_error s = disconnect_once s"

definition read_error :: "client_session \<Rightarrow> client_session \<times> cs_event list" where
  "read_error s = disconnect_once (s\<lparr>reading := ReadStopped\<rparr>)"

definition do_read_header :: "client_session \<Rightarrow> client_session" where
  "do_read_header s = s\<lparr>reading := ReadHeader []\<rparr>"

definition start_session :: "client_session \<Rightarrow> client_session" where
  "start_session s = do_read_header s"

definition body_complete :: "client_session \<Rightarrow> u8 list \<Rightarrow> client_session \<times> cs_event list" where
  "body_complete s body_buf = (do_read_header s, [OnMessage (map to_char body_buf)])"

definition do_read_body :: "client_session \<Rightarrow> u32 \<Rightarrow> client_session \<times> cs_event list" where
  "do_read_body s body_length =
     (if body_length = 0 then body_complete s []
      else (s\<lparr>reading := ReadBody body_length []\<rparr>, []))"

definition header_complete :: "client_session \<Rightarrow> u8 list \<Rightarrow> client_session \<times> cs_event list" where
  "header_complete s header_buf =
     (case decode_frame_header header_buf of
        None \<Rightarrow> disconnect_once (close_session s\<lparr>reading := ReadStopped\<rparr>)
      | Some payload_len \<Rightarrow> do_read_body s payload_len)"

definition recv_byte :: "client_session \<Rightarrow> u8 \<Rightarrow> client_session \<times> cs_event list" where
  "recv_byte s b =
     (case reading s of
        ReadHeader bs \<Rightarrow>
          if length bs + 1 < 4 then (s\<lparr>reading := ReadHeader (bs @ [b])\<rparr>, [])
          else header_complete s (bs @ [b])
      | ReadBody n bs \<Rightarrow>
          if length bs + 1 < unat n then (s\<lparr>reading := ReadBody n (bs @ [b])\<rparr>, [])
          else body_complete s (bs @ [b])
      | ReadStopped \<Rightarrow> (s, []))"

fun recv_bytes :: "client_session \<Rightarrow> u8 list \<Rightarrow> client_session \<times> cs_event list" where
  "recv_bytes s [] = (s, [])"
| "recv_bytes s (b # bs) =
     (let (s1, ev1) = recv_byte s b; (s2, ev2) = recv_bytes s1 bs in (s2, ev1 @ ev2))"

section \<open>The session as a receiver of frames\<close>

fun payloads :: "cs_event list \<Rightarrow> string list" where
  "payloads [] = []"
| "payloads (OnMessage m # es) = m # payloads es"
| "payloads (OnDisconnect # es) = payloads es"

lemma payloads_append [simp]: "payloads (es @ fs) = payloads es @ payloads fs"
  by (induction es rule: payloads.induct) simp_all

definition session_recv :: "client_session \<Rightarrow> u8 list \<Rightarrow> client_session \<times> string list" where
  "session_recv s bs = map_prod id payloads (recv_bytes s bs)"

lemma recv_bytes_append:
  "recv_bytes s (xs @ ys) =
     (let (t, ms) = recv_bytes s xs; (u, ns) = recv_bytes t ys in (u, ms @ ns))"
  by (induction xs arbitrary: s) (simp_all add: split_beta)

lemma recv_body:
  "reading s = ReadBody n bs \<Longrightarrow> length bs + length p = unat n \<Longrightarrow> p \<noteq> [] \<Longrightarrow>
   recv_bytes s p = (do_read_header s, [OnMessage (map to_char (bs @ p))])"
proof (induction p arbitrary: s bs)
  case (Cons b p)
  show ?case
  proof (cases "p = []")
    case True
    with Cons.prems show ?thesis by (simp add: recv_byte_def body_complete_def)
  next
    case False
    let ?t = "s\<lparr>reading := ReadBody n (bs @ [b])\<rparr>"
    have "recv_bytes ?t p = (do_read_header ?t, [OnMessage (map to_char ((bs @ [b]) @ p))])"
      using Cons.prems False by (intro Cons.IH) simp_all
    moreover have "recv_byte s b = (?t, [])"
      using Cons.prems False by (cases p) (simp_all add: recv_byte_def)
    ultimately show ?thesis by (simp add: do_read_header_def)
  qed
qed simp

lemma recv_one_frame:
  assumes "reading s = ReadHeader []" "length p \<le> 16777216"
  shows "recv_bytes s (encode_frame p) = (s, [OnMessage p])"
proof -
  obtain h0 h1 h2 h3 where h: "encode_frame p = [h0, h1, h2, h3] @ map to_byte p"
    by (simp add: encode_frame_def Let_def)
  have "decode_frame_header [h0, h1, h2, h3] = Some (size32 p)"
    using decode_header_fits [OF assms(2), of "[]"] decode_header_append [of "[h0, h1, h2, h3]" "map to_byte p"]
    by (simp add: h)
  then have head: "recv_bytes s [h0, h1, h2, h3] = do_read_body s (size32 p)"
    using assms(1) by (simp add: recv_byte_def header_complete_def do_read_body_def body_complete_def
        do_read_header_def split_beta)
  have len: "unat (size32 p) = length p" using assms(2) by (simp add: unat_size32)
  have idle: "do_read_header s = s" using assms(1) by (simp add: do_read_header_def)
  show ?thesis
  proof (cases "p = []")
    case True
    then have "do_read_body s (size32 p) = (s, [OnMessage p])"
      using idle by (simp add: do_read_body_def body_complete_def)
    then show ?thesis unfolding h recv_bytes_append head by (simp add: True)
  next
    case False
    with len have "size32 p \<noteq> 0" by (metis length_0_conv unat_0)
    then have "do_read_body s (size32 p) = (s\<lparr>reading := ReadBody (size32 p) []\<rparr>, [])"
      by (simp add: do_read_body_def)
    moreover have "recv_bytes (s\<lparr>reading := ReadBody (size32 p) []\<rparr>) (map to_byte p) = (s, [OnMessage p])"
      using False len idle
      by (subst recv_body [of _ "size32 p" "[]"]) (simp_all add: do_read_header_def comp_def)
    ultimately show ?thesis unfolding h recv_bytes_append head by simp
  qed
qed

interpretation server_rx: frame_receiver session_recv "\<lambda>s. reading s = ReadHeader []"
proof
  show "session_recv s (xs @ ys) =
      (let (t, ms) = session_recv s xs; (u, ns) = session_recv t ys in (u, ms @ ns))" for s xs ys
    by (simp add: session_recv_def recv_bytes_append split_beta)
qed (simp_all add: session_recv_def recv_one_frame)

section \<open>The session as a whole\<close>

datatype cs_input = Bytes "u8 list" | ReadFails | WriteCompletes | WriteFails | SendCalled string

definition cs_step :: "client_session \<Rightarrow> cs_input \<Rightarrow> client_session \<times> cs_event list \<times> u8 list option" where
  "cs_step s i =
     (case i of
        Bytes bs \<Rightarrow> (let (t, es) = recv_bytes s bs in (t, es, None))
      | ReadFails \<Rightarrow> (let (t, es) = read_error s in (t, es, None))
      | WriteCompletes \<Rightarrow> (let (t, w) = write_done s in (t, [], w))
      | WriteFails \<Rightarrow> (let (t, es) = write_error s in (t, es, None))
      | SendCalled m \<Rightarrow> (let (t, w) = send s m in (t, [], w)))"

fun cs_run :: "client_session \<Rightarrow> cs_input list \<Rightarrow> client_session \<times> cs_event list \<times> u8 list list" where
  "cs_run s [] = (s, [], [])"
| "cs_run s (i # is) =
     (let (t, es, w) = cs_step s i; (u, fs, ws) = cs_run t is
      in (u, es @ fs, (case w of None \<Rightarrow> [] | Some f \<Rightarrow> [f]) @ ws))"

definition disconnects :: "cs_event list \<Rightarrow> nat" where
  "disconnects es = length (filter (\<lambda>e. e = OnDisconnect) es)"

lemma disconnects_append [simp]: "disconnects (es @ fs) = disconnects es + disconnects fs"
  by (simp add: disconnects_def)

lemma disconnects_simps [simp]:
  "disconnects [] = 0" "disconnects [OnMessage m] = 0" "disconnects [OnDisconnect] = 1"
  by (simp_all add: disconnects_def)

text \<open>A step reports the loss of the connection exactly when it sets the flag.\<close>

lemma disconnect_once_count:
  "disconnect_once s = (t, es) \<Longrightarrow>
   disconnects es = of_bool (\<not> disconnected s) \<and> disconnected t"
  by (auto simp: disconnect_once_def split: if_splits)

definition flag_matches :: "client_session \<Rightarrow> cs_event list \<Rightarrow> client_session \<Rightarrow> bool" where
  "flag_matches s es t = (of_bool (disconnected s) + disconnects es = of_bool (disconnected t))"

lemma flag_matches_trans: "flag_matches s es t \<Longrightarrow> flag_matches t fs u \<Longrightarrow> flag_matches s (es @ fs) u"
  by (simp add: flag_matches_def)

lemma flag_matches_simps [simp]: "flag_matches s [] s" "disconnect_once s = (t, es) \<Longrightarrow> flag_matches s es t"
  using disconnect_once_count [of s t es] by (auto simp: flag_matches_def)

lemma recv_byte_flag: "recv_byte s b = (t, es) \<Longrightarrow> flag_matches s es t"
  by (auto simp: recv_byte_def header_complete_def do_read_body_def body_complete_def do_read_header_def
      disconnect_once_def close_session_def flag_matches_def split: read_state.splits if_splits option.splits)

lemma recv_bytes_flag: "recv_bytes s bs = (t, es) \<Longrightarrow> flag_matches s es t"
proof (induction bs arbitrary: s es)
  case (Cons b bs)
  then show ?case
    by (auto split: prod.splits intro: flag_matches_trans recv_byte_flag Cons.IH)
qed simp

lemma writer_flag:
  "disconnected (fst (send s m)) = disconnected s" "disconnected (fst (write_done s)) = disconnected s"
  by (simp_all add: send_def write_done_def do_write_def Let_def split: list.splits)

lemma cs_step_flag: "cs_step s i = (t, es, w) \<Longrightarrow> flag_matches s es t"
proof (cases i)
  case ReadFails
  moreover assume "cs_step s i = (t, es, w)"
  ultimately have "disconnect_once (s\<lparr>reading := ReadStopped\<rparr>) = (t, es)"
    by (simp add: cs_step_def read_error_def split_beta prod_eq_iff)
  then show ?thesis using disconnect_once_count by (fastforce simp: flag_matches_def)
next
  case WriteFails
  moreover assume "cs_step s i = (t, es, w)"
  ultimately have "disconnect_once s = (t, es)"
    by (simp add: cs_step_def write_error_def split_beta prod_eq_iff)
  then show ?thesis by simp
next
  case (SendCalled m)
  moreover assume "cs_step s i = (t, es, w)"
  ultimately show ?thesis using writer_flag(1) [of s m] by (auto simp: cs_step_def flag_matches_def split_beta)
next
  case WriteCompletes
  moreover assume "cs_step s i = (t, es, w)"
  ultimately show ?thesis using writer_flag(2) [of s] by (auto simp: cs_step_def flag_matches_def split_beta)
qed (auto simp: cs_step_def recv_bytes_flag split: prod.splits)

lemma cs_run_flag: "cs_run s is = (t, es, ws) \<Longrightarrow> flag_matches s es t"
proof (induction "is" arbitrary: s es ws)
  case (Cons i "is")
  then show ?case
    by (auto split: prod.splits intro: flag_matches_trans cs_step_flag Cons.IH)
qed simp

text \<open>
  The writing side. \<open>write_inv s finished accepted\<close>: the frames of the accepted payloads are the
  finished ones followed by the queue, and a write is in progress exactly when the queue is not empty.
\<close>

definition write_inv :: "client_session \<Rightarrow> u8 list list \<Rightarrow> string list \<Rightarrow> bool" where
  "write_inv s finished accepted =
     (finished @ write_queue s = map encode_frame accepted \<and> (writing s \<longleftrightarrow> write_queue s \<noteq> []))"

fun write_inputs_ok :: "client_session \<Rightarrow> cs_input list \<Rightarrow> bool" where
  "write_inputs_ok s [] = True"
| "write_inputs_ok s (i # is) =
     ((case i of SendCalled m \<Rightarrow> \<not> disconnected s | WriteCompletes \<Rightarrow> writing s | _ \<Rightarrow> False)
      \<and> write_inputs_ok (fst (cs_step s i)) is)"

definition sends :: "cs_input list \<Rightarrow> string list" where
  "sends is = concat (map (\<lambda>i. case i of SendCalled m \<Rightarrow> [m] | _ \<Rightarrow> []) is)"

lemma send_write_inv:
  assumes "write_inv s fin acc" "\<not> disconnected s" "send s m = (t, w)"
  shows "write_inv t fin (acc @ [m])
    \<and> fin @ take 1 (write_queue t) = (fin @ take 1 (write_queue s)) @ (case w of None \<Rightarrow> [] | Some f \<Rightarrow> [f])"
  using assms by (cases "write_queue s") (auto simp: write_inv_def send_def do_write_def Let_def)

lemma write_done_write_inv:
  assumes "write_inv s fin acc" "writing s" "write_done s = (t, w)"
  shows "\<exists>f. write_inv t (fin @ [f]) acc
    \<and> (fin @ [f]) @ take 1 (write_queue t) = (fin @ take 1 (write_queue s)) @ (case w of None \<Rightarrow> [] | Some f \<Rightarrow> [f])"
  using assms
  by (cases "write_queue s"; cases "tl (write_queue s)")
    (auto simp: write_inv_def write_done_def do_write_def Let_def)

lemma cs_run_write_inv:
  assumes "write_inv s fin acc" "write_inputs_ok s is" "cs_run s is = (t, es, ws)"
  shows "\<exists>fin'. write_inv t fin' (acc @ sends is) \<and> fin' @ take 1 (write_queue t) = (fin @ take 1 (write_queue s)) @ ws"
  using assms
proof (induction "is" arbitrary: s fin acc es ws)
  case Nil
  then show ?case by (auto simp: sends_def)
next
  case (Cons i "is")
  obtain s1 e1 w where one: "cs_step s i = (s1, e1, w)" by (metis prod_cases3)
  obtain e2 ws2 where rest: "cs_run s1 is = (t, e2, ws2)"
    and ws: "ws = (case w of None \<Rightarrow> [] | Some f \<Rightarrow> [f]) @ ws2"
    using Cons.prems(3) one by (auto split: prod.splits)
  have ok: "write_inputs_ok s1 is" using Cons.prems(2) one by simp
  consider m where "i = SendCalled m" "\<not> disconnected s" | "i = WriteCompletes" "writing s"
    using Cons.prems(2) by (cases i) auto
  then obtain fin1 where "write_inv s1 fin1 (acc @ sends [i])"
    "fin1 @ take 1 (write_queue s1) = (fin @ take 1 (write_queue s)) @ (case w of None \<Rightarrow> [] | Some f \<Rightarrow> [f])"
  proof cases
    case (1 m)
    then have "send s m = (s1, w)" using one by (auto simp: cs_step_def split: prod.splits)
    from send_write_inv [OF Cons.prems(1) 1(2) this] 1 show ?thesis by (intro that) (auto simp: sends_def)
  next
    case 2
    then have "write_done s = (s1, w)" using one by (auto simp: cs_step_def split: prod.splits)
    from write_done_write_inv [OF Cons.prems(1) 2(2) this] 2 show ?thesis by (elim exE, intro that) (auto simp: sends_def)
  qed
  with Cons.IH [OF this(1) ok rest] ws show ?case by (auto simp: sends_def)
qed

section \<open>Properties\<close>

text \<open>
  C21: the server reassembles what clients send. However the transport cuts a sequence of frames
  (each payload at most 16 MiB) into chunks, the session delivers exactly the payloads, in order,
  and is again waiting for a header.
\<close>

theorem server_reassembles_frames:
  assumes "reading s = ReadHeader []" "\<forall>p \<in> set ps. length p \<le> 16777216"
    and "concat chunks = concat (map encode_frame ps)"
  shows "feed_chunks session_recv s chunks = (s, ps)"
  by (rule server_rx.recv_any_chunks [OF assms(1,3,2)])

theorem server_reassembles_frames_witness:
  "snd (feed_chunks session_recv (start_session (ClientSession 1))
     [take 3 (encode_frame ''ab''), drop 3 (encode_frame ''ab''), encode_frame '''']) = [''ab'', '''']"
  by (subst server_reassembles_frames [of _ "[''ab'', '''']"])
    (simp_all add: start_session_def do_read_header_def)

text \<open>
  C22: the loss of a connection is reported once. Over any sequence of reads, failures, completed
  writes and sends, the disconnect callback runs at most once, and it has run exactly when the
  session is marked disconnected.
\<close>

theorem disconnect_reported_once:
  assumes "cs_run (start_session (ClientSession i)) inputs = (s, es, ws)"
  shows "disconnects es = of_bool (disconnected s)"
  using cs_run_flag [OF assms] by (simp add: flag_matches_def start_session_def do_read_header_def ClientSession_def)

theorem disconnect_reported_once_witness:
  "disconnects (fst (snd (cs_run (start_session (ClientSession 1)) [ReadFails, WriteFails, ReadFails]))) = 1"
proof -
  obtain s es ws where run: "cs_run (start_session (ClientSession 1)) [ReadFails, WriteFails, ReadFails] = (s, es, ws)"
    by (metis prod_cases3)
  then have "disconnected s"
    by (auto simp: cs_step_def read_error_def write_error_def disconnect_once_def split: if_splits)
  with disconnect_reported_once [OF run] run show ?thesis by simp
qed

text \<open>
  Frames leave in the order of the sends, one at a time. Over any sequence of sends and
  completed writes on a live connection, the frames handed to the socket are a prefix of the
  frames of all payloads sent, no write is started while another is in progress, and a write is
  in progress as long as frames are queued: the frames not handed over yet are the rest of the queue.
\<close>

lemma session_writes_in_order:
  assumes "write_inputs_ok (start_session (ClientSession i)) inputs"
    and "cs_run (start_session (ClientSession i)) inputs = (s, es, ws)"
  shows "ws @ drop 1 (write_queue s) = map encode_frame (sends inputs)
    \<and> (writing s \<longleftrightarrow> write_queue s \<noteq> [])"
proof -
  let ?s = "start_session (ClientSession i)"
  have empty: "write_queue ?s = []" "\<not> writing ?s"
    by (simp_all add: start_session_def do_read_header_def ClientSession_def)
  then have "write_inv ?s [] []" by (simp add: write_inv_def)
  from cs_run_write_inv [OF this assms] obtain fin where
    "write_inv s fin (sends inputs)" "fin @ take 1 (write_queue s) = ws"
    by (auto simp: empty)
  then show ?thesis unfolding write_inv_def by (metis append.assoc append_take_drop_id)
qed

lemma session_writes_in_order_witness:
  "let r = cs_run (start_session (ClientSession 1)) [SendCalled ''a'', SendCalled ''b'', WriteCompletes]
   in snd (snd r) @ drop 1 (write_queue (fst r)) = [encode_frame ''a'', encode_frame ''b'']"
proof -
  let ?is = "[SendCalled ''a'', SendCalled ''b'', WriteCompletes]"
  obtain s es ws where run: "cs_run (start_session (ClientSession 1)) ?is = (s, es, ws)"
    by (metis prod_cases3)
  have "write_inputs_ok (start_session (ClientSession 1)) ?is"
    by (simp add: cs_step_def send_def do_write_def Let_def start_session_def do_read_header_def ClientSession_def)
  from session_writes_in_order [OF this run] run show ?thesis by (simp add: Let_def sends_def del: cs_run.simps)
qed

end
