(* ===== verification/Server_Handler.thy ===== *)
theory Server_Handler
  imports Server_Colour Server_Manager Server_Session Auth_Manager Wire_Codec
begin

text \<open>
  The request handlers of the server, \<^verbatim>\<open>server/src/message_handler.cpp\<close>, with the table of connections
  of \<^verbatim>\<open>server/src/tcp_server.cpp\<close> and the disconnect and shutdown code of \<^verbatim>\<open>server/src/main.cpp\<close>.

  A \<^verbatim>\<open>shared_ptr<ClientSession>\<close> is the number of the session; the objects are in \<open>conns\<close>, and
  \<open>registered\<close> lists the ones in \<^verbatim>\<open>TcpServer::sessions_\<close>. A handler takes and returns the whole server
  state together with a flag that tells whether a \<^verbatim>\<open>nlohmann::json::exception\<close> escaped; effects
  before the exception stay. \<open>sent\<close> is a record of the messages handed to connections, for the
  statements of theorems. Parameters: the JSON library \<open>J\<close>, the digest and the random bytes of the
  password code, \<open>writable\<close> of the file system, \<open>fused\<close> for the rounding the compiler
  chooses in \<^verbatim>\<open>generate_color\<close>, and \<open>what\<close> for the text of an exception.
\<close>

section \<open>State\<close>

record server =
  auth :: auth_manager
  dm :: document_manager
  conns :: "(u64, client_session) umap"
  registered :: "u64 list"
  next_session_id :: u64
  accepting :: bool
  sent :: outbox

text \<open>What the handlers are given from outside.\<close>

record 'j env =
  json :: "'j json_api"
  digest :: "string \<Rightarrow> u8 list"
  rnd :: "nat \<Rightarrow> u8 list"
  writable :: "string \<Rightarrow> bool"
  fused :: bool
  what :: string

definition conn :: "server \<Rightarrow> u64 \<Rightarrow> client_session" where
  "conn sv sid = (case um_find (conns sv) sid of Some s \<Rightarrow> s | None \<Rightarrow> ClientSession sid)"

definition put_conn :: "server \<Rightarrow> u64 \<Rightarrow> client_session \<Rightarrow> server" where
  "put_conn sv sid s = sv\<lparr>conns := um_set sid s (conns sv)\<rparr>"

type_synonym outcome = "server \<times> bool"

text \<open>Sequencing: an escaping exception skips the rest.\<close>

definition andthen :: "outcome \<Rightarrow> (server \<Rightarrow> outcome) \<Rightarrow> outcome" where
  "andthen o1 f = (if snd o1 then o1 else f (fst o1))"

text \<open>\<^verbatim>\<open>session->send(serialize(msg))\<close>\<close>

definition send_msg :: "'j env \<Rightarrow> server \<Rightarrow> u64 \<Rightarrow> message \<Rightarrow> outcome" where
  "send_msg E sv sid msg =
     (case serialize (json E) msg of
        None \<Rightarrow> (sv, True)
      | Some payload \<Rightarrow>
          ((put_conn sv sid (fst (send (conn sv sid) payload)))\<lparr>sent := sent sv @ [(sid, msg)]\<rparr>, False))"

text \<open>The messages of a document session, handed to their connections.\<close>

definition deliver :: "'j env \<Rightarrow> server \<Rightarrow> outbox \<Rightarrow> server" where
  "deliver E sv out = fold (\<lambda>(sid, msg) sv. fst (send_msg E sv sid msg)) out sv"

text \<open>One round of the thread of a document session, inside the server.\<close>

definition document_thread :: "'j env \<Rightarrow> (u64 \<Rightarrow> bool) \<Rightarrow> server \<Rightarrow> u32 \<Rightarrow> server" where
  "document_thread E alive sv docId =
     (let (m, out) = session_thread alive (dm sv) docId in deliver E (sv\<lparr>dm := m\<rparr>) out)"

section \<open>The table of connections\<close>

definition accept :: "server \<Rightarrow> server" where
  "accept sv =
     (let sid = next_session_id sv
      in (put_conn sv sid (start_session (ClientSession sid)))
           \<lparr>next_session_id := next_session_id sv + 1, registered := sid # registered sv\<rparr>)"

definition find_session_by_user_id :: "server \<Rightarrow> u32 \<Rightarrow> u64 option" where
  "find_session_by_user_id sv uid =
     find (\<lambda>sid. authenticated (conn sv sid) \<and> cs_userId (conn sv sid) = uid) (registered sv)"

definition tcp_remove_session :: "server \<Rightarrow> u64 \<Rightarrow> server" where
  "tcp_remove_session sv sid = sv\<lparr>registered := filter (\<lambda>i. i \<noteq> sid) (registered sv)\<rparr>"

text \<open>\<^verbatim>\<open>broadcast_all(serialize(msg))\<close>: the payload is written once, before the loop.\<close>

definition broadcast_all :: "'j env \<Rightarrow> server \<Rightarrow> message \<Rightarrow> outcome" where
  "broadcast_all E sv msg =
     (if serialize (json E) msg = None then (sv, True)
      else (fold (\<lambda>sid sv. fst (send_msg E sv sid msg)) (registered sv) sv, False))"

section \<open>Handlers\<close>

definition send_error :: "'j env \<Rightarrow> server \<Rightarrow> u64 \<Rightarrow> string \<Rightarrow> string \<Rightarrow> outcome" where
  "send_error E sv sid code msg =
     andthen (send_msg E sv sid (ErrorMsg \<lparr>em_code = code, em_message = msg\<rparr>))
       (\<lambda>sv. if code = ''invalid_message'' then
               (let (s, n) = increment_error_count (conn sv sid)
                in (put_conn sv sid (if 3 \<le> sint n then close_session s else s), False))
             else (sv, False))"

definition check_auth :: "'j env \<Rightarrow> server \<Rightarrow> u64 \<Rightarrow> message_type \<Rightarrow> outcome \<times> bool" where
  "check_auth E sv sid t =
     (if t = AuthRequest then ((sv, False), True)
      else if \<not> authenticated (conn sv sid) then
        (send_error E sv sid ''not_authenticated'' ''Authentication required'', False)
      else ((sv, False), True))"

definition handle_auth_request :: "'j env \<Rightarrow> server \<Rightarrow> u64 \<Rightarrow> 'j \<Rightarrow> outcome" where
  "handle_auth_request E sv sid j =
     (case from_json_AuthRequest (json E) j of
        None \<Rightarrow> (sv, True)
      | Some msg \<Rightarrow>
          if areq_action msg \<noteq> ''login'' \<and> areq_action msg \<noteq> ''register'' then
            send_error E sv sid ''invalid_message'' ''Invalid action''
          else
            (let (a, result) =
               (if areq_action msg = ''register''
                then register_user (digest E) (rnd E) (auth sv) (areq_username msg) (areq_password msg)
                else (auth sv, login (digest E) (auth sv) (areq_username msg) (areq_password msg)));
                 sv = sv\<lparr>auth := a\<rparr>
             in if auth_success result then
                  (let sv = put_conn sv sid (set_auth (conn sv sid) (auth_userId result)
                              (areq_username msg) (generate_color (fused E) (auth_userId result)))
                   in send_msg E sv sid (AuthResponseMsg
                        \<lparr>ares_success = True, ares_userId = auth_userId result, ares_error = []\<rparr>))
                else
                  (let err = (if auth_error result = ''duplicate_username'' then ''username_taken''
                              else auth_error result)
                   in send_msg E sv sid (AuthResponseMsg
                        \<lparr>ares_success = False, ares_userId = 0, ares_error = err\<rparr>))))"

definition handle_doc_list :: "'j env \<Rightarrow> server \<Rightarrow> u64 \<Rightarrow> outcome" where
  "handle_doc_list E sv sid =
     send_msg E sv sid (DocListResponseMsg
       \<lparr>dlres_documents = list_documents (dm sv) (cs_userId (conn sv sid))\<rparr>)"

definition handle_doc_create :: "'j env \<Rightarrow> server \<Rightarrow> u64 \<Rightarrow> 'j \<Rightarrow> outcome" where
  "handle_doc_create E sv sid j =
     (case from_json_DocCreateRequest (json E) j of
        None \<Rightarrow> (sv, True)
      | Some msg \<Rightarrow>
          (let (m, docId) = create_document (writable E) (dm sv) (dcreq_title msg) (cs_userId (conn sv sid));
               sv = sv\<lparr>dm := m\<rparr>
           in send_msg E sv sid (DocCreateResponseMsg \<lparr>dcres_success = True, dcres_docId = docId\<rparr>)))"

definition join_failure :: "string \<Rightarrow> message" where
  "join_failure err = DocJoinResponseMsg
     \<lparr>djres_success = False, djres_docId = 0, djres_title = [], djres_content = [], djres_revision = 0,
      djres_role = [], djres_users = [], djres_error = err\<rparr>"

definition handle_doc_join :: "'j env \<Rightarrow> server \<Rightarrow> u64 \<Rightarrow> 'j \<Rightarrow> outcome" where
  "handle_doc_join E sv sid j =
     (case from_json_DocJoinRequest (json E) j of
        None \<Rightarrow> (sv, True)
      | Some msg \<Rightarrow>
          (let docId = djreq_docId msg; uid = cs_userId (conn sv sid)
           in if \<not> can_read (access (dm sv)) docId uid then send_msg E sv sid (join_failure ''access_denied'')
              else
                (let (m, docref) = get_document (dm sv) docId; sv = sv\<lparr>dm := m\<rparr>
                 in case docref of
                      None \<Rightarrow> send_msg E sv sid (join_failure ''doc_not_found'')
                    | Some r \<Rightarrow>
                        (let (m, ds) = get_or_create_session (dm sv) docId; sv = sv\<lparr>dm := m\<rparr>
                         in case ds of
                              None \<Rightarrow> send_msg E sv sid (join_failure ''doc_not_found'')
                            | Some ds \<Rightarrow>
                                (let role_str = role_to_string (dm sv) docId uid;
                                     d = deref (dm sv) r;
                                     users' = map (\<lambda>cu. \<lparr>ui_userId = cu_userId cu, ui_username = cu_username cu,
                                                        ui_color = cu_color cu\<rparr>) (connected_users ds);
                                     sv = put_conn sv sid (set_current_doc (conn sv sid) docId)
                                 in andthen
                                      (send_msg E sv sid (DocJoinResponseMsg
                                         \<lparr>djres_success = True, djres_docId = docId, djres_title = title d,
                                          djres_content = get_content d, djres_revision = revision d,
                                          djres_role = role_str, djres_users = users', djres_error = []\<rparr>))
                                      (\<lambda>sv. (sv\<lparr>dm := enqueue_to (dm sv) docId
                                          ((DocCommand JoinCmd)\<lparr>cmd_userId := cs_userId (conn sv sid),
                                             cmd_username := cs_username (conn sv sid),
                                             cmd_color := cs_color (conn sv sid), cmd_session := Some sid\<rparr>)\<rparr>,
                                         False)))))))"

definition leave_command :: "client_session \<Rightarrow> doc_command" where
  "leave_command s = (DocCommand LeaveCmd)\<lparr>cmd_userId := cs_userId s, cmd_username := cs_username s\<rparr>"

definition handle_doc_leave :: "'j env \<Rightarrow> server \<Rightarrow> u64 \<Rightarrow> 'j \<Rightarrow> outcome" where
  "handle_doc_leave E sv sid j =
     (case from_json_DocLeaveRequest (json E) j of
        None \<Rightarrow> (sv, True)
      | Some msg \<Rightarrow>
          (let sv = sv\<lparr>dm := enqueue_to (dm sv) (dlreq_docId msg) (leave_command (conn sv sid))\<rparr>;
               sv = put_conn sv sid (set_current_doc (conn sv sid) 0)
           in send_msg E sv sid (DocLeaveResponseMsg \<lparr>dlvres_success = True\<rparr>)))"

definition handle_doc_delete :: "'j env \<Rightarrow> server \<Rightarrow> u64 \<Rightarrow> 'j \<Rightarrow> outcome" where
  "handle_doc_delete E sv sid j =
     (case from_json_DocDeleteRequest (json E) j of
        None \<Rightarrow> (sv, True)
      | Some msg \<Rightarrow>
          if \<not> can_delete (access (dm sv)) (ddreq_docId msg) (cs_userId (conn sv sid)) then
            andthen (send_error E sv sid ''access_denied'' ''Only owner can delete documents'')
              (\<lambda>sv. send_msg E sv sid (DocDeleteResponseMsg \<lparr>ddres_success = False\<rparr>))
          else
            (let m = enqueue_to (dm sv) (ddreq_docId msg) (DocCommand DeleteCmd);
                 sv = sv\<lparr>dm := fst (delete_document m (ddreq_docId msg))\<rparr>
             in send_msg E sv sid (DocDeleteResponseMsg \<lparr>ddres_success = True\<rparr>)))"

definition handle_doc_share :: "'j env \<Rightarrow> server \<Rightarrow> u64 \<Rightarrow> 'j \<Rightarrow> outcome" where
  "handle_doc_share E sv sid j =
     (case from_json_DocShareRequest (json E) j of
        None \<Rightarrow> (sv, True)
      | Some msg \<Rightarrow>
          (let docId = dsreq_docId msg; r = access (dm sv)
           in if \<not> can_share r docId (cs_userId (conn sv sid)) then
                send_error E sv sid ''access_denied'' ''Only owner can manage access''
              else
                (case find_user_id (auth sv) (dsreq_targetUsername msg) of
                   None \<Rightarrow> send_error E sv sid ''user_not_found'' ''Target user not found''
                 | Some target \<Rightarrow>
                     if target = cs_userId (conn sv sid) then
                       send_error E sv sid ''cannot_modify_own_role'' ''Cannot modify own role''
                     else
                       (case (if dsreq_role msg = ''none'' then Some (revoke r docId target)
                              else if dsreq_role msg = ''editor'' then Some (grant r docId target Editor)
                              else if dsreq_role msg = ''viewer'' then Some (grant r docId target Viewer)
                              else None) of
                          None \<Rightarrow> send_error E sv sid ''invalid_message'' ''Invalid role''
                        | Some r' \<Rightarrow>
                            (let sv = sv\<lparr>dm := (dm sv)\<lparr>access := r'\<rparr>\<rparr>
                             in andthen (send_msg E sv sid (DocShareResponseMsg \<lparr>dsres_success = True\<rparr>))
                                  (\<lambda>sv. case find_session_by_user_id sv target of
                                          None \<Rightarrow> (sv, False)
                                        | Some t \<Rightarrow>
                                            if currentDocId (conn sv t) = docId then
                                              send_msg E sv t (RoleChangedMsg \<lparr>rc_docId = docId, rc_newRole = dsreq_role msg\<rparr>)
                                            else (sv, False)))))))"

definition entry_operation :: "op_entry \<Rightarrow> u32 \<Rightarrow> u32 \<Rightarrow> operation" where
  "entry_operation e uid rv =
     (if oe_op e = ''insert'' then make_insert (oe_pos e) (oe_text e) uid rv
      else make_delete (oe_pos e) (oe_len e) [] uid rv)"

definition operation_command :: "client_session \<Rightarrow> u32 \<Rightarrow> op_entry \<Rightarrow> doc_command" where
  "operation_command s rv e = (DocCommand OperationCmd)\<lparr>cmd_operation := entry_operation e (cs_userId s) rv,
     cmd_userId := cs_userId s, cmd_username := cs_username s\<rparr>"

definition handle_operation :: "'j env \<Rightarrow> server \<Rightarrow> u64 \<Rightarrow> 'j \<Rightarrow> outcome" where
  "handle_operation E sv sid j =
     (case from_json_Operation (json E) j of
        None \<Rightarrow> (sv, True)
      | Some msg \<Rightarrow>
          (let s = conn sv sid; docId = opm_docId msg
           in if currentDocId s \<noteq> docId then send_error E sv sid ''not_in_document'' ''Not in this document''
              else if \<not> can_edit (access (dm sv)) docId (cs_userId s) then
                send_error E sv sid ''access_denied'' ''No edit permission''
              else if 1000 < length (opm_ops msg) then
                send_error E sv sid ''invalid_message'' ''Too many operations (max 1000)''
              else if get_session (dm sv) docId = None then
                send_error E sv sid ''doc_not_found'' ''Document not active''
              else
                (sv\<lparr>dm := fold (\<lambda>e m. enqueue_to m docId (operation_command s (opm_revision msg) e))
                             (opm_ops msg) (dm sv)\<rparr>, False)))"

definition handle_cursor_update :: "'j env \<Rightarrow> server \<Rightarrow> u64 \<Rightarrow> 'j \<Rightarrow> outcome" where
  "handle_cursor_update E sv sid j =
     (case from_json_CursorUpdate (json E) j of
        None \<Rightarrow> (sv, True)
      | Some msg \<Rightarrow>
          (let s = conn sv sid
           in if currentDocId s \<noteq> cu_docId msg then (sv, False)
              else if get_session (dm sv) (cu_docId msg) = None then (sv, False)
              else
                (sv\<lparr>dm := update_cursor (dm sv) (cu_docId msg)
                   \<lparr>cur_userId = cs_userId s, cur_username = cs_username s, cur_color = cs_color s,
                    cur_position = cu_position msg, cur_selectionStart = cu_selectionStart msg,
                    cur_selectionEnd = cu_selectionEnd msg\<rparr>\<rparr>, False)))"

definition dispatch :: "'j env \<Rightarrow> server \<Rightarrow> u64 \<Rightarrow> message_type \<Rightarrow> 'j \<Rightarrow> outcome" where
  "dispatch E sv sid t j =
     (if t = AuthRequest then handle_auth_request E sv sid j
      else if t = DocListRequest then handle_doc_list E sv sid
      else if t = DocCreateRequest then handle_doc_create E sv sid j
      else if t = DocJoinRequest then handle_doc_join E sv sid j
      else if t = DocLeaveRequest then handle_doc_leave E sv sid j
      else if t = DocDeleteRequest then handle_doc_delete E sv sid j
      else if t = DocShareRequest then handle_doc_share E sv sid j
      else if t = Operation then handle_operation E sv sid j
      else if t = CursorUpdate then handle_cursor_update E sv sid j
      else if t \<in> {UndoRequest, RedoRequest, SnapshotListRequest, SnapshotViewRequest, SnapshotRestoreRequest} then
        send_error E sv sid ''not_implemented'' ''This feature is not available in MVP''
      else send_error E sv sid ''invalid_message'' ''Unknown message type'')"

text \<open>
  \<^verbatim>\<open>handle_message\<close>. Only the switch is inside the \<^verbatim>\<open>try\<close> block; an exception of an earlier
  \<^verbatim>\<open>send_error\<close> or of the one in the handler leaves the function.
\<close>

definition handle_message :: "'j env \<Rightarrow> server \<Rightarrow> u64 \<Rightarrow> string \<Rightarrow> outcome" where
  "handle_message E sv sid payload =
     (case j_parse (json E) payload of
        None \<Rightarrow> send_error E sv sid ''invalid_message'' ''Invalid JSON''
      | Some j \<Rightarrow>
          (case (if j_contains (json E) j ''type'' then j_at (json E) j ''type'' else None) of
             None \<Rightarrow> send_error E sv sid ''invalid_message'' ''Missing 'type' field''
           | Some tj \<Rightarrow>
               if \<not> j_is_string (json E) tj then
                 send_error E sv sid ''invalid_message'' ''Missing 'type' field''
               else
                 (case j_get_string (json E) tj of
                    None \<Rightarrow> (sv, True)
                  | Some s \<Rightarrow>
                      (let t = parse_message_type s; (o1, ok) = check_auth E sv sid t
                       in if \<not> ok then o1
                          else (let (sv', threw) = dispatch E (fst o1) sid t j
                                in if threw then
                                     send_error E sv' sid ''invalid_message'' (''Malformed message: '' @ what E)
                                   else (sv', False))))))"

section \<open>The callbacks and the shutdown of main\<close>

definition on_disconnect :: "server \<Rightarrow> u64 \<Rightarrow> server" where
  "on_disconnect sv sid =
     (let s = conn sv sid;
          sv = (if 0 < currentDocId s then
                  sv\<lparr>dm := remove_cursor (enqueue_to (dm sv) (currentDocId s) (leave_command s))
                            (currentDocId s) (cs_userId s)\<rparr>
                else sv)
      in tcp_remove_session sv sid)"

text \<open>
  Erasing a session from the manager destroys it, which waits for its thread; so the queued
  commands are done before the documents are saved.
\<close>

definition shutdown_server :: "'j env \<Rightarrow> (u64 \<Rightarrow> bool) \<Rightarrow> server \<Rightarrow> outcome" where
  "shutdown_server E alive sv =
     andthen (broadcast_all E (sv\<lparr>accepting := False\<rparr>)
               (ServerShutdownMsg \<lparr>ss_message = ''Server is shutting down''\<rparr>))
       (\<lambda>sv.
         let m = fold (\<lambda>docId m. remove_session m docId) (all_active_doc_ids (dm sv)) (dm sv);
             (m, out) = join_stopped alive m;
             sv = deliver E (sv\<lparr>dm := m\<rparr>) out;
             sv = sv\<lparr>dm := force_save_all (writable E) (dm sv)\<rparr>
         in (fold (\<lambda>sid sv. put_conn sv sid (close_session (conn sv sid))) (registered sv) sv, False))"

end
