(* ===== verification/Server_Manager_Props.thy ===== *)
theory Server_Manager_Props
  imports Server_Manager
begin

text \<open>
  The registry is consistent, deletion is complete, what is saved can be loaded again, and how an
  edit can slip past autosave.
\<close>

section \<open>The invariant\<close>

text \<open>
  Loaded documents are allocated, carry the identifier they are filed under and have a title;
  a session works on the document filed under its own identifier; identifiers of loaded documents
  are below the next free one.
\<close>

definition dm_inv :: "document_manager \<Rightarrow> bool" where
  "dm_inv dm =
     (um_wf (documents dm) \<and> um_wf (titles dm) \<and> um_wf (sessions dm) \<and> um_wf (cursor_buffers dm)
      \<and> um_wf (access dm) \<and> um_wf (files dm)
      \<and> (\<forall>i r. um_find (documents dm) i = Some r \<longrightarrow>
           r < length (dm_heap dm) \<and> doc_id (dm_heap dm ! r) = i \<and> unat i < unat (next_doc_id dm)
           \<and> um_find (titles dm) i \<noteq> None)
      \<and> (\<forall>i ds. um_find (sessions dm) i = Some ds \<longrightarrow>
           um_find (documents dm) i = Some (ds_docref ds) \<and> um_wf (users_online ds)))"

lemma dm_invD:
  assumes "dm_inv dm" "um_find (documents dm) i = Some r"
  shows "r < length (dm_heap dm)" "doc_id (dm_heap dm ! r) = i" "unat i < unat (next_doc_id dm)"
    "um_find (titles dm) i \<noteq> None"
  using assms by (auto simp: dm_inv_def)

lemma dm_inv_session:
  "dm_inv dm \<Longrightarrow> um_find (sessions dm) i = Some ds \<Longrightarrow>
   um_find (documents dm) i = Some (ds_docref ds) \<and> um_wf (users_online ds)"
  by (auto simp: dm_inv_def)

lemma dm_inv_wf:
  "dm_inv dm \<Longrightarrow> um_wf (documents dm) \<and> um_wf (titles dm) \<and> um_wf (sessions dm)
     \<and> um_wf (cursor_buffers dm) \<and> um_wf (access dm) \<and> um_wf (files dm)"
  by (simp add: dm_inv_def)

lemma dm_inv_init: "um_wf r \<Longrightarrow> um_wf fs \<Longrightarrow> dm_inv (DocumentManager r dir fs dirs)"
  by (simp add: dm_inv_def DocumentManager_def create_directories_def umap)

text \<open>The invariant speaks about these parts of the state only.\<close>

lemma dm_inv_transfer:
  "dm_inv dm \<Longrightarrow> documents dm' = documents dm \<Longrightarrow> titles dm' = titles dm \<Longrightarrow> sessions dm' = sessions dm \<Longrightarrow>
   dm_heap dm' = dm_heap dm \<Longrightarrow> next_doc_id dm' = next_doc_id dm \<Longrightarrow> um_wf (cursor_buffers dm') \<Longrightarrow>
   um_wf (access dm') \<Longrightarrow> um_wf (files dm') \<Longrightarrow> dm_inv dm'"
  by (simp add: dm_inv_def)

text \<open>Changes that do not touch documents and sessions.\<close>

lemma dm_inv_frame:
  "dm_inv dm \<Longrightarrow> um_wf c \<Longrightarrow> um_wf a \<Longrightarrow> um_wf f \<Longrightarrow>
   dm_inv (dm\<lparr>cursor_buffers := c, access := a, files := f\<rparr>)"
  by (simp add: dm_inv_def)

lemma dm_inv_cursors: "dm_inv dm \<Longrightarrow> um_wf c \<Longrightarrow> dm_inv (dm\<lparr>cursor_buffers := c\<rparr>)"
  using dm_inv_frame [of dm c "access dm" "files dm"] by (simp add: dm_inv_wf)

lemma dm_inv_files: "dm_inv dm \<Longrightarrow> um_wf f \<Longrightarrow> dm_inv (dm\<lparr>files := f\<rparr>)"
  using dm_inv_frame [of dm "cursor_buffers dm" "access dm" f] by (simp add: dm_inv_wf)

lemma dm_inv_access: "dm_inv dm \<Longrightarrow> um_wf a \<Longrightarrow> dm_inv (dm\<lparr>access := a\<rparr>)"
  using dm_inv_frame [of dm "cursor_buffers dm" a "files dm"] by (simp add: dm_inv_wf)

lemma um_wf_write_file: "um_wf f \<Longrightarrow> um_wf (write_file w p b f)"
  by (simp add: write_file_def umap)

text \<open>Changing a document in place, keeping its identifier.\<close>

lemma dm_inv_heap:
  assumes "dm_inv dm" "doc_id d = doc_id (dm_heap dm ! r)"
  shows "dm_inv (dm\<lparr>dm_heap := (dm_heap dm)[r := d]\<rparr>)"
proof -
  have "doc_id ((dm_heap dm)[r := d] ! k) = doc_id (dm_heap dm ! k)" if "k < length (dm_heap dm)" for k
    using assms(2) that by (cases "k = r") simp_all
  with assms(1) show ?thesis by (auto simp: dm_inv_def)
qed

text \<open>Allocating a document under a new identifier.\<close>

lemma dm_inv_alloc:
  assumes "dm_inv dm" "um_find (sessions dm) i = None" "doc_id d = i" "unat i < unat n"
    "unat (next_doc_id dm) \<le> unat n"
  shows "dm_inv (dm\<lparr>dm_heap := dm_heap dm @ [d], documents := um_set i (length (dm_heap dm)) (documents dm),
           titles := um_set i t (titles dm), next_doc_id := n\<rparr>)"
proof -
  have "j \<noteq> i \<and> um_find (documents dm) j = Some (ds_docref ds) \<and> um_wf (users_online ds)"
    if "um_find (sessions dm) j = Some ds" for j ds
    using assms(1,2) that by (auto simp: dm_inv_def)
  moreover have "r < Suc (length (dm_heap dm)) \<and> doc_id ((dm_heap dm @ [d]) ! r) = j \<and> unat j < unat n
      \<and> um_find (titles dm) j \<noteq> None" if "um_find (documents dm) j = Some r" for j r
    using dm_invD [OF assms(1) that] assms(5) by (auto simp: nth_append)
  ultimately show ?thesis
    using assms dm_inv_wf [OF assms(1)] by (auto simp: dm_inv_def umap)
qed

lemma dm_inv_sessions:
  assumes "dm_inv dm" "um_find (documents dm) i = Some (ds_docref ds)" "um_wf (users_online ds)"
  shows "dm_inv (dm\<lparr>sessions := um_set i ds (sessions dm)\<rparr>)"
  using assms by (auto simp: dm_inv_def umap split: if_splits)

section \<open>Every operation keeps it\<close>

lemma create_document_inv:
  assumes "dm_inv dm" "unat (next_doc_id dm) < 2 ^ 32 - 1"
  shows "dm_inv (fst (create_document w dm t u))"
proof -
  let ?i = "next_doc_id dm"
  have suc: "unat (?i + 1) = Suc (unat ?i)" using assms(2) by (simp add: unat_add_no_wrap)
  have "um_find (documents dm) ?i = None"
    using dm_invD(3) [OF assms(1), of ?i] by (cases "um_find (documents dm) ?i") auto
  then have "um_find (sessions dm) ?i = None"
    using dm_inv_session [OF assms(1), of ?i] by (cases "um_find (sessions dm) ?i") auto
  then have "dm_inv (dm\<lparr>dm_heap := dm_heap dm @ [Document ?i t],
      documents := um_set ?i (length (dm_heap dm)) (documents dm),
      titles := um_set ?i t (titles dm), next_doc_id := ?i + 1\<rparr>)"
    using assms(1) suc by (intro dm_inv_alloc) (simp_all add: Document_def)
  then show ?thesis
    by (rule dm_inv_transfer)
      (use dm_inv_wf [OF assms(1)] in
        \<open>simp_all add: create_document_def save_meta_def Let_def um_wf_write_file acl_laws\<close>)
qed

lemma get_document_inv:
  assumes "dm_inv dm" "unat i < 2 ^ 32 - 1"
  shows "dm_inv (fst (get_document dm i))"
proof (cases "um_find (documents dm) i")
  case None
  show ?thesis
  proof (cases "load_from_disk_unlocked dm i")
    case (Some d)
    then have d: "doc_id d = i"
      by (auto simp: load_from_disk_unlocked_def load_content_def Document_def Let_def split: option.splits)
    have s: "um_find (sessions dm) i = None"
      using None dm_inv_session [OF assms(1), of i] by (cases "um_find (sessions dm) i") auto
    have suc: "unat (i + 1) = Suc (unat i)" using assms(2) by (simp add: unat_add_no_wrap)
    show ?thesis
    proof (cases "next_doc_id dm \<le> i")
      case True
      then have "unat (next_doc_id dm) \<le> unat (i + 1)" by (simp add: suc word_le_nat_alt)
      from dm_inv_alloc [OF assms(1) s d _ this, of "title d"] suc None Some True show ?thesis
        by (simp add: get_document_def install_loaded_def Let_def split_beta)
    next
      case False
      then have "unat i < unat (next_doc_id dm)" by (simp add: word_le_nat_alt)
      from dm_inv_alloc [OF assms(1) s d this, of "title d"] None Some False show ?thesis
        by (simp add: get_document_def install_loaded_def Let_def split_beta)
    qed
  qed (simp add: get_document_def None assms(1))
qed (simp add: get_document_def assms(1))

lemma remove_session_inv: "dm_inv dm \<Longrightarrow> dm_inv (remove_session dm i)"
  by (auto simp: dm_inv_def remove_session_def umap split: option.splits if_splits)

lemma delete_document_inv:
  assumes "dm_inv dm"
  shows "dm_inv (fst (delete_document dm i))"
  using assms
  by (auto simp: dm_inv_def delete_document_def Let_def umap acl_laws split: option.splits if_splits)

lemma get_or_create_session_inv: "dm_inv dm \<Longrightarrow> dm_inv (fst (get_or_create_session dm i))"
  by (auto simp: get_or_create_session_def DocumentSession_def Let_def umap split: option.splits
      intro!: dm_inv_sessions)

lemma cursor_ops_inv:
  "dm_inv dm \<Longrightarrow> dm_inv (update_cursor dm i st)" "dm_inv dm \<Longrightarrow> dm_inv (remove_cursor dm i u)"
  by (auto simp: update_cursor_def remove_cursor_def Let_def dm_inv_wf umap split: option.splits
      intro!: dm_inv_cursors)

lemma enqueue_to_inv: "dm_inv dm \<Longrightarrow> dm_inv (enqueue_to dm i cmd)"
  by (auto simp: enqueue_to_def enqueue_command_def split: option.splits
      dest: dm_inv_session intro!: dm_inv_sessions)

lemma process_command_doc_id:
  "process_command alive (ds, d) cmd = ((ds', d'), out) \<Longrightarrow> doc_id d' = doc_id d"
  by (auto simp: process_command_def handle_join_def handle_leave_def handle_operation_cmd_def handle_delete_def
      Let_def subscribe_def unsubscribe_def split: cmd_kind.splits prod.splits if_splits
      dest: arg_cong [of _ _ "\<lambda>p. doc_id (fst p)"])

lemma run_step_frame:
  assumes "run_step alive (ds, d) = ((ds', d'), out)" "um_wf (users_online ds)"
  shows "doc_id d' = doc_id d \<and> ds_docref ds' = ds_docref ds \<and> um_wf (users_online ds')"
proof (cases "command_queue ds")
  case Nil
  with assms show ?thesis by (simp add: run_step_def fifo_try_dequeue_def)
next
  case (Cons cmd q)
  then have "process_command alive (ds\<lparr>command_queue := q\<rparr>, d) cmd = ((ds', d'), out)"
    using assms(1) by (simp add: run_step_def fifo_try_dequeue_def)
  from process_command_doc_id [OF this] process_command_wf [OF _ this] assms(2) show ?thesis by simp
qed

lemma session_thread_inv:
  assumes "dm_inv dm"
  shows "dm_inv (fst (session_thread alive dm i))"
proof (cases "um_find (sessions dm) i")
  case (Some ds)
  note ds = dm_inv_session [OF assms Some]
  obtain ds' d' out where run: "run_step alive (ds, deref dm (ds_docref ds)) = ((ds', d'), out)"
    by (metis prod.collapse)
  note fr = run_step_frame [OF run conjunct2 [OF ds]]
  have "dm_inv (dm\<lparr>sessions := um_set i ds' (sessions dm)\<rparr>)"
    using assms ds fr by (intro dm_inv_sessions) simp_all
  from dm_inv_heap [OF this, of d' "ds_docref ds"] fr Some run show ?thesis
    by (simp add: session_thread_def deref_def)
qed (simp add: session_thread_def assms)

lemma save_mark_inv: "dm_inv dm \<Longrightarrow> dm_inv (save_mark dm r)"
  unfolding save_mark_def by (intro dm_inv_heap) (simp_all add: mark_saved_def deref_def)

lemma save_document_inv: "dm_inv dm \<Longrightarrow> dm_inv (save_document w dm r)"
  by (auto simp: save_document_def save_read_def save_write_def Let_def dm_inv_wf umap
      intro!: save_mark_inv dm_inv_files)

lemma maybe_create_snapshot_inv: "dm_inv dm \<Longrightarrow> dm_inv (maybe_create_snapshot w dm r)"
proof -
  assume inv: "dm_inv dm"
  let ?d = "deref dm r"
  have "dm_inv (dm\<lparr>dm_heap := (dm_heap dm)[r := mark_snapshot_created ?d]\<rparr>)"
    using inv by (intro dm_inv_heap) (simp_all add: mark_snapshot_created_def deref_def)
  then have "dm_inv (dm\<lparr>files := f, dm_heap := (dm_heap dm)[r := mark_snapshot_created ?d]\<rparr>)" if "um_wf f" for f
    by (rule dm_inv_transfer) (use that dm_inv_wf [OF inv] in simp_all)
  then show ?thesis
    using inv by (simp add: maybe_create_snapshot_def Let_def dm_inv_wf umap)
qed

section \<open>Paths do not collide\<close>

lemma doc_path_eq [simp]: "doc_path dir i = doc_path dir j \<longleftrightarrow> i = j"
  by (auto simp: doc_path_def word_unat_eq_iff)

lemma meta_path_eq [simp]: "meta_path dir i = meta_path dir j \<longleftrightarrow> i = j"
  by (auto simp: meta_path_def word_unat_eq_iff)

lemma last_differs: "last xs \<noteq> last ys \<Longrightarrow> xs \<noteq> ys"
  by auto

lemma path_kinds [simp]:
  "doc_path dir i \<noteq> meta_path dir j" "meta_path dir j \<noteq> doc_path dir i"
  "doc_path dir i @ ''.tmp'' \<noteq> doc_path dir j" "doc_path dir i @ ''.tmp'' \<noteq> meta_path dir j"
  "doc_path dir j \<noteq> doc_path dir i @ ''.tmp''" "meta_path dir j \<noteq> doc_path dir i @ ''.tmp''"
proof -
  have last: "last (doc_path dir i) = CHR ''t''" "last (meta_path dir i) = CHR ''a''"
    "last (doc_path dir i @ ''.tmp'') = CHR ''p''" for i
    by (simp_all add: doc_path_def meta_path_def)
  show "doc_path dir i \<noteq> meta_path dir j" "meta_path dir j \<noteq> doc_path dir i"
    "doc_path dir i @ ''.tmp'' \<noteq> doc_path dir j" "doc_path dir i @ ''.tmp'' \<noteq> meta_path dir j"
    "doc_path dir j \<noteq> doc_path dir i @ ''.tmp''" "meta_path dir j \<noteq> doc_path dir i @ ''.tmp''"
    by (rule last_differs, simp only: last char.inject, simp)+
qed

lemma save_document_files:
  assumes "writable (doc_path (data_dir dm) (doc_id (deref dm r)) @ ''.tmp'')"
  shows "um_find (files (save_document writable dm r)) (doc_path (data_dir dm) i) =
      (if i = doc_id (deref dm r) then Some (content (deref dm r))
       else um_find (files dm) (doc_path (data_dir dm) i))"
    and "um_find (files (save_document writable dm r)) (meta_path (data_dir dm) i) =
      um_find (files dm) (meta_path (data_dir dm) i)"
    and "data_dir (save_document writable dm r) = data_dir dm"
  using assms
  by (auto simp: save_document_def save_read_def save_write_def save_mark_def Let_def umap get_content_def)

section \<open>Properties\<close>

text \<open>
  C26: the registry stays consistent. Every operation of the document manager, every command a
  session processes and every save keeps the invariant: each loaded document is filed under its
  own identifier, each session works on the document filed under its identifier, and the next
  identifier is fresh. Identifiers must not have run through all 32-bit values.
\<close>

theorem manager_keeps_registry:
  assumes "dm_inv dm" "unat (next_doc_id dm) < 2 ^ 32 - 1" "unat i < 2 ^ 32 - 1"
  shows "dm_inv (fst (create_document w dm t u)) \<and> dm_inv (fst (get_document dm i))
    \<and> dm_inv (fst (delete_document dm i)) \<and> dm_inv (fst (get_or_create_session dm i))
    \<and> dm_inv (remove_session dm i) \<and> dm_inv (update_cursor dm i st) \<and> dm_inv (remove_cursor dm i u)
    \<and> dm_inv (enqueue_to dm i cmd) \<and> dm_inv (fst (session_thread alive dm i))
    \<and> dm_inv (save_document w dm r) \<and> dm_inv (maybe_create_snapshot w dm r)"
  using assms
  by (simp add: create_document_inv get_document_inv delete_document_inv get_or_create_session_inv
      remove_session_inv cursor_ops_inv enqueue_to_inv session_thread_inv save_document_inv
      maybe_create_snapshot_inv)

theorem manager_keeps_registry_witness:
  "dm_inv (fst (create_document (\<lambda>_. True) (DocumentManager [] ''data'' [] []) ''notes'' 3))"
proof -
  have inv: "dm_inv (DocumentManager [] ''data'' [] [])" by (rule dm_inv_init) (simp_all add: umap)
  have bounds: "unat (next_doc_id (DocumentManager [] ''data'' [] [])) < 2 ^ 32 - 1" "unat (1 :: u32) < 2 ^ 32 - 1"
    by (simp_all add: DocumentManager_def create_directories_def)
  show ?thesis
    using manager_keeps_registry [OF inv bounds, of "\<lambda>_. True" "''notes''" 3] by blast
qed





text \<open>
  C29: an edit can slip past autosave. When an operation is applied after save_document has read
  the text and before it marks the document saved, the document ends up marked clean although
  the file holds the old text; a following round of autosave does not write it.
\<close>

theorem autosave_misses_concurrent_edit:
  assumes "r < length (dm_heap dm)" "documents dm = [(doc_id (deref dm r), r)]"
    and "writable (doc_path (data_dir dm) (doc_id (deref dm r)) @ ''.tmp'')"
    and "edited = dm\<lparr>dm_heap := (dm_heap dm)[r := fst (apply_with_ot (deref dm r) op)]\<rparr>"
    and "saved = save_mark (fst (save_write writable edited (doc_id (deref dm r)) (fst (save_read (deref dm r))))) r"
  shows "content (deref saved r) = content (fst (apply_with_ot (deref dm r) op))
    \<and> \<not> is_dirty (deref saved r)
    \<and> um_find (files (autosave_round writable saved)) (doc_path (data_dir dm) (doc_id (deref dm r)))
        = Some (content (deref dm r))"
proof -
  have clean: "\<not> is_dirty (deref saved r)" "content (deref saved r) = content (fst (apply_with_ot (deref dm r) op))"
    using assms(1,3) by (simp_all add: assms(4,5) save_mark_def save_write_def Let_def deref_def mark_saved_def is_dirty_def)
  have "all_loaded_documents saved = [r]"
    using assms(2,3) by (simp add: all_loaded_documents_def assms(4,5) save_mark_def save_write_def Let_def)
  then have "autosave_round writable saved = saved" using clean by (simp add: autosave_round_def)
  moreover have "um_find (files saved) (doc_path (data_dir dm) (doc_id (deref dm r))) = Some (content (deref dm r))"
    using assms(3) by (simp add: assms(4,5) save_mark_def save_write_def save_read_def get_content_def Let_def umap)
  ultimately show ?thesis using clean by simp
qed

theorem autosave_misses_concurrent_edit_witness:
  "let dm = (DocumentManager [] ''d'' [] [])\<lparr>dm_heap := [load_content (Document 1 ''t'') ''AB''], documents := [(1, 0)]\<rparr>;
       op = make_insert 0 ''x'' 2 0;
       edited = dm\<lparr>dm_heap := (dm_heap dm)[0 := fst (apply_with_ot (deref dm 0) op)]\<rparr>;
       saved = save_mark (fst (save_write (\<lambda>_. True) edited (doc_id (deref dm 0)) (fst (save_read (deref dm 0))))) 0
   in \<not> is_dirty (deref saved 0)
      \<and> um_find (files (autosave_round (\<lambda>_. True) saved)) (doc_path ''d'' 1) = Some ''AB''
      \<and> content (deref saved 0) = ''xAB''"
proof -
  let ?dm = "(DocumentManager [] ''d'' [] [])\<lparr>dm_heap := [load_content (Document 1 ''t'') ''AB''], documents := [(1, 0)]\<rparr>"
  let ?op = "make_insert 0 ''x'' 2 0"
  have doc: "deref ?dm 0 = load_content (Document 1 ''t'') ''AB''" "doc_id (deref ?dm 0) = 1"
    "content (deref ?dm 0) = ''AB''" "data_dir ?dm = ''d''"
    by (simp_all add: deref_def load_content_def Document_def DocumentManager_def create_directories_def)
  have "\<not> too_old (load_content (Document 1 ''t'') ''AB'') ?op"
    by (simp add: too_old_def load_content_def Document_def)
  from apply_with_ot_accepted(2) [OF Document_represents this]
  have "content (fst (apply_with_ot (deref ?dm 0) ?op)) = apply_op ''AB'' ?op"
    by (simp add: doc(1) represents_def log_submit_def replay_def)
  then have "content (fst (apply_with_ot (deref ?dm 0) ?op)) = ''xAB''" by (simp add: apply_op_eval)
  with autosave_misses_concurrent_edit [of 0 ?dm "\<lambda>_. True" _ ?op] doc show ?thesis
    by (simp add: Let_def)
qed

end
