(* ===== verification/Server_Handler_Props.thy ===== *)
theory Server_Handler_Props
  imports Server_Handler Server_Manager_Props
begin

text \<open>
  Who may do what: authentication, ownership and the effect of each request on the documents and
  the access rights.
\<close>

section \<open>What sending leaves alone\<close>

lemma send_frame [simp]:
  "authenticated (fst (send s p)) = authenticated s" "cs_userId (fst (send s p)) = cs_userId s"
  "currentDocId (fst (send s p)) = currentDocId s" "error_count (fst (send s p)) = error_count s"
  "socket_open (fst (send s p)) = socket_open s" "cs_username (fst (send s p)) = cs_username s"
  "cs_color (fst (send s p)) = cs_color s"
  by (simp_all add: send_def do_write_def Let_def split: list.splits)

lemma conn_put_conn [simp]: "conn (put_conn sv i s) j = (if j = i then s else conn sv j)"
  by (simp add: conn_def put_conn_def umap)

lemma put_conn_simps [simp]:
  "dm (put_conn sv i s) = dm sv" "auth (put_conn sv i s) = auth sv" "registered (put_conn sv i s) = registered sv"
  "sent (put_conn sv i s) = sent sv"
  by (simp_all add: put_conn_def)

lemma conn_simps [simp]:
  "conn (sv\<lparr>dm := m\<rparr>) = conn sv" "conn (sv\<lparr>sent := x\<rparr>) = conn sv" "conn (sv\<lparr>auth := a\<rparr>) = conn sv"
  by (simp_all add: conn_def fun_eq_iff)

lemma send_msg_simps [simp]:
  "dm (fst (send_msg E sv i m)) = dm sv" "auth (fst (send_msg E sv i m)) = auth sv"
  "registered (fst (send_msg E sv i m)) = registered sv"
  by (simp_all add: send_msg_def split: option.splits)

lemma send_msg_conn [simp]:
  "authenticated (conn (fst (send_msg E sv i m)) j) = authenticated (conn sv j)"
  "cs_userId (conn (fst (send_msg E sv i m)) j) = cs_userId (conn sv j)"
  "currentDocId (conn (fst (send_msg E sv i m)) j) = currentDocId (conn sv j)"
  "error_count (conn (fst (send_msg E sv i m)) j) = error_count (conn sv j)"
  "socket_open (conn (fst (send_msg E sv i m)) j) = socket_open (conn sv j)"
  "cs_username (conn (fst (send_msg E sv i m)) j) = cs_username (conn sv j)"
  "cs_color (conn (fst (send_msg E sv i m)) j) = cs_color (conn sv j)"
  by (simp_all add: send_msg_def split: option.splits)

lemma send_msg_other: "j \<noteq> i \<Longrightarrow> conn (fst (send_msg E sv i m)) j = conn sv j"
  by (simp add: send_msg_def split: option.splits)

lemma send_error_simps [simp]:
  "dm (fst (send_error E sv i c m)) = dm sv" "auth (fst (send_error E sv i c m)) = auth sv"
  by (simp_all add: send_error_def andthen_def Let_def split_beta)

lemma send_error_conn [simp]:
  "authenticated (conn (fst (send_error E sv i c m)) j) = authenticated (conn sv j)"
  "cs_userId (conn (fst (send_error E sv i c m)) j) = cs_userId (conn sv j)"
  "currentDocId (conn (fst (send_error E sv i c m)) j) = currentDocId (conn sv j)"
  by (simp_all add: send_error_def andthen_def Let_def split_beta increment_error_count_def close_session_def)

lemma send_error_other: "j \<noteq> i \<Longrightarrow> conn (fst (send_error E sv i c m)) j = conn sv j"
  by (simp add: send_error_def andthen_def Let_def split_beta send_msg_other)

lemma dm_andthen:
  "dm (fst o1) = x \<Longrightarrow> (\<And>sv. dm sv = x \<Longrightarrow> dm (fst (f sv)) = x) \<Longrightarrow> dm (fst (andthen o1 f)) = x"
  by (simp add: andthen_def)

lemma auth_andthen:
  "auth (fst o1) = x \<Longrightarrow> (\<And>sv. auth sv = x \<Longrightarrow> auth (fst (f sv)) = x) \<Longrightarrow> auth (fst (andthen o1 f)) = x"
  by (simp add: andthen_def)

section \<open>What each request does to the documents\<close>

lemma dm_handle_auth_request [simp]: "dm (fst (handle_auth_request E sv i j)) = dm sv"
  by (simp add: handle_auth_request_def Let_def split_beta split: option.splits)

lemma dm_handle_doc_list [simp]: "dm (fst (handle_doc_list E sv i)) = dm sv"
  by (simp add: handle_doc_list_def)

lemma dm_handle_doc_create:
  "dm (fst (handle_doc_create E sv i j)) =
     (case from_json_DocCreateRequest (json E) j of
        None \<Rightarrow> dm sv
      | Some msg \<Rightarrow> fst (create_document (writable E) (dm sv) (dcreq_title msg) (cs_userId (conn sv i))))"
  by (simp add: handle_doc_create_def Let_def split_beta split: option.splits)

lemma dm_handle_doc_leave:
  "dm (fst (handle_doc_leave E sv i j)) =
     (case from_json_DocLeaveRequest (json E) j of
        None \<Rightarrow> dm sv | Some msg \<Rightarrow> enqueue_to (dm sv) (dlreq_docId msg) (leave_command (conn sv i)))"
  by (simp add: handle_doc_leave_def Let_def split: option.splits)

lemma dm_handle_doc_delete:
  "dm (fst (handle_doc_delete E sv i j)) =
     (case from_json_DocDeleteRequest (json E) j of
        None \<Rightarrow> dm sv
      | Some msg \<Rightarrow>
          if can_delete (access (dm sv)) (ddreq_docId msg) (cs_userId (conn sv i))
          then fst (delete_document (enqueue_to (dm sv) (ddreq_docId msg) (DocCommand DeleteCmd)) (ddreq_docId msg))
          else dm sv)"
  by (auto simp: handle_doc_delete_def Let_def split: option.splits intro!: dm_andthen)

definition share_result :: "rights \<Rightarrow> u32 \<Rightarrow> u32 \<Rightarrow> string \<Rightarrow> rights option" where
  "share_result r docId target role =
     (if role = ''none'' then Some (revoke r docId target)
      else if role = ''editor'' then Some (grant r docId target Editor)
      else if role = ''viewer'' then Some (grant r docId target Viewer)
      else None)"

lemma dm_handle_doc_share:
  "dm (fst (handle_doc_share E sv i j)) =
     (case from_json_DocShareRequest (json E) j of
        None \<Rightarrow> dm sv
      | Some msg \<Rightarrow>
          (case find_user_id (auth sv) (dsreq_targetUsername msg) of
             None \<Rightarrow> dm sv
           | Some target \<Rightarrow>
               if can_share (access (dm sv)) (dsreq_docId msg) (cs_userId (conn sv i)) \<and> target \<noteq> cs_userId (conn sv i)
               then (case share_result (access (dm sv)) (dsreq_docId msg) target (dsreq_role msg) of
                       None \<Rightarrow> dm sv | Some r \<Rightarrow> (dm sv)\<lparr>access := r\<rparr>)
               else dm sv))"
proof -
  have reply: "dm (fst (andthen (send_msg E s i m) (\<lambda>sv. case find_session_by_user_id sv t of None \<Rightarrow> (sv, False)
      | Some t \<Rightarrow> if currentDocId (conn sv t) = d then send_msg E sv t m' else (sv, False)))) = dm s"
    for s m t d m'
    by (rule dm_andthen) (auto split: option.splits)
  show ?thesis
    unfolding handle_doc_share_def share_result_def [symmetric] Let_def
    by (simp add: reply split: option.splits)
qed

lemma dm_handle_operation:
  "dm (fst (handle_operation E sv i j)) =
     (case from_json_Operation (json E) j of
        None \<Rightarrow> dm sv
      | Some msg \<Rightarrow>
          if currentDocId (conn sv i) = opm_docId msg \<and> can_edit (access (dm sv)) (opm_docId msg) (cs_userId (conn sv i))
             \<and> length (opm_ops msg) \<le> 1000 \<and> get_session (dm sv) (opm_docId msg) \<noteq> None
          then fold (\<lambda>e m. enqueue_to m (opm_docId msg) (operation_command (conn sv i) (opm_revision msg) e))
                 (opm_ops msg) (dm sv)
          else dm sv)"
  by (auto simp: handle_operation_def Let_def split: option.splits)

lemma dm_handle_cursor_update:
  "\<exists>c. dm (fst (handle_cursor_update E sv i j)) = (dm sv)\<lparr>cursor_buffers := c\<rparr>"
proof -
  have "\<exists>c. dm sv = (dm sv)\<lparr>cursor_buffers := c\<rparr>" by (intro exI [of _ "cursor_buffers (dm sv)"]) simp
  then show ?thesis
    by (auto simp: handle_cursor_update_def update_cursor_def Let_def split: option.splits)
qed

lemma dm_handle_doc_join:
  "dm (fst (handle_doc_join E sv i j)) = dm sv
   \<or> (\<exists>msg. from_json_DocJoinRequest (json E) j = Some msg
       \<and> can_read (access (dm sv)) (djreq_docId msg) (cs_userId (conn sv i))
       \<and> (let m1 = fst (get_document (dm sv) (djreq_docId msg));
              m2 = fst (get_or_create_session m1 (djreq_docId msg));
              s = conn sv i
          in dm (fst (handle_doc_join E sv i j)) \<in> {m1, m2, enqueue_to m2 (djreq_docId msg)
               ((DocCommand JoinCmd)\<lparr>cmd_userId := cs_userId s, cmd_username := cs_username s,
                  cmd_color := cs_color s, cmd_session := Some i\<rparr>)}))"
  by (auto simp: handle_doc_join_def Let_def split_beta andthen_def set_current_doc_def split: option.splits)

section \<open>A request as a whole\<close>

lemma handle_message_cases:
  obtains (rejected) "dm (fst (handle_message E sv i p)) = dm sv" "auth (fst (handle_message E sv i p)) = auth sv"
      "\<And>k. authenticated (conn (fst (handle_message E sv i p)) k) = authenticated (conn sv k)"
      "\<And>k. k \<noteq> i \<Longrightarrow> conn (fst (handle_message E sv i p)) k = conn sv k"
  | (dispatched) j t where "fst (parse_envelope (json E) p) = t" "t = AuthRequest \<or> authenticated (conn sv i)"
      "dm (fst (handle_message E sv i p)) = dm (fst (dispatch E sv i t j))"
      "auth (fst (handle_message E sv i p)) = auth (fst (dispatch E sv i t j))"
proof (cases "j_parse (json E) p")
  case None
  then show ?thesis by (intro rejected) (simp_all add: handle_message_def send_error_other)
next
  case (Some j)
  show ?thesis
  proof (cases "if j_contains (json E) j ''type'' then j_at (json E) j ''type'' else None")
    case None
    with Some show ?thesis by (intro rejected) (simp_all add: handle_message_def send_error_other)
  next
    case tj: (Some tj)
    show ?thesis
    proof (cases "j_is_string (json E) tj")
      case False
      with Some tj show ?thesis by (intro rejected) (simp_all add: handle_message_def send_error_other)
    next
      case True
      show ?thesis
      proof (cases "j_get_string (json E) tj")
        case None
        with Some tj True show ?thesis by (intro rejected) (simp_all add: handle_message_def)
      next
        case str: (Some s)
        have env: "fst (parse_envelope (json E) p) = parse_message_type s"
          using Some tj True str by (auto simp: parse_envelope_def split: if_splits)
        show ?thesis
        proof (cases "parse_message_type s = AuthRequest \<or> authenticated (conn sv i)")
          case True
          then have "check_auth E sv i (parse_message_type s) = ((sv, False), True)" by (auto simp: check_auth_def)
          with True Some tj \<open>j_is_string (json E) tj\<close> str env show ?thesis
            by (intro dispatched) (simp_all add: handle_message_def Let_def split_beta)
        next
          case False
          then have "check_auth E sv i (parse_message_type s)
              = (send_error E sv i ''not_authenticated'' ''Authentication required'', False)"
            by (auto simp: check_auth_def)
          with Some tj True str show ?thesis
            by (intro rejected) (simp_all add: handle_message_def Let_def send_error_other)
        qed
      qed
    qed
  qed
qed

text \<open>A well-formed request of an authenticated user, or an authentication request, is dispatched.\<close>

lemma handle_message_request:
  assumes "json_library (json E)" "serialize (json E) msg = Some s"
    and "message_type_of msg = AuthRequest \<or> authenticated (conn sv i)"
  shows "handle_message E sv i s =
    (let (sv', threw) = dispatch E sv i (message_type_of msg) (to_json (json E) msg)
     in if threw then send_error E sv' i ''invalid_message'' (''Malformed message: '' @ what E) else (sv', False))"
proof -
  note lib = json_library.axioms(1) [OF assms(1)]
  have "check_auth E sv i (message_type_of msg) = ((sv, False), True)"
    using assms(3) by (auto simp: check_auth_def)
  moreover have "parse_message_type (message_type_to_string (message_type_of msg)) = message_type_of msg"
    using message_type_entry parse_message_type_entry kTypeToString_inverse by metis
  ultimately show ?thesis
    using json_library.parse_serialized [OF assms(1,2)] json_library.to_json_type [OF assms(1), of msg]
    by (simp add: handle_message_def json_values.contains_iff [OF lib] json_values.is_string_string [OF lib]
        json_values.get_string [OF lib])
qed

section \<open>Rights\<close>

lemma access_frames [simp]:
  "access (fst (get_document m i)) = access m" "access (fst (get_or_create_session m i)) = access m"
  "access (enqueue_to m i c) = access m"
  by (simp_all add: get_document_def install_loaded_def get_or_create_session_def enqueue_to_def Let_def split_beta
      split: option.splits)

lemma access_enqueue_all [simp]:
  "access (fold (\<lambda>e m. enqueue_to m d (f e)) es m) = access m"
  by (induction es arbitrary: m) simp_all

lemma access_create [simp]:
  "access (fst (create_document w m t u)) = grant (access m) (next_doc_id m) u Owner"
  by (simp add: create_document_def save_meta_def Let_def)

lemma access_delete [simp]: "access (fst (delete_document m i)) = revoke_all_for_document (access m) i"
  by (auto simp: delete_document_def Let_def split: option.splits)

lemma next_doc_id_frames [simp]:
  "next_doc_id (fst (get_or_create_session m i)) = next_doc_id m" "next_doc_id (enqueue_to m i c) = next_doc_id m"
  "next_doc_id (fst (delete_document m i)) = next_doc_id m"
  "next_doc_id (fst (create_document w m t u)) = next_doc_id m + 1"
  by (auto simp: get_or_create_session_def enqueue_to_def delete_document_def create_document_def save_meta_def Let_def
      split: option.splits)

lemma next_doc_id_enqueue_all [simp]: "next_doc_id (fold (\<lambda>e m. enqueue_to m d (f e)) es m) = next_doc_id m"
  by (induction es arbitrary: m) simp_all

lemma dispatch_dm_same:
  "t \<notin> {DocCreateRequest, DocJoinRequest, DocLeaveRequest, DocDeleteRequest, DocShareRequest, Operation, CursorUpdate}
   \<Longrightarrow> dm (fst (dispatch E sv i t j)) = dm sv"
  by (simp add: dispatch_def)

text \<open>The ways a request can change the rights.\<close>

lemma dispatch_access:
  obtains (same) "access (dm (fst (dispatch E sv i t j))) = access (dm sv)"
      "next_doc_id (dm (fst (dispatch E sv i t j))) = next_doc_id (dm sv)"
  | (loaded) d where "can_read (access (dm sv)) d (cs_userId (conn sv i))"
      "access (dm (fst (dispatch E sv i t j))) = access (dm sv)"
      "next_doc_id (dm (fst (dispatch E sv i t j))) = next_doc_id (fst (get_document (dm sv) d))"
  | (created) "access (dm (fst (dispatch E sv i t j)))
        = grant (access (dm sv)) (next_doc_id (dm sv)) (cs_userId (conn sv i)) Owner"
      "next_doc_id (dm (fst (dispatch E sv i t j))) = next_doc_id (dm sv) + 1"
  | (deleted) d where "can_delete (access (dm sv)) d (cs_userId (conn sv i))"
      "access (dm (fst (dispatch E sv i t j))) = revoke_all_for_document (access (dm sv)) d"
      "next_doc_id (dm (fst (dispatch E sv i t j))) = next_doc_id (dm sv)"
  | (shared) d target role where "can_share (access (dm sv)) d (cs_userId (conn sv i))"
      "target \<noteq> cs_userId (conn sv i)"
      "share_result (access (dm sv)) d target role = Some (access (dm (fst (dispatch E sv i t j))))"
      "next_doc_id (dm (fst (dispatch E sv i t j))) = next_doc_id (dm sv)"
proof (cases "t \<in> {DocCreateRequest, DocJoinRequest, DocLeaveRequest, DocDeleteRequest, DocShareRequest, Operation, CursorUpdate}")
  case False
  from dispatch_dm_same [OF False, of E sv i j] show ?thesis by (intro same) simp_all
next
  case True
  then consider "t = DocCreateRequest" | "t = DocJoinRequest" | "t = DocLeaveRequest" | "t = DocDeleteRequest"
    | "t = DocShareRequest" | "t = Operation" | "t = CursorUpdate"
    by fast
  then show ?thesis
  proof cases
    case 1
    then show ?thesis using same created
      by (cases "from_json_DocCreateRequest (json E) j") (simp_all add: dispatch_def dm_handle_doc_create)
  next
    case 2
    from dm_handle_doc_join [of E sv i j] show ?thesis
    proof
      assume "dm (fst (handle_doc_join E sv i j)) = dm sv"
      with 2 show ?thesis by (intro same) (simp_all add: dispatch_def)
    next
      assume "\<exists>msg. from_json_DocJoinRequest (json E) j = Some msg
       \<and> can_read (access (dm sv)) (djreq_docId msg) (cs_userId (conn sv i))
       \<and> (let m1 = fst (get_document (dm sv) (djreq_docId msg));
              m2 = fst (get_or_create_session m1 (djreq_docId msg));
              s = conn sv i
          in dm (fst (handle_doc_join E sv i j)) \<in> {m1, m2, enqueue_to m2 (djreq_docId msg)
               ((DocCommand JoinCmd)\<lparr>cmd_userId := cs_userId s, cmd_username := cs_username s,
                  cmd_color := cs_color s, cmd_session := Some i\<rparr>)})"
      with 2 show ?thesis by (elim exE conjE, intro loaded) (auto simp: dispatch_def Let_def)
    qed
  next
    case 3
    then show ?thesis by (intro same) (simp_all add: dispatch_def dm_handle_doc_leave split: option.splits)
  next
    case 4
    show ?thesis
    proof (cases "from_json_DocDeleteRequest (json E) j")
      case (Some msg)
      with 4 show ?thesis using same deleted [of "ddreq_docId msg"]
        by (cases "can_delete (access (dm sv)) (ddreq_docId msg) (cs_userId (conn sv i))")
          (simp_all add: dispatch_def dm_handle_doc_delete)
    qed (use 4 same in \<open>simp add: dispatch_def dm_handle_doc_delete\<close>)
  next
    case 5
    then have nid: "next_doc_id (dm (fst (dispatch E sv i t j))) = next_doc_id (dm sv)"
      by (simp add: dispatch_def dm_handle_doc_share split: option.splits)
    show ?thesis
    proof (cases "access (dm (fst (dispatch E sv i t j))) = access (dm sv)")
      case True
      then show ?thesis using nid by (rule same)
    next
      case False
      with 5 have "\<exists>d target role. can_share (access (dm sv)) d (cs_userId (conn sv i)) \<and> target \<noteq> cs_userId (conn sv i)
          \<and> share_result (access (dm sv)) d target role = Some (access (dm (fst (dispatch E sv i t j))))"
        by (auto simp: dispatch_def dm_handle_doc_share split: option.splits if_splits)
      then show ?thesis using nid shared by blast
    qed
  next
    case 6
    then show ?thesis by (intro same) (simp_all add: dispatch_def dm_handle_operation split: option.splits)
  next
    case 7
    then show ?thesis using dm_handle_cursor_update [of E sv i j] by (intro same) (auto simp: dispatch_def)
  qed
qed

text \<open>
  Every document has at most one owner, and identifiers not handed out yet carry no rights.
\<close>

definition rights_inv :: "document_manager \<Rightarrow> bool" where
  "rights_inv m =
     (um_wf (access m)
      \<and> (\<forall>d u v. get_role (access m) d u = Some Owner \<longrightarrow> get_role (access m) d v = Some Owner \<longrightarrow> u = v)
      \<and> (\<forall>d u. unat (next_doc_id m) \<le> unat d \<longrightarrow> get_role (access m) d u = None))"

lemma share_result_role:
  assumes "share_result r d target role = Some r'" "um_wf r"
  shows "get_role r' d' u = (if d' = d \<and> u = target
      then (if role = ''none'' then None else if role = ''editor'' then Some Editor else Some Viewer)
      else get_role r d' u) \<and> um_wf r'"
  using assms by (auto simp: share_result_def acl_laws split: if_splits)

section \<open>Edits waiting in a session\<close>

definition queued_ops :: "document_manager \<Rightarrow> u32 \<Rightarrow> doc_command list" where
  "queued_ops m d = (case um_find (sessions m) d of
     None \<Rightarrow> [] | Some ds \<Rightarrow> filter (\<lambda>c. cmd_type c = OperationCmd) (command_queue ds))"

lemma queued_ops_enqueue:
  "queued_ops (enqueue_to m d c) d' =
     queued_ops m d' @ (if d' = d \<and> cmd_type c = OperationCmd \<and> um_find (sessions m) d \<noteq> None then [c] else [])"
  by (auto simp: queued_ops_def enqueue_to_def enqueue_command_def fifo_enqueue_def umap split: option.splits)

lemma sessions_enqueue: "um_find (sessions (enqueue_to m d c)) d' = None \<longleftrightarrow> um_find (sessions m) d' = None"
  by (auto simp: enqueue_to_def umap split: option.splits)

lemma queued_ops_enqueue_all:
  "\<forall>e. cmd_type (f e) = OperationCmd \<Longrightarrow> um_find (sessions m) d \<noteq> None \<Longrightarrow>
   queued_ops (fold (\<lambda>e m. enqueue_to m d (f e)) es m) d' = queued_ops m d' @ (if d' = d then map f es else [])"
proof (induction es arbitrary: m)
  case (Cons e es)
  have "um_find (sessions (enqueue_to m d (f e))) d \<noteq> None" using Cons.prems by (simp add: sessions_enqueue)
  from Cons.IH [OF Cons.prems(1) this] Cons.prems show ?case by (simp add: queued_ops_enqueue)
qed simp

lemma queued_ops_frames [simp]:
  "queued_ops (fst (get_document m i)) d = queued_ops m d"
  "queued_ops (fst (get_or_create_session m i)) d = queued_ops m d"
  "queued_ops (m\<lparr>cursor_buffers := c\<rparr>) d = queued_ops m d" "queued_ops (m\<lparr>access := a\<rparr>) d = queued_ops m d"
  "queued_ops (fst (create_document w m t u)) d = queued_ops m d"
  by (auto simp: queued_ops_def get_document_def install_loaded_def get_or_create_session_def DocumentSession_def
      create_document_def save_meta_def Let_def umap split_beta split: option.splits)

lemma queued_ops_delete:
  "queued_ops (fst (delete_document m i)) d = (if d = i then [] else queued_ops m d)"
  by (auto simp: queued_ops_def delete_document_def Let_def umap split: option.splits)

lemma cmd_kinds [simp]:
  "cmd_type (leave_command s) = LeaveCmd" "cmd_type (operation_command s rv e) = OperationCmd"
  "cmd_type (DocCommand k) = k"
  by (simp_all add: leave_command_def operation_command_def DocCommand_def)

text \<open>The ways a request can change the edits waiting for a document.\<close>

lemma dispatch_queued_ops:
  obtains (same) "queued_ops (dm (fst (dispatch E sv i t j))) d = queued_ops (dm sv) d"
  | (deleted) "can_delete (access (dm sv)) d (cs_userId (conn sv i))"
      "queued_ops (dm (fst (dispatch E sv i t j))) d = []"
  | (edited) es rv where "t = Operation" "currentDocId (conn sv i) = d" "can_edit (access (dm sv)) d (cs_userId (conn sv i))"
      "length es \<le> 1000"
      "queued_ops (dm (fst (dispatch E sv i t j))) d = queued_ops (dm sv) d @ map (operation_command (conn sv i) rv) es"
proof (cases "t \<in> {DocCreateRequest, DocJoinRequest, DocLeaveRequest, DocDeleteRequest, DocShareRequest, Operation, CursorUpdate}")
  case False
  from dispatch_dm_same [OF False, of E sv i j] show ?thesis by (intro same) simp
next
  case True
  then consider "t = DocCreateRequest" | "t = DocJoinRequest" | "t = DocLeaveRequest" | "t = DocDeleteRequest"
    | "t = DocShareRequest" | "t = Operation" | "t = CursorUpdate"
    by fast
  then show ?thesis
  proof cases
    case 1
    then show ?thesis by (intro same) (simp add: dispatch_def dm_handle_doc_create split: option.splits)
  next
    case 2
    have "queued_ops (dm (fst (handle_doc_join E sv i j))) d = queued_ops (dm sv) d"
      using dm_handle_doc_join [of E sv i j] by (auto simp: Let_def queued_ops_enqueue)
    with 2 show ?thesis by (intro same) (simp add: dispatch_def)
  next
    case 3
    then show ?thesis
      by (intro same) (simp add: dispatch_def dm_handle_doc_leave queued_ops_enqueue split: option.splits)
  next
    case 4
    show ?thesis
    proof (cases "queued_ops (dm (fst (dispatch E sv i t j))) d = queued_ops (dm sv) d")
      case False
      with 4 show ?thesis
        by (intro deleted)
          (auto simp: dispatch_def dm_handle_doc_delete queued_ops_delete queued_ops_enqueue split: option.splits if_splits)
    qed (rule same)
  next
    case 5
    then show ?thesis by (intro same) (simp add: dispatch_def dm_handle_doc_share split: option.splits)
  next
    case 6
    show ?thesis
    proof (cases "queued_ops (dm (fst (dispatch E sv i t j))) d = queued_ops (dm sv) d")
      case False
      with 6 obtain msg where msg: "from_json_Operation (json E) j = Some msg"
        "currentDocId (conn sv i) = opm_docId msg" "can_edit (access (dm sv)) (opm_docId msg) (cs_userId (conn sv i))"
        "length (opm_ops msg) \<le> 1000" "get_session (dm sv) (opm_docId msg) \<noteq> None"
        by (auto simp: dispatch_def dm_handle_operation split: option.splits if_splits)
      then have q: "queued_ops (dm (fst (dispatch E sv i t j))) d = queued_ops (dm sv) d
          @ (if d = opm_docId msg then map (operation_command (conn sv i) (opm_revision msg)) (opm_ops msg) else [])"
        using 6 by (simp add: dispatch_def dm_handle_operation get_session_def queued_ops_enqueue_all)
      with False have "d = opm_docId msg" by (auto split: if_splits)
      with q msg 6 show ?thesis by (intro edited [of "opm_ops msg" "opm_revision msg"]) simp_all
    qed (rule same)
  next
    case 7
    then show ?thesis using dm_handle_cursor_update [of E sv i j] by (intro same) (auto simp: dispatch_def)
  qed
qed

section \<open>Properties\<close>

text \<open>
  C30: without logging in nothing happens. A request other than an authentication request on a
  connection that is not authenticated changes no account, no document, no right and no other
  connection, and leaves the connection unauthenticated.
\<close>

theorem unauthenticated_is_confined:
  assumes "\<not> authenticated (conn sv i)" "fst (parse_envelope (json E) p) \<noteq> AuthRequest"
  shows "dm (fst (handle_message E sv i p)) = dm sv \<and> auth (fst (handle_message E sv i p)) = auth sv
    \<and> \<not> authenticated (conn (fst (handle_message E sv i p)) i)
    \<and> (\<forall>k. k \<noteq> i \<longrightarrow> conn (fst (handle_message E sv i p)) k = conn sv k)"
  using assms by (cases rule: handle_message_cases [of E sv i p]) auto

definition example_env :: "jvalue env" where
  "example_env = \<lparr>json = json_text, digest = (\<lambda>s. []), rnd = (\<lambda>n. []), writable = (\<lambda>_. True),
     fused = False, what = ''''\<rparr>"

definition example_server :: server where
  "example_server = \<lparr>auth = AuthManager, dm = DocumentManager [] ''data'' [] [],
     conns = [(1, set_auth (start_session (ClientSession 1)) 5 ''eve'' ''#000000'')], registered = [1],
     next_session_id = 2, accepting = True, sent = []\<rparr>"

theorem unauthenticated_is_confined_witness:
  "dm (fst (handle_message example_env example_server 2 ''no json'')) = DocumentManager [] ''data'' [] []"
proof -
  have parse: "parse_text ''no json'' = None" by code_simp
  then have "fst (parse_envelope (json example_env) ''no json'') = Unknown"
    by (simp add: parse_envelope_def example_env_def json_text_def)
  moreover have "\<not> authenticated (conn example_server 2)"
    by (simp add: conn_def example_server_def ClientSession_def um_find_def)
  ultimately have "dm (fst (handle_message example_env example_server 2 ''no json'')) = dm example_server"
    using unauthenticated_is_confined [of example_server 2 example_env "''no json''"] by simp
  then show ?thesis by (simp add: example_server_def)
qed

text \<open>
  C31: only owners change rights. If a request changes anybody's role on a document, it came over
  an authenticated connection, and its user either owns the document or has just created it and
  the role is his own; the owner's own role changes only when the document is deleted.
\<close>

theorem rights_change_needs_owner:
  assumes "um_wf (access (dm sv))"
    and "get_role (access (dm (fst (handle_message E sv i p)))) d u \<noteq> get_role (access (dm sv)) d u"
  shows "authenticated (conn sv i)
    \<and> (get_role (access (dm sv)) d (cs_userId (conn sv i)) = Some Owner
       \<or> d = next_doc_id (dm sv) \<and> u = cs_userId (conn sv i))
    \<and> (u = cs_userId (conn sv i) \<longrightarrow> d = next_doc_id (dm sv)
       \<or> (\<forall>v. get_role (access (dm (fst (handle_message E sv i p)))) d v = None))"
proof (cases rule: handle_message_cases [of E sv i p])
  case rejected
  with assms(2) show ?thesis by simp
next
  case (dispatched j t)
  then have "authenticated (conn sv i)"
    using assms(2) by (auto simp: dispatch_def)
  moreover from dispatched(3) assms(2)
  have diff: "get_role (access (dm (fst (dispatch E sv i t j)))) d u \<noteq> get_role (access (dm sv)) d u" by simp
  have "(get_role (access (dm sv)) d (cs_userId (conn sv i)) = Some Owner
       \<or> d = next_doc_id (dm sv) \<and> u = cs_userId (conn sv i))
    \<and> (u = cs_userId (conn sv i) \<longrightarrow> d = next_doc_id (dm sv)
       \<or> (\<forall>v. get_role (access (dm (fst (dispatch E sv i t j)))) d v = None))"
  proof (cases rule: dispatch_access [of E sv i t j])
    case same
    with diff show ?thesis by simp
  next
    case (loaded d')
    with diff show ?thesis by simp
  next
    case created
    with diff show ?thesis by (auto simp: acl_laws split: if_splits)
  next
    case (deleted d')
    with diff assms(1) show ?thesis by (auto simp: acl_laws permissions split: if_splits)
  next
    case (shared d' target role)
    from share_result_role [OF shared(3) assms(1)] diff have "d = d'" "u = target" by (metis (no_types))+
    with shared(1,2) show ?thesis by (simp add: permissions)
  qed
  ultimately show ?thesis using dispatched(3) by simp
qed

lemma example_conn: "conn example_server 1 = set_auth (start_session (ClientSession 1)) 5 ''eve'' ''#000000''"
  by (simp add: conn_def example_server_def um_find_def)

lemma example_user: "cs_userId (conn example_server 1) = 5" "authenticated (conn example_server 1)"
  by (simp_all add: example_conn set_auth_def)

lemma example_env_json [simp]: "json example_env = json_text"
  by (simp add: example_env_def)

lemma example_json: "json_library (json example_env)" "serialize (json example_env) m = Some (print (to_json json_text m))"
  by (simp_all add: example_env_def json_text.json_library_axioms serialize_def json_text_serializes)

lemma example_create:
  "dm (fst (handle_message example_env example_server 1
      (print (to_json json_text (DocCreateRequestMsg \<lparr>dcreq_title = ''notes''\<rparr>)))))
   = fst (create_document (\<lambda>_. True) (DocumentManager [] ''data'' [] []) ''notes'' 5)"
proof -
  let ?m = "\<lparr>dcreq_title = ''notes''\<rparr>"
  have "from_json_DocCreateRequest json_text (to_json_DocCreateRequest json_text ?m) = Some ?m"
    by (rule json_text.DocCreateRequest_roundtrip)
  then have "dm (fst (dispatch example_env example_server 1 DocCreateRequest (to_json json_text (DocCreateRequestMsg ?m))))
      = fst (create_document (\<lambda>_. True) (DocumentManager [] ''data'' [] []) ''notes'' 5)"
    by (simp add: dispatch_def dm_handle_doc_create example_user example_env_def)
      (simp add: example_server_def)
  then show ?thesis
    using handle_message_request [OF example_json, of "DocCreateRequestMsg ?m" example_server 1]
    by (simp add: example_user split_beta)
qed

theorem rights_change_needs_owner_witness:
  "authenticated (conn example_server 1) \<and> next_doc_id (dm example_server) = 1
   \<and> get_role (access (dm (fst (handle_message example_env example_server 1
      (print (to_json json_text (DocCreateRequestMsg \<lparr>dcreq_title = ''notes''\<rparr>))))))) 1 5 = Some Owner"
proof -
  let ?p = "print (to_json json_text (DocCreateRequestMsg \<lparr>dcreq_title = ''notes''\<rparr>))"
  have wf: "um_wf (access (dm example_server))" and none: "get_role (access (dm example_server)) 1 5 = None"
    and nid: "next_doc_id (dm example_server) = 1"
    by (simp_all add: example_server_def DocumentManager_def create_directories_def get_role_Nil umap)
  have role: "get_role (access (dm (fst (handle_message example_env example_server 1 ?p)))) 1 5 = Some Owner"
    unfolding example_create access_create by (simp add: acl_laws DocumentManager_def create_directories_def)
  then show ?thesis
    using rights_change_needs_owner [OF wf, of example_env 1 ?p 1 5] none nid by simp
qed

text \<open>
  C32: only editors edit. If a request changes the edits waiting for a document, it came over an
  authenticated connection that is in that document, its user is the owner or an editor, and
  what is added is at the end, at most 1000 operations, all under the user's own name; or the
  owner has deleted the document.
\<close>

theorem edits_need_permission:
  assumes "queued_ops (dm (fst (handle_message E sv i p))) d \<noteq> queued_ops (dm sv) d"
  shows "authenticated (conn sv i)
    \<and> (currentDocId (conn sv i) = d \<and> can_edit (access (dm sv)) d (cs_userId (conn sv i))
        \<and> (\<exists>es rv. length es \<le> 1000 \<and> queued_ops (dm (fst (handle_message E sv i p))) d
             = queued_ops (dm sv) d @ map (operation_command (conn sv i) rv) es)
       \<or> can_delete (access (dm sv)) d (cs_userId (conn sv i))
        \<and> queued_ops (dm (fst (handle_message E sv i p))) d = [])"
proof (cases rule: handle_message_cases [of E sv i p])
  case rejected
  with assms show ?thesis by simp
next
  case (dispatched j t)
  then have "authenticated (conn sv i)" using assms by (auto simp: dispatch_def)
  then show ?thesis
    using assms dispatched(3) by (cases rule: dispatch_queued_ops [of E sv i t j d]) auto
qed

text \<open>A server where user 5 has created document 1 and is editing it.\<close>

definition editing_server :: server where
  "editing_server = example_server\<lparr>
     dm := fst (get_or_create_session (fst (create_document (\<lambda>_. True) (DocumentManager [] ''data'' [] []) ''notes'' 5)) 1),
     conns := [(1, set_current_doc (set_auth (start_session (ClientSession 1)) 5 ''eve'' ''#000000'') 1)]\<rparr>"

lemma editing_server_facts:
  "authenticated (conn editing_server 1)" "cs_userId (conn editing_server 1) = 5"
  "currentDocId (conn editing_server 1) = 1" "access (dm editing_server) = grant [] 1 5 Owner"
  "get_session (dm editing_server) 1 \<noteq> None" "queued_ops (dm editing_server) 1 = []"
  by (simp_all add: editing_server_def conn_def um_find_def set_current_doc_def set_auth_def)
    (simp_all add: get_session_def get_or_create_session_def create_document_def save_meta_def queued_ops_def
      DocumentManager_def create_directories_def DocumentSession_def Let_def umap)

definition example_edit :: operation_msg where
  "example_edit = \<lparr>opm_docId = 1, opm_revision = 0,
     opm_ops = [\<lparr>oe_op = ''insert'', oe_pos = 0, oe_text = ''x'', oe_len = 0\<rparr>]\<rparr>"

lemma example_edit_queued:
  "queued_ops (dm (fst (handle_message example_env editing_server 1
      (print (to_json json_text (OperationMsg example_edit)))))) 1
   = [operation_command (conn editing_server 1) 0 \<lparr>oe_op = ''insert'', oe_pos = 0, oe_text = ''x'', oe_len = 0\<rparr>]"
proof -
  let ?j = "to_json_Operation json_text example_edit"
  have edit: "can_edit (access (dm editing_server)) 1 (cs_userId (conn editing_server 1))"
    by (simp add: editing_server_facts permissions acl_laws)
  have "from_json_Operation json_text ?j = Some example_edit"
    by (rule json_text.Operation_roundtrip) (simp add: example_edit_def canonical_entry_def)
  then have "queued_ops (dm (fst (dispatch example_env editing_server 1 Operation ?j))) 1
      = [operation_command (conn editing_server 1) 0 \<lparr>oe_op = ''insert'', oe_pos = 0, oe_text = ''x'', oe_len = 0\<rparr>]"
    using editing_server_facts edit
    by (simp add: dispatch_def dm_handle_operation example_edit_def queued_ops_enqueue get_session_def)
  then show ?thesis
    using handle_message_request [OF example_json, of "OperationMsg example_edit" editing_server 1]
    by (simp add: editing_server_facts split_beta)
qed

theorem edits_need_permission_witness:
  "authenticated (conn editing_server 1) \<and> currentDocId (conn editing_server 1) = 1
   \<and> queued_ops (dm (fst (handle_message example_env editing_server 1
      (print (to_json json_text (OperationMsg example_edit)))))) 1 \<noteq> queued_ops (dm editing_server) 1"
proof -
  have "queued_ops (dm (fst (handle_message example_env editing_server 1
      (print (to_json json_text (OperationMsg example_edit)))))) 1 \<noteq> queued_ops (dm editing_server) 1"
    unfolding example_edit_queued editing_server_facts by simp
  moreover from edits_need_permission [OF this] example_edit_queued
  have "authenticated (conn editing_server 1)" "currentDocId (conn editing_server 1) = 1" by auto
  ultimately show ?thesis by blast
qed

lemma rights_inv_not_loaded:
  assumes "rights_inv m" "can_read (access m) d u"
  shows "next_doc_id (fst (get_document m d)) = next_doc_id m"
proof -
  have "\<not> next_doc_id m \<le> d" using assms by (force simp: rights_inv_def permissions word_le_nat_alt)
  then show ?thesis by (simp add: get_document_def install_loaded_def Let_def split_beta split: option.splits)
qed

lemma rights_inv_grant_new:
  assumes "rights_inv m" "unat (next_doc_id m) < 2 ^ 32 - 1" "next_doc_id m' = next_doc_id m + 1"
    and "access m' = grant (access m) (next_doc_id m) u Owner"
  shows "rights_inv m'"
proof -
  have "unat (next_doc_id m + 1) = Suc (unat (next_doc_id m))" using assms(2) by (simp add: unat_add_no_wrap)
  with assms show ?thesis by (auto simp: rights_inv_def acl_laws split: if_splits)
qed

lemma dispatch_rights_inv:
  assumes "rights_inv (dm sv)" "unat (next_doc_id (dm sv)) < 2 ^ 32 - 1"
  shows "rights_inv (dm (fst (dispatch E sv i t j)))"
proof -
  have wf: "um_wf (access (dm sv))" using assms(1) by (simp add: rights_inv_def)
  show ?thesis
  proof (cases rule: dispatch_access [of E sv i t j])
    case same
    with assms(1) show ?thesis by (simp add: rights_inv_def)
  next
    case (loaded d)
    with assms(1) rights_inv_not_loaded [OF assms(1) loaded(1)] show ?thesis by (simp add: rights_inv_def)
  next
    case created
    show ?thesis by (rule rights_inv_grant_new [OF assms created(2,1)])
  next
    case (deleted d)
    with assms(1) wf show ?thesis by (auto simp: rights_inv_def acl_laws)
  next
    case (shared d target role)
    note role = share_result_role [OF shared(3) wf]
    have "unat d < unat (next_doc_id (dm sv))"
    proof (rule ccontr)
      assume "\<not> unat d < unat (next_doc_id (dm sv))"
      with assms(1) have "get_role (access (dm sv)) d (cs_userId (conn sv i)) = None" by (simp add: rights_inv_def)
      with shared(1) show False by (simp add: permissions)
    qed
    with role assms(1) shared show ?thesis
      by (auto simp: rights_inv_def permissions split: if_splits)
  qed
qed

text \<open>
  C33: a document has at most one owner. Every request keeps the invariant of the rights: no two
  users own one document, and nobody has a right on an identifier that was not handed out.
\<close>

theorem documents_have_one_owner:
  assumes "rights_inv (dm sv)" "unat (next_doc_id (dm sv)) < 2 ^ 32 - 1"
  shows "rights_inv (dm (fst (handle_message E sv i p)))"
proof (cases rule: handle_message_cases [of E sv i p])
  case rejected
  with assms(1) show ?thesis by simp
next
  case (dispatched j t)
  with dispatch_rights_inv [OF assms] show ?thesis by simp
qed

theorem documents_have_one_owner_witness:
  "rights_inv (dm (fst (handle_message example_env example_server 1
      (print (to_json json_text (DocCreateRequestMsg \<lparr>dcreq_title = ''notes''\<rparr>))))))"
proof (rule documents_have_one_owner)
  show "rights_inv (dm example_server)" "unat (next_doc_id (dm example_server)) < 2 ^ 32 - 1"
    by (simp_all add: rights_inv_def example_server_def DocumentManager_def create_directories_def get_role_Nil umap)
qed

end
