(* ===== verification/Server_Lifecycle.thy ===== *)
theory Server_Lifecycle
  imports Server_Handler_Props
begin

text \<open>
  Behaviour over several steps: shutting the server down, closing connections that send garbage,
  and two places where steps of different threads do not fit together (joining a document while
  an edit is waiting, and leaving a document without its cursor).
\<close>

section \<open>Saving all documents\<close>

lemma save_document_heap:
  "dm_heap (save_document w m r) = dm_heap m \<or> dm_heap (save_document w m r) = (dm_heap m)[r := mark_saved (deref m r)]"
  by (auto simp: save_document_def save_read_def save_write_def save_mark_def deref_def Let_def)

lemma deref_save_document:
  "doc_id (deref (save_document w m r) k) = doc_id (deref m k) \<and> content (deref (save_document w m r) k) = content (deref m k)"
proof -
  have "dm_heap m ! k = d \<Longrightarrow> doc_id (((dm_heap m)[r := mark_saved (deref m r)]) ! k) = doc_id d
      \<and> content (((dm_heap m)[r := mark_saved (deref m r)]) ! k) = content d" for d
    by (cases "r < length (dm_heap m) \<and> k = r") (auto simp: deref_def mark_saved_def nth_list_update list_update_beyond not_less)
  then show ?thesis using save_document_heap [of w m r] by (auto simp: deref_def)
qed

lemma frames_save_document [simp]:
  "documents (save_document w m r) = documents m" "sessions (save_document w m r) = sessions m"
  by (simp add: save_document_def save_read_def save_write_def save_mark_def Let_def)+

lemma save_all_files:
  assumes "\<forall>p. w p" "\<forall>k \<in> set rs - {r}. doc_id (deref m k) \<noteq> doc_id (deref m r)"
  shows "um_find (files (fold (\<lambda>k m. save_document w m k) rs m)) (doc_path (data_dir m) (doc_id (deref m r))) =
    (if r \<in> set rs then Some (content (deref m r))
     else um_find (files m) (doc_path (data_dir m) (doc_id (deref m r))))"
  using assms(2)
proof (induction rs arbitrary: m)
  case (Cons k rs)
  have "k = r \<or> doc_id (deref m r) \<noteq> doc_id (deref m k)" using Cons.prems by fastforce
  then have one: "um_find (files (save_document w m k)) (doc_path (data_dir m) (doc_id (deref m r))) =
      (if k = r then Some (content (deref m r)) else um_find (files m) (doc_path (data_dir m) (doc_id (deref m r))))"
    using save_document_files(1) [of w m k] assms(1) by auto
  have "data_dir (save_document w m k) = data_dir m" using save_document_files(3) [of w m k] assms(1) by simp
  note one = one this
  from Cons.IH [of "save_document w m k"] Cons.prems one show ?case
    by (cases "k = r") (simp_all add: deref_save_document)
qed simp

lemma save_all_frames:
  "documents (fold (\<lambda>k m. save_document w m k) rs m) = documents m
   \<and> content (deref (fold (\<lambda>k m. save_document w m k) rs m) j) = content (deref m j)
   \<and> sessions (fold (\<lambda>k m. save_document w m k) rs m) = sessions m"
  by (induction rs arbitrary: m) (simp_all add: deref_save_document)

lemma loaded_documents_iff:
  "dm_inv m \<Longrightarrow> k \<in> set (all_loaded_documents m) \<longleftrightarrow> um_find (documents m) (doc_id (deref m k)) = Some k"
proof -
  assume inv: "dm_inv m"
  have "k \<in> set (all_loaded_documents m) \<longleftrightarrow> (\<exists>i. um_find (documents m) i = Some k)"
    using um_values [of "documents m"] dm_inv_wf [OF inv] by (simp add: all_loaded_documents_def ran_def)
  then show ?thesis using dm_invD(2) [OF inv] unfolding deref_def by metis
qed

lemma force_save_all_files:
  assumes "dm_inv m" "\<forall>p. w p" "um_find (documents m) i = Some r"
  shows "um_find (files (force_save_all w m)) (doc_path (data_dir m) i) = Some (content (deref m r))"
proof -
  have i: "doc_id (deref m r) = i" using dm_invD(2) [OF assms(1,3)] by (simp add: deref_def)
  have "\<forall>k \<in> set (all_loaded_documents m) - {r}. doc_id (deref m k) \<noteq> i"
    using loaded_documents_iff [OF assms(1)] assms(3) by fastforce
  then show ?thesis
    using save_all_files [OF assms(2), of "all_loaded_documents m" r m] loaded_documents_iff [OF assms(1), of r] assms(3)
    by (simp add: force_save_all_def i)
qed

section \<open>Stopping all sessions\<close>

lemma remove_all_sessions:
  assumes "um_wf (sessions m)"
  shows "fold (\<lambda>d m. remove_session m d) (all_active_doc_ids m) m =
    m\<lparr>sessions := [], stopping := rev (map (request_stop \<circ> snd) (sessions m)) @ stopping m\<rparr>"
proof -
  have "fold (\<lambda>d m. remove_session m d) (map fst ss) (m\<lparr>sessions := ss, stopping := st\<rparr>) =
      m\<lparr>sessions := [], stopping := rev (map (request_stop \<circ> snd) ss) @ st\<rparr>" if "um_wf ss" for ss st
    using that
  proof (induction ss arbitrary: st)
    case (Cons p ss)
    obtain d ds where p: "p = (d, ds)" by fastforce
    have "d \<notin> fst ` set ss" using Cons.prems by (simp add: um_wf_def p)
    then have "um_erase d (p # ss) = ss" by (simp add: um_erase_def p AList.delete_idem del: image_iff)
    moreover have "um_wf ss" using Cons.prems by (simp add: um_wf_def)
    ultimately show ?case using Cons.IH by (simp add: p remove_session_def um_find_def)
  qed simp
  from this [OF assms, of "stopping m"] show ?thesis by (simp add: all_active_doc_ids_def)
qed

text \<open>The document of a session after its thread has drained the queue.\<close>

definition drained :: "(u64 \<Rightarrow> bool) \<Rightarrow> document_session \<Rightarrow> document \<Rightarrow> document" where
  "drained alive ds d = snd (fst (run_drain alive (ds, d)))"

lemma drained_request_stop [simp]: "drained alive (request_stop ds) d = drained alive ds d"
proof -
  have drain_stop: "snd (fst (drain alive (s\<lparr>stop_requested := True\<rparr>, d) cmds)) = snd (fst (drain alive (s, d) cmds))"
    for s d cmds
  proof (induction cmds arbitrary: s d)
    case (Cons cmd cmds)
    obtain s1 d1 out1 where one: "process_command alive (s, d) cmd = ((s1, d1), out1)" by (metis prod.collapse)
    have "\<exists>out. process_command alive (s\<lparr>stop_requested := True\<rparr>, d) cmd = ((s1\<lparr>stop_requested := True\<rparr>, d1), out)"
      using one
      by (auto simp: process_command_def handle_join_def handle_leave_def handle_operation_cmd_def handle_delete_def
          Let_def split: cmd_kind.splits prod.splits if_splits)
    then show ?case using Cons.IH [of s1 d1] one by (auto simp: split_beta)
  qed simp
  have swap: "ds\<lparr>stop_requested := True, command_queue := []\<rparr> = ds\<lparr>command_queue := [], stop_requested := True\<rparr>" by simp
  show ?thesis
    using drain_stop [of "ds\<lparr>command_queue := []\<rparr>" d "command_queue ds"]
    by (simp add: drained_def run_drain_def request_stop_def swap)
qed

lemma retire_once:
  "retire alive ds (m, out) =
    (m\<lparr>dm_heap := (dm_heap m)[ds_docref ds := drained alive ds (deref m (ds_docref ds))]\<rparr>,
     out @ snd (run_drain alive (ds, deref m (ds_docref ds))))"
  by (simp add: retire_def drained_def split_beta)

lemma retire_all:
  "fst (fold (retire alive) L (m, out)) = m\<lparr>dm_heap := dm_heap (fst (fold (retire alive) L (m, out)))\<rparr>"
proof -
  have "\<exists>h. fst (fold (retire alive) L (m, out)) = m\<lparr>dm_heap := h\<rparr>"
  proof (induction L arbitrary: m out)
    case Nil
    show ?case by (rule exI [of _ "dm_heap m"]) simp
  next
    case (Cons ds L)
    obtain h where "fst (fold (retire alive) L (retire alive ds (m, out))) = (fst (retire alive ds (m, out)))\<lparr>dm_heap := h\<rparr>"
      using Cons [of "fst (retire alive ds (m, out))" "snd (retire alive ds (m, out))"] by auto
    then show ?case by (intro exI [of _ h]) (simp add: retire_once)
  qed
  then show ?thesis by auto
qed

lemma retire_heap:
  "r < length (dm_heap m) \<Longrightarrow>
   length (dm_heap (fst (fold (retire alive) L (m, out)))) = length (dm_heap m)
   \<and> dm_heap (fst (fold (retire alive) L (m, out))) ! r
      = fold (drained alive) (filter (\<lambda>ds. ds_docref ds = r) L) (dm_heap m ! r)"
proof (induction L arbitrary: m out)
  case (Cons ds L)
  let ?m = "m\<lparr>dm_heap := (dm_heap m)[ds_docref ds := drained alive ds (deref m (ds_docref ds))]\<rparr>"
  have "dm_heap ?m ! r = (if ds_docref ds = r then drained alive ds (dm_heap m ! r) else dm_heap m ! r)"
    using Cons.prems by (simp add: deref_def)
  then show ?case
    using Cons.IH [of ?m "out @ snd (run_drain alive (ds, deref m (ds_docref ds)))"] Cons.prems
    by (simp add: retire_once)
qed simp

lemma doc_id_drained [simp]: "doc_id (drained alive ds d) = doc_id d"
proof -
  have "doc_id (snd (fst (process_command alive (s, d) cmd))) = doc_id d" for s d cmd
    by (metis prod.collapse process_command_doc_id)
  then have "doc_id (snd (fst (drain alive (s, d) cmds))) = doc_id d" for s d cmds
    by (induction cmds arbitrary: s d) (simp_all add: split_beta, metis prod.collapse)
  then show ?thesis by (simp add: drained_def run_drain_def)
qed

text \<open>The sessions that work on document \<open>r\<close>, among those stopped last.\<close>

lemma sessions_on_document:
  assumes "um_wf ss" "\<forall>i ds. um_find ss i = Some ds \<longrightarrow> (ds_docref ds = r) = (i = j)"
  shows "filter (\<lambda>ds. ds_docref ds = r) (map (request_stop \<circ> snd) ss) =
    (case um_find ss j of None \<Rightarrow> [] | Some ds \<Rightarrow> [request_stop ds])"
  using assms
proof (induction ss)
  case (Cons p ss)
  obtain i ds where p: "p = (i, ds)" by fastforce
  have wf: "um_wf ss" and i: "um_find ss i = None"
    using Cons.prems(1) by (auto simp: um_wf_def p um_find_def map_of_eq_None_iff)
  have rest: "\<forall>k ds. um_find ss k = Some ds \<longrightarrow> (ds_docref ds = r) = (k = j)"
  proof (intro allI impI)
    fix k dsk
    assume "um_find ss k = Some dsk"
    then have "um_find (p # ss) k = Some dsk" using i by (auto simp: um_find_def p)
    then show "(ds_docref dsk = r) = (k = j)" using Cons.prems(2) by blast
  qed
  have here: "(ds_docref ds = r) = (i = j)" using Cons.prems(2) by (simp add: um_find_def p)
  show ?case using Cons.IH [OF wf rest] here i by (auto simp: p um_find_def request_stop_def)
qed (simp add: umap)

section \<open>Shutdown\<close>

lemma fold_frame: "(\<And>x s. P (f x s) = P s) \<Longrightarrow> P (fold f xs s) = P s"
  by (induction xs arbitrary: s) simp_all

lemma send_msg_accepting [simp]: "accepting (fst (send_msg E sv i m)) = accepting sv"
  by (simp add: send_msg_def put_conn_def split: option.splits)

lemma deliver_frames [simp]:
  "dm (deliver E sv out) = dm sv" "registered (deliver E sv out) = registered sv" "accepting (deliver E sv out) = accepting sv"
  by (simp_all add: deliver_def fold_frame [where P = dm] fold_frame [where P = registered]
      fold_frame [where P = accepting] split_beta)

lemma broadcast_all_frames:
  "dm (fst (broadcast_all E sv m)) = dm sv" "registered (fst (broadcast_all E sv m)) = registered sv"
  "accepting (fst (broadcast_all E sv m)) = accepting sv"
  by (simp_all add: broadcast_all_def fold_frame [where P = dm] fold_frame [where P = registered]
      fold_frame [where P = accepting])

lemma close_all:
  "dm (fold (\<lambda>i sv. put_conn sv i (close_session (conn sv i))) L sv) = dm sv"
  "accepting (fold (\<lambda>i sv. put_conn sv i (close_session (conn sv i))) L sv) = accepting sv"
  by (simp_all add: fold_frame [where P = dm] fold_frame [where P = accepting] put_conn_def)

lemma close_all_sockets:
  "socket_open (conn (fold (\<lambda>i sv. put_conn sv i (close_session (conn sv i))) L sv) k)
   = (k \<notin> set L \<and> socket_open (conn sv k))"
  by (induction L arbitrary: sv) (auto simp: close_session_def)

lemma dm_inv_after_retire:
  assumes "dm_inv m" "m' = m\<lparr>sessions := [], stopping := [], dm_heap := h\<rparr>" "length h = length (dm_heap m)"
    "\<forall>r < length h. doc_id (h ! r) = doc_id (dm_heap m ! r)"
  shows "dm_inv m'"
  using assms(1,3,4) unfolding assms(2) dm_inv_def by (simp add: umap)

text \<open>
  Stopping all sessions, waiting for them and saving: what the shutdown does to the documents.
\<close>

lemma shutdown_documents:
  assumes inv: "dm_inv m" and w: "\<forall>p. w p"
    and old: "\<forall>ds \<in> set (stopping m). ds_docref ds \<notin> ran (um_find (documents m))"
    and doc: "um_find (documents m) i = Some r"
    and m1: "m1 = fst (join_stopped alive (fold (\<lambda>d m. remove_session m d) (all_active_doc_ids m) m))"
  shows "sessions (force_save_all w m1) = [] \<and> data_dir m1 = data_dir m
    \<and> um_find (files (force_save_all w m1)) (doc_path (data_dir m) i) =
        Some (content (case um_find (sessions m) i of
          None \<Rightarrow> dm_heap m ! r | Some ds \<Rightarrow> drained alive ds (dm_heap m ! r)))"
proof -
  define L where "L = rev (stopping m) @ map (request_stop \<circ> snd) (sessions m)"
  define m0 where "m0 = m\<lparr>sessions := [], stopping := []\<rparr>"
  have wf: "um_wf (sessions m)" using dm_inv_wf [OF inv] by simp
  have stopped: "m1 = fst (fold (retire alive) L (m0, []))"
    by (simp add: m1 join_stopped_def remove_all_sessions [OF wf] L_def m0_def)
  have "m1 = m0\<lparr>dm_heap := dm_heap m1\<rparr>" unfolding stopped by (rule retire_all)
  then have shape: "m1 = m\<lparr>sessions := [], stopping := [], dm_heap := dm_heap m1\<rparr>" unfolding m0_def .
  have heap: "length (dm_heap m1) = length (dm_heap m)"
    "dm_heap m1 ! k = fold (drained alive) (filter (\<lambda>ds. ds_docref ds = k) L) (dm_heap m ! k)"
    if "k < length (dm_heap m)" for k
    using retire_heap [of k m0 alive L "[]"] that by (simp_all add: stopped m0_def)
  have r: "r < length (dm_heap m)" using dm_invD(1) [OF inv doc] .
  have ids: "doc_id (dm_heap m1 ! k) = doc_id (dm_heap m ! k)" if "k < length (dm_heap m)" for k
    using heap(2) [OF that] by (simp add: fold_frame [where P = doc_id])
  have inv1: "dm_inv m1"
    by (rule dm_inv_after_retire [OF inv shape heap(1) [OF r]]) (simp add: heap(1) [OF r] ids)
  have "\<forall>j ds. um_find (sessions m) j = Some ds \<longrightarrow> (ds_docref ds = r) = (j = i)"
    using dm_inv_session [OF inv] dm_invD(2) [OF inv] doc by (metis option.inject)
  then have "filter (\<lambda>ds. ds_docref ds = r) L =
      (case um_find (sessions m) i of None \<Rightarrow> [] | Some ds \<Rightarrow> [request_stop ds])"
    using old doc sessions_on_document [OF wf, of r i]
    by (auto simp: L_def filter_empty_conv ran_def simp del: filter_map)
  then have final: "deref m1 r = (case um_find (sessions m) i of
      None \<Rightarrow> dm_heap m ! r | Some ds \<Rightarrow> drained alive ds (dm_heap m ! r))"
    using heap(2) [OF r] by (simp add: deref_def split: option.splits)
  have doc1: "um_find (documents m1) i = Some r" and dir: "data_dir m1 = data_dir m" and none: "sessions m1 = []"
    by (subst shape, simp add: doc)+
  show ?thesis
    using force_save_all_files [OF inv1 w doc1] save_all_frames [of w "all_loaded_documents m1" m1] final
    by (simp add: dir none force_save_all_def)
qed


text \<open>A server whose only session has an edit waiting in its queue.\<close>

definition busy_server :: server where
  "busy_server = editing_server\<lparr>dm := enqueue_to (dm editing_server) 1
     (operation_command (conn editing_server 1) 0 \<lparr>oe_op = ''insert'', oe_pos = 0, oe_text = ''x'', oe_len = 0\<rparr>)\<rparr>"

abbreviation waiting_edit :: doc_command where
  "waiting_edit \<equiv> operation_command (conn editing_server 1) 0 \<lparr>oe_op = ''insert'', oe_pos = 0, oe_text = ''x'', oe_len = 0\<rparr>"

lemma busy_server_inv: "dm_inv (dm busy_server)"
proof -
  have inv0: "dm_inv (DocumentManager [] ''data'' [] [])" by (rule dm_inv_init) (simp_all add: umap)
  have "dm_inv (fst (create_document (\<lambda>_. True) (DocumentManager [] ''data'' [] []) ''notes'' 5))"
    by (rule create_document_inv [OF inv0]) (simp add: DocumentManager_def create_directories_def)
  then show ?thesis by (simp add: busy_server_def editing_server_def enqueue_to_inv get_or_create_session_inv)
qed

lemma busy_server_fields:
  "um_find (documents (dm busy_server)) 1 = Some 0" "stopping (dm busy_server) = []"
  "dm_heap (dm busy_server) = [Document 1 ''notes'']" "data_dir (dm busy_server) = ''data''"
  "um_find (sessions (dm busy_server)) 1 = Some (enqueue_command (DocumentSession 0) waiting_edit)"
  "access (dm busy_server) = grant [] 1 5 Owner"
  by (simp_all add: busy_server_def editing_server_def enqueue_to_def get_or_create_session_def create_document_def
        DocumentManager_def create_directories_def save_meta_def um_find_def um_set_def Let_def)


section \<open>Malformed messages\<close>

lemma garbage_step:
  assumes "j_parse (json E) p = None" "\<And>m. serialize (json E) (ErrorMsg m) \<noteq> None"
  shows "error_count (conn (fst (handle_message E sv i p)) i) = error_count (conn sv i) + 1"
    and "socket_open (conn (fst (handle_message E sv i p)) i)
      = (socket_open (conn sv i) \<and> sint (error_count (conn sv i) + 1) < 3)"
    and "dm (fst (handle_message E sv i p)) = dm sv" "auth (fst (handle_message E sv i p)) = auth sv"
    and "k \<noteq> i \<Longrightarrow> conn (fst (handle_message E sv i p)) k = conn sv k"
  using assms(1) assms(2) [of "\<lparr>em_code = ''invalid_message'', em_message = ''Invalid JSON''\<rparr>"]
  by (auto simp: handle_message_def send_error_def send_msg_def andthen_def increment_error_count_def
      close_session_def Let_def split: option.splits)

lemma small_int_word: "n < 2 ^ 31 \<Longrightarrow> sint (of_nat n :: u32) = int n"
  by (subst sint_small) (simp_all add: unat_of_nat)



section \<open>Leaving with a cursor\<close>

text \<open>
  A user who leaves keeps a cursor. After a leave request, even when the connection then closes,
  the cursor the user had in the document is still in the buffer of the aggregator, which goes on
  sending it to everyone who is connected to the document.
\<close>

lemma leaving_leaves_cursor_behind:
  assumes "from_json_DocLeaveRequest (json E) j = Some \<lparr>dlreq_docId = d\<rparr>"
    and "(u, st) \<in> set (get_cursors (dm sv) d)"
    and "get_session (dm sv) d = Some ds" "user \<in> set (connected_users ds)" "cu_session user = Some k" "alive k"
    and "sv' = on_disconnect (fst (handle_doc_leave E sv i j)) i"
  shows "get_cursors (dm sv') d = get_cursors (dm sv) d
    \<and> (\<exists>cs. (k, CursorBroadcastMsg \<lparr>cb_docId = d, cb_cursors = cs\<rparr>) \<in> set (broadcast_cursors alive (dm sv') d)
        \<and> cursor_entry st \<in> set cs)"
proof -
  let ?m = "enqueue_to (dm sv) d (leave_command (conn sv i))"
  have "currentDocId (conn (fst (handle_doc_leave E sv i j)) i) = 0"
    using assms(1) by (simp add: handle_doc_leave_def Let_def set_current_doc_def)
  then have dm': "dm sv' = ?m"
    using assms(1,7) by (simp add: on_disconnect_def tcp_remove_session_def handle_doc_leave_def Let_def)
  have cursors: "get_cursors ?m d = get_cursors (dm sv) d"
    by (simp add: get_cursors_def enqueue_to_def split: option.splits)
  have session: "get_session ?m d = Some (enqueue_command ds (leave_command (conn sv i)))"
    using assms(3) by (simp add: get_session_def enqueue_to_def umap)
  have users: "connected_users (enqueue_command ds c) = connected_users ds" for c
    by (simp add: connected_users_def enqueue_command_def)
  have "get_cursors (dm sv) d \<noteq> []" using assms(2) by auto
  then show ?thesis
    using assms(2,4,5,6)
    by (auto simp: dm' cursors broadcast_cursors_def session users Let_def locked_send_def image_iff
        intro!: bexI [of _ user] exI [of _ "map (cursor_entry \<circ> snd) (get_cursors (dm sv) d)"]) force
qed

lemma leaving_leaves_cursor_behind_witness:
  "let st = \<lparr>cur_userId = 5, cur_username = ''eve'', cur_color = [], cur_position = 3, cur_selectionStart = None,
         cur_selectionEnd = None\<rparr>;
       bob = \<lparr>cu_userId = 6, cu_username = ''bob'', cu_color = [], cu_session = Some 2\<rparr>;
       sv = editing_server\<lparr>dm := (dm editing_server)\<lparr>cursor_buffers := [(1, [(5, st)])],
              sessions := [(1, (DocumentSession 0)\<lparr>users_online := [(6, bob)]\<rparr>)]\<rparr>\<rparr>;
       j = to_json_DocLeaveRequest json_text \<lparr>dlreq_docId = 1\<rparr>
   in get_cursors (dm (on_disconnect (fst (handle_doc_leave example_env sv 1 j)) 1)) 1 = [(5, st)]"
proof -
  let ?st = "\<lparr>cur_userId = 5, cur_username = ''eve'', cur_color = [], cur_position = 3, cur_selectionStart = None,
         cur_selectionEnd = None\<rparr>"
  let ?bob = "\<lparr>cu_userId = 6, cu_username = ''bob'', cu_color = [], cu_session = Some 2\<rparr>"
  let ?ds = "(DocumentSession 0)\<lparr>users_online := [(6, ?bob)]\<rparr>"
  let ?sv = "editing_server\<lparr>dm := (dm editing_server)\<lparr>cursor_buffers := [(1, [(5, ?st)])], sessions := [(1, ?ds)]\<rparr>\<rparr>"
  have "from_json_DocLeaveRequest (json example_env) (to_json_DocLeaveRequest json_text \<lparr>dlreq_docId = 1\<rparr>)
      = Some \<lparr>dlreq_docId = 1\<rparr>"
    by (simp add: json_text.DocLeaveRequest_roundtrip)
  from leaving_leaves_cursor_behind [OF this, of 5 ?st ?sv ?ds ?bob 2 "\<lambda>_. True" _ 1, OF _ _ _ _ _ refl]
  show ?thesis by (simp add: Let_def get_cursors_def get_session_def connected_users_def um_find_def)
qed

section \<open>Joining while an edit is waiting\<close>

lemma operation_command_effect:
  assumes "cmd_type c = OperationCmd" "um_wf (users_online ds)" "process_command alive (ds, d) c = (sd, out)"
  shows "sd = (ds, fst (apply_with_ot d (cmd_operation c)))" "(k, m) \<in> set out \<Longrightarrow> \<exists>u. connected ds u k"
  using assms
  by (auto simp: process_command_def handle_operation_cmd_def split_beta Let_def in_send_to_user in_broadcast split: if_splits)

lemma join_command_effect:
  assumes "cmd_type c = JoinCmd" "um_wf (users_online ds)" "cmd_session c = Some k"
    "process_command alive (ds, d) c = ((ds', d'), out)"
  shows "content d' = content d" "connected ds' (cmd_userId c) k" "command_queue ds' = command_queue ds"
    "(s, OperationBroadcastMsg b) \<notin> set out"
  using assms
  by (auto simp: process_command_def handle_join_def Let_def connected_def in_broadcast umap subscribe_def)

lemma session_thread_queue:
  assumes "um_find (sessions m) i = Some ds" "command_queue ds = c # q" "ds_docref ds < length (dm_heap m)"
    "process_command alive (ds\<lparr>command_queue := q\<rparr>, deref m (ds_docref ds)) c = ((ds', d'), out)"
    "session_thread alive m i = (m', out')"
  shows "m' = m\<lparr>sessions := um_set i ds' (sessions m), dm_heap := (dm_heap m)[ds_docref ds := d']\<rparr>" "out' = out"
    "um_find (sessions m') i = Some ds'" "deref m' (ds_docref ds) = d'"
  using assms by (auto simp: session_thread_def run_step_def fifo_try_dequeue_def umap deref_def)

lemma handle_doc_join_effect:
  assumes "from_json_DocJoinRequest (json E) j = Some \<lparr>djreq_docId = d\<rparr>" "\<And>m. serialize (json E) m \<noteq> None"
    and "dm_inv (dm sv)" "can_read (access (dm sv)) d (cs_userId (conn sv i))" "get_session (dm sv) d = Some ds"
    and "sv' = fst (handle_doc_join E sv i j)"
  shows "\<exists>cmd resp. cmd_type cmd = JoinCmd \<and> cmd_userId cmd = cs_userId (conn sv i) \<and> cmd_session cmd = Some i
    \<and> dm sv' = (dm sv)\<lparr>sessions := um_set d (enqueue_command ds cmd) (sessions (dm sv))\<rparr>
    \<and> sent sv' = sent sv @ [(i, DocJoinResponseMsg resp)]
    \<and> djres_content resp = content (deref (dm sv) (ds_docref ds))
    \<and> djres_revision resp = revision (deref (dm sv) (ds_docref ds))"
proof -
  have found: "um_find (sessions (dm sv)) d = Some ds" using assms(5) by (simp add: get_session_def)
  with dm_inv_session [OF assms(3)] have "um_find (documents (dm sv)) d = Some (ds_docref ds)" by blast
  then have "get_document (dm sv) d = (dm sv, Some (ds_docref ds))"
    "get_or_create_session (dm sv) d = (dm sv, Some ds)"
    using found by (simp_all add: get_document_def get_or_create_session_def)
  then show ?thesis
    using assms(1,2,4,6) found
    by (auto simp: handle_doc_join_def send_msg_def andthen_def enqueue_to_def Let_def get_content_def set_current_doc_def
        DocCommand_def intro!: exI split: option.splits)
qed



end
