(* ===== verification/Client_Thread.thy ===== *)
theory Client_Thread
  imports Client_Network Collab_Fifo
begin

text \<open>
  The thread of the client's network manager (\<^verbatim>\<open>client/src/network_manager.cpp\<close>). The windows
  and the controller live in the thread of the user interface; \<open>send\<close>, \<open>requestConnect\<close> and
  \<open>requestDisconnect\<close> only put an invocation of the slot into the event queue of the manager's
  thread, which runs the invocations one after another.
\<close>

section \<open>The event queue\<close>

datatype 'q nm_call = SendFrame string | ConnectToHost 'q u16 | DisconnectFromHost

text \<open>\<open>nt_running\<close>: the thread has been started and its event loop has not been told to quit.\<close>

record 'q network_thread =
  nt_manager :: "'q network_manager"
  nt_calls :: "'q nm_call list"
  nt_running :: bool

definition NetworkManager :: "'q \<Rightarrow> 'q network_thread" where
  "NetworkManager no_name =
     \<lparr>nt_manager = \<lparr>nm_socket = None, rx_buffer = [], nm_user_id = 0, nm_username = no_name\<rparr>,
      nt_calls = [], nt_running = False\<rparr>"

definition start_network :: "'q network_thread \<Rightarrow> 'q network_thread" where
  "start_network th = th\<lparr>nt_running := True\<rparr>"

definition network_send :: "string \<Rightarrow> 'q network_thread \<Rightarrow> 'q network_thread" where
  "network_send payload th = th\<lparr>nt_calls := fifo_enqueue (SendFrame payload) (nt_calls th)\<rparr>"

definition requestConnect :: "'q \<Rightarrow> u16 \<Rightarrow> 'q network_thread \<Rightarrow> 'q network_thread" where
  "requestConnect host port th = th\<lparr>nt_calls := fifo_enqueue (ConnectToHost host port) (nt_calls th)\<rparr>"

definition requestDisconnect :: "'q network_thread \<Rightarrow> 'q network_thread" where
  "requestDisconnect th = th\<lparr>nt_calls := fifo_enqueue DisconnectFromHost (nt_calls th)\<rparr>"

definition invoke_slot :: "'q network_manager \<Rightarrow> 'q nm_call \<Rightarrow> 'q network_manager \<times> 'q nm_effect list" where
  "invoke_slot nm call =
     (case call of
        SendFrame payload \<Rightarrow> (nm, sendFrame nm payload)
      | ConnectToHost host port \<Rightarrow> connectToHost nm host port
      | DisconnectFromHost \<Rightarrow> (nm, disconnectFromHost nm))"

text \<open>One turn of the event loop.\<close>

definition network_turn :: "'q network_thread \<Rightarrow> 'q network_thread \<times> 'q nm_effect list" where
  "network_turn th =
     (if \<not> nt_running th then (th, [])
      else (case fifo_try_dequeue (nt_calls th) of
              (None, _) \<Rightarrow> (th, [])
            | (Some call, rest) \<Rightarrow>
                (let (nm, out) = invoke_slot (nt_manager th) call
                 in (th\<lparr>nt_manager := nm, nt_calls := rest\<rparr>, out))))"

fun network_turns :: "nat \<Rightarrow> 'q network_thread \<Rightarrow> 'q network_thread \<times> 'q nm_effect list" where
  "network_turns 0 th = (th, [])"
| "network_turns (Suc n) th =
     (let (th1, out1) = network_turn th; (th2, out2) = network_turns n th1 in (th2, out1 @ out2))"

text \<open>
  The destructor asks for a disconnect and for the end of the event loop, and waits for the
  thread. How many of the waiting invocations the loop still runs before it sees the request to
  quit is up to Qt: \<open>n\<close>.
\<close>

definition destroy_NetworkManager :: "nat \<Rightarrow> 'q network_thread \<Rightarrow> 'q network_thread \<times> 'q nm_effect list" where
  "destroy_NetworkManager n th =
     (let (th, out) = network_turns n (requestDisconnect th) in (th\<lparr>nt_running := False\<rparr>, out))"

section \<open>What has been asked for is done in order\<close>

text \<open>The bytes the manager writes to its socket.\<close>

definition written :: "'q nm_effect list \<Rightarrow> u8 list" where
  "written out = concat (map (\<lambda>e. case e of SocketWrite bs \<Rightarrow> bs | _ \<Rightarrow> []) out)"

lemma written_simps [simp]:
  "written [] = []" "written (out @ out') = written out @ written out'" "written (SocketWrite bs # out) = bs @ written out"
  "written [SigErrorOccurred m] = []" "written [SocketDisconnect] = []" "written [SocketConnect h p] = []"
  by (simp_all add: written_def)

lemma network_turn_idle: "nt_calls th = [] \<Longrightarrow> network_turn th = (th, [])"
  by (simp add: network_turn_def fifo_try_dequeue_def)

lemma network_turn_send:
  assumes "nt_running th" "nt_calls th = SendFrame p # calls" "nm_socket (nt_manager th) = Some ConnectedState"
  shows "network_turn th = (th\<lparr>nt_calls := calls\<rparr>, [SocketWrite (encode_frame p)])"
  using assms by (simp add: network_turn_def fifo_try_dequeue_def invoke_slot_def sendFrame_def)

lemma sends_are_framed:
  assumes "nt_running th" "nm_socket (nt_manager th) = Some ConnectedState" "nt_calls th = map SendFrame ps @ calls"
  shows "written (snd (network_turns (length ps) th)) = concat (map encode_frame ps)
    \<and> fst (network_turns (length ps) th) = th\<lparr>nt_calls := calls\<rparr>"
  using assms
proof (induction ps arbitrary: th)
  case Nil
  then show ?case by (metis append_Nil list.simps(8) list.size(3) map_is_Nil_conv network_thread.surjective
        network_thread.update_convs(2) network_turns.simps(1) written_simps(1) concat.simps(1) fst_conv snd_conv)
next
  case (Cons p ps)
  have one: "network_turn th = (th\<lparr>nt_calls := map SendFrame ps @ calls\<rparr>, [SocketWrite (encode_frame p)])"
    using Cons.prems by (intro network_turn_send) simp_all
  show ?case
    using Cons.IH [of "th\<lparr>nt_calls := map SendFrame ps @ calls\<rparr>"] Cons.prems one
    by (simp add: split_beta)
qed

text \<open>A destructor whose loop still runs everything that was asked for sends it before it disconnects.\<close>

lemma network_turns_append:
  "network_turns (m + n) th =
     (let (th1, out1) = network_turns m th; (th2, out2) = network_turns n th1 in (th2, out1 @ out2))"
  by (induction m arbitrary: th) (simp_all add: split_beta Let_def)

lemma destructor_flushes:
  assumes "nt_running th" "nm_socket (nt_manager th) = Some ConnectedState" "nt_calls th = map SendFrame ps"
  shows "written (snd (destroy_NetworkManager (Suc (length ps)) th)) = concat (map encode_frame ps)
    \<and> last (snd (destroy_NetworkManager (Suc (length ps)) th)) = SocketDisconnect"
proof -
  let ?th = "requestDisconnect th"
  have th: "nt_running ?th" "nm_socket (nt_manager ?th) = Some ConnectedState"
    "nt_calls ?th = map SendFrame ps @ [DisconnectFromHost]"
    using assms by (simp_all add: requestDisconnect_def fifo_enqueue_def)
  have "network_turn (?th\<lparr>nt_calls := [DisconnectFromHost]\<rparr>) = (?th\<lparr>nt_calls := []\<rparr>, [SocketDisconnect])"
    using th by (simp add: network_turn_def fifo_try_dequeue_def invoke_slot_def disconnectFromHost_def)
  then show ?thesis
    using sends_are_framed [OF th] network_turns_append [of "length ps" 1 ?th]
    by (simp add: destroy_NetworkManager_def split_beta)
qed

text \<open>Nothing is written without a connected socket.\<close>

lemma unconnected_writes_nothing:
  "nm_socket (nt_manager th) \<noteq> Some ConnectedState \<Longrightarrow> written (snd (network_turn th)) = []"
  by (auto simp: network_turn_def fifo_try_dequeue_def invoke_slot_def sendFrame_def connectToHost_def
      disconnectFromHost_def Let_def split: list.splits nm_call.splits option.splits)

end
