(* ===== verification/Collab_System.thy ===== *)
theory Collab_System
  imports Client_OT Server_Handler
begin

text \<open>
  A client and the server editing one document together. The client is the controller of
  \<^verbatim>\<open>client/src/ot_controller.cpp\<close>, the server the document session of
  \<^verbatim>\<open>server/src/document_session.cpp\<close> with the document of \<^verbatim>\<open>core/src/document.cpp\<close>; between
  them are the two directions of the connection. Other users are any commands under their names.
  The main result is that whenever nothing is on its way the client shows the server's text.
\<close>

section \<open>Operations that mean the same\<close>

text \<open>
  Only what travels in an \<^verbatim>\<open>OpEntry\<close> matters for transformation and effect: the text of a
  deletion and the revision do not.
\<close>

definition same_edit :: "operation \<Rightarrow> operation \<Rightarrow> bool" where
  "same_edit a b =
     (op_type a = op_type b \<and> position a = position b \<and> op_length a = op_length b \<and> userId a = userId b
      \<and> (op_type a = Insert \<longrightarrow> op_text a = op_text b))"

lemma same_edit_refl [simp]: "same_edit a a"
  by (simp add: same_edit_def)

lemma same_edit_sym: "same_edit a b \<Longrightarrow> same_edit b a"
  by (simp add: same_edit_def)

lemma same_edit_trans [trans]: "same_edit a b \<Longrightarrow> same_edit b c \<Longrightarrow> same_edit a c"
  by (simp add: same_edit_def)

lemma same_edit_effect: "same_edit a b \<Longrightarrow> effect a = effect b"
  by (auto simp: same_edit_def effect_def fun_eq_iff)

lemma same_edit_user: "same_edit a b \<Longrightarrow> userId a = userId b"
  by (simp add: same_edit_def)

lemma same_edit_transform:
  assumes "same_edit a a'" "same_edit b b'"
  shows "same_edit (fst (transform a b)) (fst (transform a' b'))"
  using assms
  by (cases "op_type a"; cases "op_type b")
    (auto simp: same_edit_def transform_def transform_insert_insert_def transform_insert_delete_def
      transform_delete_delete_def Let_def)

lemma same_edit_rebase: "same_edit a a' \<Longrightarrow> same_edit (rebase a hs) (rebase a' hs)"
  by (induction hs arbitrary: a a') (simp_all add: same_edit_transform)

lemma coherent_transform: "coherent a \<Longrightarrow> coherent (fst (transform a b))"
  by (cases "op_type a"; cases "op_type b")
    (auto simp: coherent_def transform_def transform_insert_insert_def transform_insert_delete_def
      transform_delete_delete_def Let_def)

lemma coherent_rebase: "coherent a \<Longrightarrow> coherent (rebase a hs)"
  by (induction hs arbitrary: a) (simp_all add: coherent_transform)

lemma coherent_carry: "list_all coherent ps \<Longrightarrow> list_all coherent (carry s ps)"
  by (induction ps arbitrary: s) (simp_all add: coherent_transform)

lemma user_carry: "list_all (\<lambda>p. userId p = u) ps \<Longrightarrow> list_all (\<lambda>p. userId p = u) (carry s ps)"
  by (induction ps arbitrary: s) simp_all

text \<open>Both programs put operations into entries and take them out again.\<close>

lemma entry_restores:
  assumes "coherent op" "userId op = v"
  shows "same_edit (entry_operation (to_entry op) v r) op" "same_edit (from_entry (operation_entry op) v r) op"
    "canonical_entry (operation_entry op)" "coherent (entry_operation (to_entry op) v r)"
  using assms
  by (auto simp: same_edit_def coherent_def entry_operation_def to_entry_def from_entry_def operation_entry_def
      canonical_entry_def op_kind_cases split: if_splits) (metis op_kind.exhaust)+

section \<open>The system\<close>

text \<open>
  \<open>es_up\<close> holds what the client has sent and the server has not read, \<open>es_down\<close> what the session
  has sent to the client and the client has not read. \<open>es_known\<close> is not part of the programs: it
  records the server's text as far as the client has heard of it.
\<close>

record editing =
  es_client :: ot_controller
  es_up :: "operation_msg list"
  es_session :: document_session
  es_document :: document
  es_down :: "message list"
  es_known :: string

text \<open>The requests among the effects of a handler.\<close>

definition requests :: "ctl_effect list \<Rightarrow> operation_msg list" where
  "requests out = concat (map (\<lambda>e. case e of Send (OperationMsg m) \<Rightarrow> [m] | _ \<Rightarrow> []) out)"

definition received_ops :: "operation_broadcast_msg \<Rightarrow> operation list" where
  "received_ops b = map (\<lambda>e. from_entry e (ob_userId b) (ob_revision b)) (ob_ops b)"

definition heard :: "string \<Rightarrow> ot_controller \<Rightarrow> message \<Rightarrow> string" where
  "heard S c m =
     (case m of
        OperationAckMsg _ \<Rightarrow> (case outstanding c of [] \<Rightarrow> S | p # _ \<Rightarrow> effect p S)
      | OperationBroadcastMsg b \<Rightarrow> fold effect (received_ops b) S
      | _ \<Rightarrow> S)"

text \<open>
  The operations of a broadcast can be transformed past the outstanding ones: each pair fits the
  text it is applied to, and does not tie.
\<close>

definition transformable :: "string \<Rightarrow> ot_controller \<Rightarrow> message \<Rightarrow> bool" where
  "transformable S c m =
     (case m of OperationBroadcastMsg b \<Rightarrow> ladders_ok S (received_ops b) (outstanding c) | _ \<Rightarrow> True)"

text \<open>
  The steps, for a user whose connection is \<open>k\<close> and whose session object is \<open>cs\<close>. Texts stay
  below 4 GiB, revisions below \<open>2 ^ 32\<close>, and the user's own operations are not older than the
  history the server keeps.
\<close>

inductive edit_step ::
  "'j json_api \<Rightarrow> client_session \<Rightarrow> u64 \<Rightarrow> (u64 \<Rightarrow> bool) \<Rightarrow> editing \<Rightarrow> editing \<Rightarrow> bool"
  for J cs k alive where
  typing: "\<lbrakk>onLocalOperations (cs_userId cs) (es_client st) ops = (c', out); list_all coherent ops;
      length (ld_content (ctl_doc (es_client st))) + sum_list (map added ops) < 2 ^ 32\<rbrakk>
    \<Longrightarrow> edit_step J cs k alive st (st\<lparr>es_client := c', es_up := es_up st @ requests out\<rparr>)"
| submit: "es_up st = m # ms
    \<Longrightarrow> edit_step J cs k alive st (st\<lparr>es_up := ms,
          es_session := fold (\<lambda>e ds. enqueue_command ds (operation_command cs (opm_revision m) e))
                          (opm_ops m) (es_session st)\<rparr>)"
| others: "\<lbrakk>cmd_userId cmd \<noteq> cs_userId cs; cmd_session cmd \<noteq> Some k; cmd_type cmd \<in> {JoinCmd, LeaveCmd, OperationCmd};
      cmd_type cmd = OperationCmd \<longrightarrow> userId (cmd_operation cmd) = cmd_userId cmd \<and> coherent (cmd_operation cmd)\<rbrakk>
    \<Longrightarrow> edit_step J cs k alive st (st\<lparr>es_session := enqueue_command (es_session st) cmd\<rparr>)"
| process: "\<lbrakk>run_step alive (es_session st, es_document st) = ((ds', d'), out);
      unat (revision (es_document st)) < 2 ^ 32 - 1; length (content d') < 2 ^ 32;
      \<forall>cmd q. command_queue (es_session st) = cmd # q \<and> cmd_userId cmd = cs_userId cs
        \<longrightarrow> \<not> too_old (es_document st) (cmd_operation cmd)\<rbrakk>
    \<Longrightarrow> edit_step J cs k alive st (st\<lparr>es_session := ds', es_document := d',
          es_down := es_down st @ map snd (filter (\<lambda>sm. fst sm = k) out)\<rparr>)"
| receive: "\<lbrakk>es_down st = m # ms; serialize J m = Some payload;
      onNetworkMessage J (cs_userId cs) (es_client st) payload = Some (c', out);
      transformable (es_known st) (es_client st) m\<rbrakk>
    \<Longrightarrow> edit_step J cs k alive st (st\<lparr>es_client := c', es_up := es_up st @ requests out, es_down := ms,
          es_known := heard (es_known st) (es_client st) m\<rparr>)"

inductive_cases edit_stepE: "edit_step J cs k alive st st'"

text \<open>User \<open>u\<close>, and nobody else, is connected over \<open>k\<close>.\<close>

definition only_user :: "document_session \<Rightarrow> u32 \<Rightarrow> u64 \<Rightarrow> bool" where
  "only_user ds u k =
     (um_find (users_online ds) u \<noteq> None
      \<and> (\<forall>v user. um_find (users_online ds) v = Some user \<longrightarrow> (cu_session user = Some k) = (v = u)))"

text \<open>The client has just joined and is registered with the session; nothing is on its way.\<close>

definition edit_start :: "client_session \<Rightarrow> u64 \<Rightarrow> editing \<Rightarrow> bool" where
  "edit_start cs k st =
     ((\<exists>base lg. represents (es_document st) base lg \<and> (\<forall>n \<le> length lg. length (replay base (take n lg)) < 2 ^ 32))
      \<and> es_client st = OTController (LocalDocument (content (es_document st)) (revision (es_document st)))
          (doc_id (es_document st)) (revision (es_document st))
      \<and> es_known st = content (es_document st) \<and> es_up st = [] \<and> es_down st = []
      \<and> command_queue (es_session st) = [] \<and> um_wf (users_online (es_session st))
      \<and> only_user (es_session st) (cs_userId cs) k)"

section \<open>The user's own operation\<close>

text \<open>
  \<open>own_pending u seen unseen ps fl\<close>: of the server's log the client has processed \<open>seen\<close> and not
  yet \<open>unseen\<close>; \<open>ps\<close> are its outstanding operations and \<open>fl\<close> those on the way to the document.
  Either nothing is outstanding; or the first outstanding operation is on its way, and what
  arrives there, rebased over what the client has processed, is the outstanding operation; or it
  is among \<open>unseen\<close>, rebased over what comes before it there.
\<close>

definition none_by :: "u32 \<Rightarrow> operation list \<Rightarrow> bool" where
  "none_by u ops = list_all (\<lambda>h. userId h \<noteq> u) ops"

definition own_pending ::
  "u32 \<Rightarrow> operation list \<Rightarrow> operation list \<Rightarrow> operation list \<Rightarrow> operation list \<Rightarrow> bool" where
  "own_pending u seen unseen ps fl =
     ((ps = [] \<and> fl = [] \<and> none_by u unseen)
      \<or> (\<exists>p ps' q. ps = p # ps' \<and> fl = [q] \<and> none_by u unseen \<and> unat (op_revision q) \<le> length seen
          \<and> same_edit p (rebase q (drop (unat (op_revision q)) seen)))
      \<or> (\<exists>p ps' before h after. ps = p # ps' \<and> fl = [] \<and> unseen = before @ h # after \<and> userId h = u
          \<and> none_by u before \<and> none_by u after \<and> same_edit (rebase p before) h))"

lemma none_by_simps [simp]:
  "none_by u []" "none_by u (h # hs) \<longleftrightarrow> userId h \<noteq> u \<and> none_by u hs"
  "none_by u (hs @ hs') \<longleftrightarrow> none_by u hs \<and> none_by u hs'"
  by (simp_all add: none_by_def)

lemma own_pending_remote:
  assumes "own_pending u seen (h # unseen) ps fl" "userId h \<noteq> u" "same_edit s h"
  shows "own_pending u (seen @ [h]) unseen (carry s ps) fl"
proof -
  consider (idle) "ps = []" "fl = []" "none_by u unseen"
    | (sent) p ps' q where "ps = p # ps'" "fl = [q]" "none_by u unseen" "unat (op_revision q) \<le> length seen"
        "same_edit p (rebase q (drop (unat (op_revision q)) seen))"
    | (logged) p ps' before h' after where "ps = p # ps'" "fl = []" "h # unseen = before @ h' # after" "userId h' = u"
        "none_by u before" "none_by u after" "same_edit (rebase p before) h'"
    using assms(1) by (auto simp: own_pending_def)
  then show ?thesis
  proof cases
    case idle
    then show ?thesis by (simp add: own_pending_def)
  next
    case sent
    then have "same_edit (fst (transform p s)) (rebase q (drop (unat (op_revision q)) (seen @ [h])))"
      using assms(3) by (simp add: rebase_append same_edit_transform)
    with sent show ?thesis by (auto simp: own_pending_def)
  next
    case logged
    then obtain bs where bs: "before = h # bs" "unseen = bs @ h' # after"
      using assms(2) by (cases before) auto
    have "same_edit (rebase (fst (transform p s)) bs) (rebase (fst (transform p h)) bs)"
      by (intro same_edit_rebase same_edit_transform same_edit_refl assms(3))
    also have "same_edit \<dots> h'" using logged(7) bs by simp
    finally show ?thesis using logged bs by (auto simp: own_pending_def)
  qed
qed

lemma own_pending_ack:
  assumes "own_pending u seen (h # unseen) ps fl" "userId h = u"
  obtains p ps' where "ps = p # ps'" "fl = []" "same_edit p h" "none_by u unseen"
proof -
  obtain p ps' before h' after where *: "ps = p # ps'" "fl = []" "h # unseen = before @ h' # after"
    "none_by u before" "none_by u after" "same_edit (rebase p before) h'"
    using assms by (auto simp: own_pending_def)
  then have "before = []" using assms(2) by (cases before) auto
  with * show ?thesis by (intro that) auto
qed

lemma own_pending_accept:
  assumes "own_pending u seen unseen ps [q]" "userId q = u"
  shows "own_pending u seen (unseen @ [rebase q (drop (unat (op_revision q)) (seen @ unseen))]) ps []"
proof -
  obtain p ps' where *: "ps = p # ps'" "none_by u unseen" "unat (op_revision q) \<le> length seen"
    "same_edit p (rebase q (drop (unat (op_revision q)) seen))"
    using assms(1) by (auto simp: own_pending_def)
  then have "same_edit (rebase p unseen) (rebase q (drop (unat (op_revision q)) (seen @ unseen)))"
    by (simp add: rebase_append same_edit_rebase)
  with * assms(2) show ?thesis
    unfolding own_pending_def
    by (intro disjI2 exI [of _ p] exI [of _ ps'] exI [of _ unseen] exI [of _ "[]"]
        exI [of _ "rebase q (drop (unat (op_revision q)) (seen @ unseen))"]) simp
qed

lemma own_pending_log: "own_pending u seen unseen ps fl \<Longrightarrow> userId h \<noteq> u \<Longrightarrow> own_pending u seen (unseen @ [h]) ps fl"
  by (fastforce simp: own_pending_def)

lemma own_pending_more: "own_pending u seen unseen (p # ps) fl \<Longrightarrow> own_pending u seen unseen (p # ps @ qs) fl"
  by (auto simp: own_pending_def)

lemma own_pending_send:
  "none_by u unseen \<Longrightarrow> unat (op_revision q) = length seen \<Longrightarrow> same_edit p q \<Longrightarrow> own_pending u seen unseen (p # ps) [q]"
  by (simp add: own_pending_def)

section \<open>The invariant\<close>

text \<open>The user's operations on their way to the document: in the session's queue or still unread.\<close>

definition flight :: "client_session \<Rightarrow> editing \<Rightarrow> operation list" where
  "flight cs st =
     map cmd_operation (filter (\<lambda>c. cmd_userId c = cs_userId cs) (command_queue (es_session st)))
     @ concat (map (\<lambda>m. map (\<lambda>e. entry_operation e (cs_userId cs) (opm_revision m)) (opm_ops m)) (es_up st))"

definition queue_ok :: "client_session \<Rightarrow> u64 \<Rightarrow> doc_command list \<Rightarrow> bool" where
  "queue_ok cs k = list_all (\<lambda>c. cmd_type c \<in> {JoinCmd, LeaveCmd, OperationCmd}
     \<and> (cmd_type c = OperationCmd \<longrightarrow> userId (cmd_operation c) = cmd_userId c \<and> coherent (cmd_operation c))
     \<and> (if cmd_userId c = cs_userId cs then cmd_type c = OperationCmd else cmd_session c \<noteq> Some k))"

text \<open>The message that tells user \<open>u\<close> of entry \<open>h\<close> of the log, which made revision \<open>n\<close>.\<close>

definition news :: "u32 \<Rightarrow> u32 \<Rightarrow> message \<Rightarrow> nat \<times> operation \<Rightarrow> bool" where
  "news u docId m = (\<lambda>(n, h).
     if userId h = u then m = OperationAckMsg \<lparr>ack_docId = docId, ack_revision = word_of_nat n\<rparr>
     else \<exists>name. m = OperationBroadcastMsg \<lparr>ob_docId = docId, ob_userId = userId h, ob_username = name,
            ob_revision = word_of_nat n, ob_ops = [operation_entry h]\<rparr>)"

definition edit_msg :: "message \<Rightarrow> bool" where
  "edit_msg m = (message_type_of m \<in> {OperationAck, OperationBroadcast})"

definition edit_inv :: "client_session \<Rightarrow> u64 \<Rightarrow> string \<Rightarrow> operation list \<Rightarrow> operation list \<Rightarrow> editing \<Rightarrow> bool" where
  "edit_inv cs k base seen unseen st =
     (let c = es_client st; d = es_document st; ds = es_session st; u = cs_userId cs
      in represents d base (seen @ unseen)
         \<and> (\<forall>n \<le> length (seen @ unseen). length (replay base (take n (seen @ unseen))) < 2 ^ 32)
         \<and> unat (ctl_revision c) = length seen \<and> ctl_doc_id c = doc_id d
         \<and> es_known st = replay base seen \<and> in_sync (replay base seen) c
         \<and> list_all coherent unseen \<and> list_all coherent (flight cs st)
         \<and> list_all (\<lambda>p. coherent p \<and> userId p = u) (outstanding c)
         \<and> list_all (\<lambda>m. edit_msg m \<or> message_type_of m \<in> {UserJoined, UserLeft}) (es_down st)
         \<and> list_all2 (news u (doc_id d)) (filter edit_msg (es_down st)) (enumerate (Suc (length seen)) unseen)
         \<and> queue_ok cs k (command_queue ds) \<and> um_wf (users_online ds) \<and> only_user ds u k
         \<and> own_pending u seen unseen (outstanding c) (flight cs st))"

lemma edit_start_inv:
  assumes "edit_start cs k st"
  shows "\<exists>base lg. edit_inv cs k base lg [] st"
proof -
  from assms obtain base lg where rep: "represents (es_document st) base lg"
    and small: "\<forall>n \<le> length lg. length (replay base (take n lg)) < 2 ^ 32"
    by (auto simp: edit_start_def)
  have "content (es_document st) = replay base lg" "unat (revision (es_document st)) = length lg"
    using rep by (simp_all add: represents_def)
  with assms rep small have "edit_inv cs k base lg [] st"
    by (simp add: edit_inv_def edit_start_def Let_def in_sync_def ctl_inv_init flight_def queue_ok_def own_pending_def)
      (simp add: OTController_def LocalDocument_def)
  then show ?thesis by blast
qed

lemma requests_simps [simp]:
  "requests [] = []" "requests (out @ out') = requests out @ requests out'"
  "requests (Send (OperationMsg m) # out) = m # requests out" "requests (RevisionChanged r # out) = requests out"
  "requests (StateChanged l # out) = requests out" "requests (RemoteOperationApplied p # out) = requests out"
  "requests (FatalError l # out) = requests out"
  by (simp_all add: requests_def)

lemma stamped_coherent:
  "list_all coherent ops \<Longrightarrow> list_all (\<lambda>p. coherent p \<and> userId p = u) (stamped u c ops)"
  by (auto simp: stamped_def list_all_iff coherent_def)

lemma flight_sent [simp]:
  "flight cs (st\<lparr>es_client := c, es_up := es_up st @ ms\<rparr>) =
     flight cs st @ concat (map (\<lambda>m. map (\<lambda>e. entry_operation e (cs_userId cs) (opm_revision m)) (opm_ops m)) ms)"
  by (simp add: flight_def)

lemma flight_frame [simp]:
  "flight cs (st\<lparr>es_down := x\<rparr>) = flight cs st" "flight cs (st\<lparr>es_known := S\<rparr>) = flight cs st"
  by (simp_all add: flight_def)

lemma typing_inv:
  assumes inv: "edit_inv cs k base seen unseen st"
    and step: "onLocalOperations (cs_userId cs) (es_client st) ops = (c', out)" "list_all coherent ops"
      "length (ld_content (ctl_doc (es_client st))) + sum_list (map added ops) < 2 ^ 32"
  shows "edit_inv cs k base seen unseen (st\<lparr>es_client := c', es_up := es_up st @ requests out\<rparr>)"
proof -
  let ?u = "cs_userId cs" and ?c = "es_client st"
  let ?new = "stamped ?u ?c ops"
  obtain outl changed where L: "local_operations ?u ?c ops = (c', outl, changed)"
    and out: "out = outl @ (if changed then [emitStateLabel c'] else [])"
    using step(1) by (auto simp: onLocalOperations_def split: prod.splits)
  have sync: "in_sync (es_known st) ?c" using inv by (simp add: edit_inv_def Let_def)
  note eff = local_operations_sync [OF sync step(3) L]
  have reqs: "requests out = requests outl" by (simp add: out emitStateLabel_def)
  have old: "list_all (\<lambda>p. coherent p \<and> userId p = ?u) (outstanding ?c)" "unat (ctl_revision ?c) = length seen"
    "own_pending ?u seen unseen (outstanding ?c) (flight cs st)" "list_all coherent (flight cs st)"
    using inv by (simp_all add: edit_inv_def Let_def)
  let ?st = "st\<lparr>es_client := c', es_up := es_up st @ requests out\<rparr>"
  have fl: "list_all coherent (flight cs ?st) \<and> own_pending ?u seen unseen (outstanding c') (flight cs ?st)"
  proof (cases "outstanding ?c = [] \<and> ?new \<noteq> []")
    case True
    then obtain p ps where p: "?new = p # ps" "coherent p" "userId p = ?u"
      using stamped_coherent [OF step(2), of ?u ?c] by (cases ?new) auto
    let ?q = "entry_operation (to_entry p) ?u (ctl_revision ?c)"
    have idle: "flight cs st = []" "none_by ?u unseen" using old(3) True by (auto simp: own_pending_def)
    have "flight cs ?st = [?q]"
      using eff True p idle reqs by (simp add: sendOp_def)
    moreover have "same_edit p ?q" "coherent ?q" using entry_restores [OF p(2,3)] by (auto intro: same_edit_sym)
    moreover have "op_revision ?q = ctl_revision ?c" by (simp add: entry_operation_def)
    ultimately show ?thesis
      using eff True p idle old(2) by (simp add: own_pending_send)
  next
    case False
    then have "requests out = []" using eff reqs by auto
    moreover have "own_pending ?u seen unseen (outstanding c') (flight cs st)"
      using eff False old(3) own_pending_more by (cases "outstanding ?c") auto
    ultimately show ?thesis using old(4) by (simp add: flight_def)
  qed
  show ?thesis
    using inv fl eff old(1) stamped_coherent [OF step(2), of ?u ?c] by (simp add: edit_inv_def Let_def)
qed

lemma enqueue_all_commands:
  "fold (\<lambda>e ds. enqueue_command ds (f e)) es ds = ds\<lparr>command_queue := command_queue ds @ map f es\<rparr>"
  by (induction es arbitrary: ds) (simp_all add: enqueue_command_def fifo_enqueue_def)

lemma only_user_queue [simp]: "only_user (ds\<lparr>command_queue := q\<rparr>) u k = only_user ds u k"
  by (simp add: only_user_def)

lemma only_userD:
  assumes "only_user ds u k"
  obtains user where "um_find (users_online ds) u = Some user" "cu_session user = Some k"
    "\<And>v user. um_find (users_online ds) v = Some user \<Longrightarrow> (cu_session user = Some k) = (v = u)"
  using assms unfolding only_user_def by blast

lemma submit_inv:
  assumes inv: "edit_inv cs k base seen unseen st" and up: "es_up st = m # ms"
  shows "edit_inv cs k base seen unseen (st\<lparr>es_up := ms,
    es_session := fold (\<lambda>e ds. enqueue_command ds (operation_command cs (opm_revision m) e)) (opm_ops m) (es_session st)\<rparr>)"
    (is "edit_inv _ _ _ _ _ ?st")
proof -
  let ?cmds = "map (operation_command cs (opm_revision m)) (opm_ops m)"
  have cmds: "map cmd_operation (filter (\<lambda>c. cmd_userId c = cs_userId cs) ?cmds)
      = map (\<lambda>e. entry_operation e (cs_userId cs) (opm_revision m)) (opm_ops m)"
    by (simp add: filter_map comp_def operation_command_def)
  have fl: "flight cs ?st = flight cs st"
  proof -
    have "flight cs ?st = map cmd_operation (filter (\<lambda>c. cmd_userId c = cs_userId cs) (command_queue (es_session st) @ ?cmds))
        @ concat (map (\<lambda>m. map (\<lambda>e. entry_operation e (cs_userId cs) (opm_revision m)) (opm_ops m)) ms)"
      by (simp add: flight_def enqueue_all_commands)
    also have "\<dots> = flight cs st"
      by (simp add: flight_def up cmds del: filter_map)
    finally show ?thesis .
  qed
  have "list_all coherent (flight cs st)" using inv by (simp add: edit_inv_def Let_def)
  then have "list_all coherent (map (\<lambda>e. entry_operation e (cs_userId cs) (opm_revision m)) (opm_ops m))"
    by (simp add: flight_def up)
  then have "queue_ok cs k ?cmds"
    by (auto simp: queue_ok_def list_all_iff operation_command_def DocCommand_def entry_operation_def)
  then show ?thesis
    using inv fl by (simp add: edit_inv_def Let_def enqueue_all_commands queue_ok_def)
qed

lemma others_inv:
  assumes inv: "edit_inv cs k base seen unseen st"
    and "cmd_userId cmd \<noteq> cs_userId cs" "cmd_session cmd \<noteq> Some k" "cmd_type cmd \<in> {JoinCmd, LeaveCmd, OperationCmd}"
      "cmd_type cmd = OperationCmd \<longrightarrow> userId (cmd_operation cmd) = cmd_userId cmd \<and> coherent (cmd_operation cmd)"
  shows "edit_inv cs k base seen unseen (st\<lparr>es_session := enqueue_command (es_session st) cmd\<rparr>)"
proof -
  have "flight cs (st\<lparr>es_session := enqueue_command (es_session st) cmd\<rparr>) = flight cs st"
    using assms(2) by (simp add: flight_def enqueue_command_def fifo_enqueue_def)
  then show ?thesis
    using assms by (simp add: edit_inv_def Let_def enqueue_command_def fifo_enqueue_def queue_ok_def)
qed

section \<open>The server's steps\<close>

definition to_conn :: "u64 \<Rightarrow> outbox \<Rightarrow> message list" where
  "to_conn k out = map snd (filter (\<lambda>sm. fst sm = k) out)"

lemma to_conn_simps [simp]: "to_conn k [] = []" "to_conn k (out @ out') = to_conn k out @ to_conn k out'"
  by (simp_all add: to_conn_def)

lemma to_conn_locked_send: "alive k \<Longrightarrow> to_conn k (locked_send alive wp m) = (if wp = Some k then [m] else [])"
  by (auto simp: locked_send_def to_conn_def split: option.splits)

lemma to_conn_send:
  assumes "alive k" "only_user ds u k"
  shows "to_conn k (send_to_user alive ds v m) = (if v = u then [m] else [])"
proof (cases "um_find (users_online ds) v")
  case None
  with assms(2) have "v \<noteq> u" by (auto simp: only_user_def)
  with None show ?thesis by (simp add: send_to_user_def)
next
  case (Some user)
  then have "cu_session user = Some k \<longleftrightarrow> v = u" using assms(2) unfolding only_user_def by blast
  with Some assms(1) show ?thesis by (simp add: send_to_user_def to_conn_locked_send)
qed

lemma to_conn_broadcast:
  assumes "alive k" "um_wf (users_online ds)" "only_user ds u k"
  shows "to_conn k (broadcast alive ds m ex) = (if u \<noteq> ex then [m] else [])"
proof -
  let ?f = "\<lambda>(uid, user). if uid \<noteq> ex then locked_send alive (cu_session user) m else []"
  have none: "to_conn k (concat (map ?f us)) = []" if "\<forall>(v, user) \<in> set us. cu_session user \<noteq> Some k" for us
    using that by (induction us) (auto simp: to_conn_locked_send [of alive, OF assms(1)])
  obtain user where user: "um_find (users_online ds) u = Some user" "cu_session user = Some k"
    and one: "\<And>v user. um_find (users_online ds) v = Some user \<Longrightarrow> (cu_session user = Some k) = (v = u)"
    using only_userD [OF assms(3)] by blast
  then obtain us vs where split: "users_online ds = us @ (u, user) # vs"
    using assms(2) by (metis split_list um_find_in)
  then have "u \<notin> fst ` set us \<union> fst ` set vs" using assms(2) by (auto simp: um_wf_def)
  then have "cu_session user' \<noteq> Some k" if "(v, user') \<in> set us \<union> set vs" for v user'
    using one [of v user'] that split um_find_in [OF assms(2)] by force
  then have rest: "\<forall>(v, user) \<in> set us. cu_session user \<noteq> Some k" "\<forall>(v, user) \<in> set vs. cu_session user \<noteq> Some k"
    by auto
  show ?thesis
    using none [OF rest(1)] none [OF rest(2)] split user(2)
    by (simp add: broadcast_def to_conn_locked_send [of alive, OF assms(1)])
qed

lemma represents_transfer:
  "represents d base lg \<Longrightarrow> content d' = content d \<Longrightarrow> revision d' = revision d \<Longrightarrow>
   oldest_revision d' = oldest_revision d \<Longrightarrow> history d' = history d \<Longrightarrow> represents d' base lg"
  by (simp add: represents_def)

text \<open>What the thread does with the next command, as far as the client is concerned.\<close>

lemma process_operation:
  assumes "cmd_type cmd = OperationCmd" "process_command alive (ds, d) cmd = ((ds', d'), out)"
    and users: "alive k" "um_wf (users_online ds)" "only_user ds u k"
    and rep: "represents d base lg" "length lg < 2 ^ 32 - 1"
    and fresh: "cmd_userId cmd = u \<longrightarrow> \<not> too_old d (cmd_operation cmd)"
    and user: "userId (cmd_operation cmd) = cmd_userId cmd"
  shows "ds' = ds \<and> doc_id d' = doc_id d \<and>
    (if too_old d (cmd_operation cmd) then d' = d \<and> to_conn k out = []
     else represents d' base (log_submit lg (cmd_operation cmd))
       \<and> (\<exists>m. to_conn k out = [m] \<and> edit_msg m \<and> news u (doc_id d) m
            (Suc (length lg), rebase (cmd_operation cmd) (drop (unat (op_revision (cmd_operation cmd))) lg))))"
proof (cases "too_old d (cmd_operation cmd)")
  case True
  with assms show ?thesis
    by (auto simp: process_command_def handle_operation_cmd_def apply_with_ot_too_old to_conn_send)
next
  case False
  let ?op = "cmd_operation cmd"
  note acc = apply_with_ot_accepted [OF rep(1) False rep(2)]
  have "unat (revision (fst (apply_with_ot d ?op))) = Suc (length lg)"
    using acc(2) by (simp add: represents_def log_submit_def)
  then have rv: "revision (fst (apply_with_ot d ?op)) = word_of_nat (Suc (length lg))"
    using rep(2) by (simp add: word_unat_eq_iff unat_word_of_nat32 del: of_nat_Suc)
  let ?h = "rebase ?op (drop (unat (op_revision ?op)) lg)" and ?rv = "word_of_nat (Suc (length lg))"
  let ?ack = "OperationAckMsg \<lparr>ack_docId = doc_id d, ack_revision = ?rv\<rparr>"
    and ?op_msg = "OperationBroadcastMsg \<lparr>ob_docId = doc_id d, ob_userId = cmd_userId cmd,
       ob_username = cmd_username cmd, ob_revision = ?rv, ob_ops = [operation_entry ?h]\<rparr>"
  have eff: "ds' = ds" "d' = fst (apply_with_ot d ?op)"
    "out = send_to_user alive ds (cmd_userId cmd) ?ack @ broadcast alive ds ?op_msg (cmd_userId cmd)"
    using assms(1,2) acc(1)
    by (auto simp: process_command_def handle_operation_cmd_def split_beta Let_def rv simp del: of_nat_Suc)
  have "to_conn k out = [if cmd_userId cmd = u then ?ack else ?op_msg]"
    using to_conn_send [where alive = alive, OF users(1,3)] to_conn_broadcast [where alive = alive, OF users]
    by (simp add: eff(3) del: of_nat_Suc)
  then show ?thesis
    using False acc(2) user by (auto simp: eff(1,2) edit_msg_def news_def simp del: of_nat_Suc)
qed

lemma process_presence:
  assumes "cmd_type cmd = JoinCmd \<or> cmd_type cmd = LeaveCmd" "process_command alive (ds, d) cmd = ((ds', d'), out)"
    and "alive k" "um_wf (users_online ds)" "only_user ds u k"
    and "cmd_userId cmd \<noteq> u" "cmd_session cmd \<noteq> Some k"
  shows "um_wf (users_online ds') \<and> only_user ds' u k \<and> command_queue ds' = command_queue ds
    \<and> content d' = content d \<and> revision d' = revision d \<and> oldest_revision d' = oldest_revision d
    \<and> history d' = history d \<and> doc_id d' = doc_id d
    \<and> (\<forall>m \<in> set (to_conn k out). message_type_of m \<in> {UserJoined, UserLeft})"
proof -
  have wf: "um_wf (users_online ds')" "command_queue ds' = command_queue ds"
    using process_command_wf [OF assms(4,2)] by auto
  have d: "content d' = content d" "revision d' = revision d" "oldest_revision d' = oldest_revision d"
    "history d' = history d" "doc_id d' = doc_id d"
    using assms(1,2) by (auto simp: process_command_def handle_join_def handle_leave_def Let_def subscribe_def unsubscribe_def)
  have "um_find (users_online ds') v = (if v = cmd_userId cmd then um_find (users_online ds') v else um_find (users_online ds) v)"
    "um_find (users_online ds') (cmd_userId cmd) = Some user \<Longrightarrow> cu_session user \<noteq> Some k" for v user
    using assms(1,2,7) by (auto simp: process_command_def handle_join_def handle_leave_def Let_def umap)
  then have conn: "only_user ds' u k" using assms(5,6) unfolding only_user_def by metis
  have "\<exists>m ex. out = broadcast alive ds' m ex \<and> message_type_of m \<in> {UserJoined, UserLeft}"
    using assms(1,2) by (auto simp: process_command_def handle_join_def handle_leave_def Let_def) (metis message_type_of.simps)+
  then have "to_conn k out = [] \<or> (\<exists>m. to_conn k out = [m] \<and> message_type_of m \<in> {UserJoined, UserLeft})"
    using to_conn_broadcast [where alive = alive, OF assms(3) wf(1) conn] by (metis (full_types))
  then show ?thesis using wf d conn by auto
qed

lemma enumerate_snoc: "enumerate n (xs @ [x]) = enumerate n xs @ [(n + length xs, x)]"
  by (simp add: enumerate_append_eq)

text \<open>The log has grown by \<open>h\<close>, and the client will be told.\<close>

lemma edit_inv_log:
  assumes inv: "edit_inv cs k base seen unseen st" and h: "coherent h"
    and d': "represents d' base (seen @ unseen @ [h])" "doc_id d' = doc_id (es_document st)" "length (content d') < 2 ^ 32"
    and m: "edit_msg m" "news (cs_userId cs) (doc_id (es_document st)) m (Suc (length (seen @ unseen)), h)"
    and ds': "queue_ok cs k (command_queue ds')" "um_wf (users_online ds')" "only_user ds' (cs_userId cs) k"
    and st': "st' = st\<lparr>es_session := ds', es_document := d', es_down := es_down st @ [m]\<rparr>"
    and fl: "list_all coherent (flight cs st')" "own_pending (cs_userId cs) seen (unseen @ [h]) (outstanding (es_client st)) (flight cs st')"
  shows "edit_inv cs k base seen (unseen @ [h]) st'"
proof -
  have "content d' = replay base (seen @ unseen @ [h])" using d'(1) by (simp add: represents_def)
  then have "length (replay base (take n (seen @ unseen @ [h]))) < 2 ^ 32" if "n \<le> Suc (length (seen @ unseen))" for n
  proof (cases "n = Suc (length (seen @ unseen))")
    case True
    with d'(3) \<open>content d' = _\<close> show ?thesis by simp
  next
    case False
    then have "n \<le> length (seen @ unseen)" using that by simp
    moreover from this have "take n (seen @ unseen @ [h]) = take n (seen @ unseen)" by simp
    ultimately show ?thesis using inv by (simp only: edit_inv_def Let_def)
  qed
  then show ?thesis
    using inv h d' m ds' fl unfolding st'
    by (simp add: edit_inv_def Let_def enumerate_snoc list_all2_appendI del: take_append)
qed

lemma edit_inv_quiet:
  assumes inv: "edit_inv cs k base seen unseen st"
    and d': "represents d' base (seen @ unseen)" "doc_id d' = doc_id (es_document st)"
    and ms: "\<forall>m \<in> set ms. message_type_of m \<in> {UserJoined, UserLeft}"
    and ds': "queue_ok cs k (command_queue ds')" "um_wf (users_online ds')" "only_user ds' (cs_userId cs) k"
    and st': "st' = st\<lparr>es_session := ds', es_document := d', es_down := es_down st @ ms\<rparr>"
    and fl: "flight cs st' = flight cs st"
  shows "edit_inv cs k base seen unseen st'"
proof -
  have "filter edit_msg ms = []" using ms by (auto simp: filter_empty_conv edit_msg_def)
  moreover have "list_all (\<lambda>m. edit_msg m \<or> message_type_of m \<in> {UserJoined, UserLeft}) ms"
    using ms by (simp add: list_all_iff)
  ultimately show ?thesis
    using inv d' ds' fl unfolding st' by (simp add: edit_inv_def Let_def)
qed

lemma process_inv:
  assumes inv: "edit_inv cs k base seen unseen st" and alive: "alive k"
    and step: "run_step alive (es_session st, es_document st) = ((ds', d'), out)"
      "unat (revision (es_document st)) < 2 ^ 32 - 1" "length (content d') < 2 ^ 32"
      "\<forall>cmd q. command_queue (es_session st) = cmd # q \<and> cmd_userId cmd = cs_userId cs
        \<longrightarrow> \<not> too_old (es_document st) (cmd_operation cmd)"
    and st': "st' = st\<lparr>es_session := ds', es_document := d', es_down := es_down st @ to_conn k out\<rparr>"
  shows "\<exists>unseen'. edit_inv cs k base seen unseen' st'"
proof (cases "command_queue (es_session st)")
  case Nil
  then have "st' = st" using step(1) by (simp add: run_step_def fifo_try_dequeue_def st')
  with inv show ?thesis by blast
next
  case (Cons cmd q)
  let ?u = "cs_userId cs" and ?ds = "(es_session st)\<lparr>command_queue := q\<rparr>" and ?d = "es_document st"
  have run: "process_command alive (?ds, ?d) cmd = ((ds', d'), out)"
    using step(1) Cons by (simp add: run_step_def fifo_try_dequeue_def)
  have old: "represents ?d base (seen @ unseen)" "um_wf (users_online ?ds)" "only_user ?ds ?u k"
    "queue_ok cs k (cmd # q)" "list_all coherent (flight cs st)"
    "own_pending ?u seen unseen (outstanding (es_client st)) (flight cs st)"
    using inv Cons by (simp_all add: edit_inv_def Let_def)
  have fl: "flight cs st = (if cmd_userId cmd = ?u then [cmd_operation cmd] else [])
      @ flight cs (st\<lparr>es_session := ?ds\<rparr>)"
    by (simp add: flight_def Cons)
  show ?thesis
  proof (cases "cmd_type cmd = OperationCmd")
    case True
    let ?op = "cmd_operation cmd"
    have op: "userId ?op = cmd_userId cmd" "coherent ?op" using old(4) True by (simp_all add: queue_ok_def)
    have "length (seen @ unseen) < 2 ^ 32 - 1" using old(1) step(2) by (simp add: represents_def)
    note eff = process_operation [OF True run alive old(2,3,1) this _ op(1)]
    have fresh: "cmd_userId cmd = ?u \<longrightarrow> \<not> too_old ?d ?op" using step(4) Cons by blast
    have ds: "ds' = ?ds" "doc_id d' = doc_id ?d" using eff [OF fresh] by simp_all
    then have fl': "flight cs st' = flight cs (st\<lparr>es_session := ?ds\<rparr>)" by (simp add: flight_def st')
    have q: "queue_ok cs k (command_queue ds')" using old(4) by (simp add: ds queue_ok_def)
    show ?thesis
    proof (cases "too_old ?d ?op")
      case old_op: True
      then have "cmd_userId cmd \<noteq> ?u" "d' = ?d" "to_conn k out = []" using fresh eff [OF fresh] by auto
      then have "edit_inv cs k base seen unseen st'"
        using old(1,2,3) ds q fl fl'
        by (intro edit_inv_quiet [OF inv _ ds(2) _ q, of "[]"]) (simp_all add: st')
      then show ?thesis by blast
    next
      case False
      let ?h = "rebase ?op (drop (unat (op_revision ?op)) (seen @ unseen))"
      obtain m where m: "represents d' base (seen @ unseen @ [?h])" "to_conn k out = [m]" "edit_msg m"
        "news ?u (doc_id ?d) m (Suc (length (seen @ unseen)), ?h)"
        using eff [OF fresh] False by (auto simp: log_submit_def)
      have "own_pending ?u seen (unseen @ [?h]) (outstanding (es_client st)) (flight cs st')"
      proof (cases "cmd_userId cmd = ?u")
        case True
        then have "flight cs st = ?op # flight cs st'" using fl fl' by simp
        moreover from this have "flight cs st' = []" using old(6) by (auto simp: own_pending_def)
        ultimately show ?thesis using own_pending_accept [of ?u seen unseen _ ?op] old(6) op(1) True by simp
      next
        case False
        then show ?thesis using own_pending_log [OF old(6)] op(1) fl fl' by simp
      qed
      moreover have "list_all coherent (flight cs st')" using old(5) fl fl' by simp
      ultimately have "edit_inv cs k base seen (unseen @ [?h]) st'"
        using m ds q old(2,3) op(2) step(3)
        by (intro edit_inv_log [OF inv _ _ ds(2) step(3) m(3,4) q]) (simp_all add: st' coherent_rebase)
      then show ?thesis by blast
    qed
  next
    case False
    then have cmd: "cmd_type cmd = JoinCmd \<or> cmd_type cmd = LeaveCmd" "cmd_userId cmd \<noteq> ?u" "cmd_session cmd \<noteq> Some k"
      using old(4) by (auto simp: queue_ok_def split: if_splits)
    note eff = process_presence [OF cmd(1) run alive old(2,3) cmd(2,3)]
    have "represents d' base (seen @ unseen)" by (rule represents_transfer [OF old(1)]) (use eff in simp_all)
    moreover have "flight cs st' = flight cs st" using eff fl cmd(2) by (simp add: flight_def st')
    ultimately have "edit_inv cs k base seen unseen st'"
      using eff old(4) by (intro edit_inv_quiet [OF inv _ _ _ _ _ _ st']) (simp_all add: queue_ok_def)
    then show ?thesis by blast
  qed
qed

section \<open>The client's steps\<close>

text \<open>What arrives is what was sent, so the client handles the message itself.\<close>

lemma receive_ack:
  assumes "json_library J" "serialize J (OperationAckMsg a) = Some p"
  shows "onNetworkMessage J u c p = (if ack_docId a = ctl_doc_id c then handleAck c a else Some (c, []))"
  using json_library.parse_envelope_serialized [OF assms] json_library.parse_serialized [OF assms]
    json_values.OperationAck_roundtrip [of J a] json_library.axioms(1) [OF assms(1)]
  by (simp add: onNetworkMessage_def parse_as_def)

lemma receive_broadcast:
  assumes "json_library J" "serialize J (OperationBroadcastMsg b) = Some p" "list_all canonical_entry (ob_ops b)"
  shows "onNetworkMessage J u c p = (if ob_docId b = ctl_doc_id c then handleBroadcast u c b else Some (c, []))"
  using json_library.parse_envelope_serialized [OF assms(1,2)] json_library.parse_serialized [OF assms(1,2)]
    json_values.OperationBroadcast_roundtrip [OF _ assms(3), of J] json_library.axioms(1) [OF assms(1)]
  by (simp add: onNetworkMessage_def parse_as_def)

lemma receive_presence:
  assumes "json_library J" "serialize J m = Some p" "message_type_of m \<in> {UserJoined, UserLeft}"
  shows "onNetworkMessage J u c p = Some (c, [])"
  using json_library.parse_envelope_serialized [OF assms(1,2)] assms(3)
  by (auto simp: onNetworkMessage_def)

lemma replay_snoc:
  "length (replay base lg) < 2 ^ 32 \<Longrightarrow> replay base (lg @ [h]) = effect h (replay base lg)"
  by (simp add: replay_def apply_op_effect)

text \<open>The next entry of the log has been processed by the client.\<close>

lemma edit_inv_seen:
  assumes inv: "edit_inv cs k base seen (h # unseen) st"
    and down: "es_down st = m # ms" "edit_msg m"
    and known: "S = effect h (replay base seen)" "in_sync S c'"
    and c': "ctl_revision c' = word_of_nat (Suc (length seen))" "ctl_doc_id c' = ctl_doc_id (es_client st)"
      "list_all (\<lambda>p. coherent p \<and> userId p = cs_userId cs) (outstanding c')"
    and st': "st' = st\<lparr>es_client := c', es_up := es_up st @ reqs, es_down := ms, es_known := S\<rparr>"
    and fl: "list_all coherent (flight cs st')" "own_pending (cs_userId cs) (seen @ [h]) unseen (outstanding c') (flight cs st')"
  shows "edit_inv cs k base (seen @ [h]) unseen st'"
proof -
  have small: "length (replay base (take n (seen @ h # unseen))) < 2 ^ 32" if "n \<le> length (seen @ h # unseen)" for n
    using inv that by (simp only: edit_inv_def Let_def)
  have "replay base (seen @ [h]) = S"
    using small [of "length seen"] by (simp add: known(1) replay_snoc)
  moreover have "Suc (length seen) < 2 ^ 32"
    using inv unat_u32_less [of "revision (es_document st)"] by (simp add: edit_inv_def Let_def represents_def)
  then have "unat (ctl_revision c') = Suc (length seen)"
    by (simp add: c'(1) unat_word_of_nat32 del: of_nat_Suc)
  moreover have "\<forall>n \<le> length ((seen @ [h]) @ unseen). length (replay base (take n ((seen @ [h]) @ unseen))) < 2 ^ 32"
    using small by (simp del: take_append)
  ultimately show ?thesis
    using inv down known(2) c' fl unfolding st' by (simp add: edit_inv_def Let_def del: take_append of_nat_Suc)
qed

lemma broadcast_requests: "handleBroadcast u c b = Some (c', out) \<Longrightarrow> requests out = []"
proof -
  have one: "broadcast_entry c s = Some (c', out) \<Longrightarrow> requests out = []" for c s c' out
    by (auto simp: broadcast_entry_def Let_def split: if_splits option.splits prod.splits)
  have "broadcast_entries b c es = Some (c', out) \<Longrightarrow> requests out = []" for c c' es out
  proof (induction es arbitrary: c out)
    case (Cons e es)
    then show ?case by (auto simp: bind_eq_Some_conv dest: one)
  qed simp
  then show "handleBroadcast u c b = Some (c', out) \<Longrightarrow> requests out = []"
    by (auto simp: handleBroadcast_def bind_eq_Some_conv split: if_splits)
qed

lemma receive_ack_inv:
  assumes inv: "edit_inv cs k base seen (h # unseen) st" and h: "userId h = cs_userId cs"
    and down: "es_down st = m # ms" "m = OperationAckMsg \<lparr>ack_docId = doc_id (es_document st), ack_revision = word_of_nat (Suc (length seen))\<rparr>"
    and step: "handleAck (es_client st) \<lparr>ack_docId = doc_id (es_document st), ack_revision = word_of_nat (Suc (length seen))\<rparr> = Some (c', out)"
    and st': "st' = st\<lparr>es_client := c', es_up := es_up st @ requests out, es_down := ms,
          es_known := heard (es_known st) (es_client st) m\<rparr>"
  shows "edit_inv cs k base (seen @ [h]) unseen st'"
proof -
  let ?u = "cs_userId cs" and ?c = "es_client st" and ?rv = "word_of_nat (Suc (length seen)) :: u32"
  have old: "in_sync (replay base seen) ?c" "es_known st = replay base seen"
    "list_all (\<lambda>p. coherent p \<and> userId p = ?u) (outstanding ?c)"
    "own_pending ?u seen (h # unseen) (outstanding ?c) (flight cs st)" "Suc (length seen) < 2 ^ 32"
    using inv unat_u32_less [of "revision (es_document st)"] by (simp_all add: edit_inv_def Let_def represents_def)
  obtain p ps where p: "outstanding ?c = p # ps" "flight cs st = []" "same_edit p h" "none_by ?u unseen"
    using own_pending_ack [OF old(4) h] by blast
  let ?msg = "\<lparr>ack_docId = doc_id (es_document st), ack_revision = ?rv\<rparr>"
  obtain c1 out1 where a1: "handleAck ?c ?msg = Some (c1, out1)" and c1: "in_sync (effect p (replay base seen)) c1" "outstanding c1 = ps"
    "ctl_revision c1 = ?rv" "ctl_doc_id c1 = ctl_doc_id ?c"
    "out1 = RevisionChanged ?rv # (case ps of [] \<Rightarrow> [] | q # qs \<Rightarrow> [sendOp (?c\<lparr>ctl_revision := ?rv\<rparr>) q]) @ [emitStateLabel c1]"
    using handleAck_sync [OF old(1) p(1), of ?msg] unfolding operation_ack_msg.simps by blast
  have "c1 = c'" "out1 = out" using a1 step by (simp_all del: of_nat_Suc)
  note c' = c1 [unfolded this]
  have known: "heard (es_known st) ?c m = effect h (replay base seen)"
    by (simp add: heard_def down(2) p(1) old(2) same_edit_effect [OF p(3)])
  have flight': "flight cs st' = (case ps of [] \<Rightarrow> [] | q # qs \<Rightarrow> [entry_operation (to_entry q) ?u ?rv])"
    using p(2) by (cases ps) (simp_all add: st' flight_def c'(5) emitStateLabel_def sendOp_def)
  have fl: "list_all coherent (flight cs st') \<and> own_pending ?u (seen @ [h]) unseen ps (flight cs st')"
  proof (cases ps)
    case Nil
    then show ?thesis using p(4) by (simp add: flight' own_pending_def)
  next
    case (Cons q qs)
    then have q: "coherent q" "userId q = ?u" using old(3) p(1) by simp_all
    have "unat ?rv = Suc (length seen)" using old(5) by (simp add: unat_word_of_nat32 del: of_nat_Suc)
    then have "unat (op_revision (entry_operation (to_entry q) ?u ?rv)) = length (seen @ [h])"
      by (simp add: entry_operation_def del: of_nat_Suc)
    then show ?thesis
      using entry_restores [OF q] p(4) by (simp add: flight' Cons own_pending_send same_edit_sym del: of_nat_Suc)
  qed
  show ?thesis
    by (rule edit_inv_seen [OF inv down(1) _ refl _ c'(3,4) _ st' [unfolded known]])
      (use c'(1,2) old(3) p(1,3) fl down(2) in \<open>simp_all add: edit_msg_def same_edit_effect st' [symmetric]\<close>)
qed

lemma receive_broadcast_inv:
  assumes inv: "edit_inv cs k base seen (h # unseen) st" and h: "userId h \<noteq> cs_userId cs"
    and down: "es_down st = m # ms" "m = OperationBroadcastMsg b"
    and b: "b = \<lparr>ob_docId = doc_id (es_document st), ob_userId = userId h, ob_username = name,
              ob_revision = word_of_nat (Suc (length seen)), ob_ops = [operation_entry h]\<rparr>"
    and step: "handleBroadcast (cs_userId cs) (es_client st) b = Some (c', out)"
    and ok: "transformable (es_known st) (es_client st) m"
    and st': "st' = st\<lparr>es_client := c', es_up := es_up st @ requests out, es_down := ms,
          es_known := heard (es_known st) (es_client st) m\<rparr>"
  shows "edit_inv cs k base (seen @ [h]) unseen st'"
proof -
  let ?u = "cs_userId cs" and ?c = "es_client st"
  let ?s = "from_entry (operation_entry h) (userId h) (word_of_nat (Suc (length seen)))"
  have ops: "received_ops b = [?s]" by (simp add: received_ops_def b)
  have old: "in_sync (replay base seen) ?c" "es_known st = replay base seen" "coherent h"
    "list_all (\<lambda>p. coherent p \<and> userId p = ?u) (outstanding ?c)" "list_all coherent (flight cs st)"
    "own_pending ?u seen (h # unseen) (outstanding ?c) (flight cs st)"
    using inv by (simp_all add: edit_inv_def Let_def)
  have same: "same_edit ?s h" using entry_restores(2) [OF old(3) refl] .
  have neq: "ob_userId b \<noteq> ?u" using h by (simp add: b)
  have lad: "ladders_ok (replay base seen) (map (\<lambda>e. from_entry e (ob_userId b) (ob_revision b)) (ob_ops b)) (outstanding ?c)"
    using ok by (simp add: transformable_def down(2) old(2) received_ops_def)
  obtain c1 out1 where c1: "handleBroadcast ?u ?c b = Some (c1, out1)"
    "in_sync (fold effect (received_ops b) (replay base seen)) c1" "outstanding c1 = fold carry (received_ops b) (outstanding ?c)"
    "ctl_revision c1 = ob_revision b" "ctl_doc_id c1 = ctl_doc_id ?c"
    using handleBroadcast_sync [OF old(1) neq lad] unfolding received_ops_def by blast
  have c': "in_sync (effect h (replay base seen)) c'" "outstanding c' = carry ?s (outstanding ?c)"
    "ctl_revision c' = word_of_nat (Suc (length seen))" "ctl_doc_id c' = ctl_doc_id ?c"
    using c1 step same_edit_effect [OF same] by (simp_all add: received_ops_def b del: of_nat_Suc)
  have known: "heard (es_known st) ?c m = effect h (replay base seen)"
    by (simp add: heard_def down(2) ops old(2) same_edit_effect [OF same] del: of_nat_Suc)
  have "requests out = []"
    using step broadcast_requests [of ?u ?c b c' out] by simp
  then have fl: "flight cs st' = flight cs st" by (simp add: st' flight_def)
  have "list_all coherent (outstanding ?c)" "list_all (\<lambda>p. userId p = ?u) (outstanding ?c)"
    using old(4) by (simp_all add: list_all_iff)
  from coherent_carry [OF this(1), of ?s] user_carry [OF this(2), of ?s]
  have out': "list_all (\<lambda>p. coherent p \<and> userId p = ?u) (outstanding c')"
    unfolding c'(2) by (simp only: list_all_iff) blast
  show ?thesis
    by (rule edit_inv_seen [OF inv down(1) _ refl c'(1,3,4) out' st' [unfolded known]])
      (use old(5,6) down(2) own_pending_remote [OF old(6) h same] c'(2) fl in \<open>simp_all add: edit_msg_def\<close>)
qed

lemma receive_inv:
  assumes inv: "edit_inv cs k base seen unseen st" and J: "json_library J"
    and step: "es_down st = m # ms" "serialize J m = Some payload"
      "onNetworkMessage J (cs_userId cs) (es_client st) payload = Some (c', out)"
      "transformable (es_known st) (es_client st) m"
    and st': "st' = st\<lparr>es_client := c', es_up := es_up st @ requests out, es_down := ms,
          es_known := heard (es_known st) (es_client st) m\<rparr>"
  shows "\<exists>seen' unseen'. edit_inv cs k base seen' unseen' st'"
proof (cases "edit_msg m")
  case False
  then have m: "message_type_of m \<in> {UserJoined, UserLeft}"
    using inv step(1) by (simp add: edit_inv_def Let_def)
  then have "heard (es_known st) (es_client st) m = es_known st" by (cases m) (simp_all add: heard_def)
  moreover have "c' = es_client st" "out = []" using receive_presence [OF J step(2) m] step(3) by simp_all
  moreover from this have "flight cs st' = flight cs st" by (simp add: st' flight_def)
  ultimately have "edit_inv cs k base seen unseen st'"
    using inv step(1) False unfolding st' by (simp add: edit_inv_def Let_def)
  then show ?thesis by blast
next
  case True
  let ?u = "cs_userId cs"
  have same_doc: "ctl_doc_id (es_client st) = doc_id (es_document st)" using inv by (simp add: edit_inv_def Let_def)
  have "list_all2 (news ?u (doc_id (es_document st))) (m # filter edit_msg ms) (enumerate (Suc (length seen)) unseen)"
    using inv step(1) True by (simp add: edit_inv_def Let_def)
  then obtain h rest where unseen: "unseen = h # rest" "news ?u (doc_id (es_document st)) m (Suc (length seen), h)"
    by (cases unseen) auto
  note inv' = inv [unfolded unseen(1)]
  show ?thesis
  proof (cases "userId h = ?u")
    case own: True
    then have m: "m = OperationAckMsg \<lparr>ack_docId = doc_id (es_document st), ack_revision = word_of_nat (Suc (length seen))\<rparr>"
      using unseen(2) by (simp add: news_def del: of_nat_Suc)
    then have "handleAck (es_client st) \<lparr>ack_docId = doc_id (es_document st), ack_revision = word_of_nat (Suc (length seen))\<rparr>
        = Some (c', out)"
      using receive_ack [OF J step(2) [unfolded m]] step(3) same_doc by (simp del: of_nat_Suc)
    from receive_ack_inv [OF inv' own step(1) m this st'] show ?thesis by blast
  next
    case other: False
    then obtain name where m: "m = OperationBroadcastMsg \<lparr>ob_docId = doc_id (es_document st), ob_userId = userId h,
        ob_username = name, ob_revision = word_of_nat (Suc (length seen)), ob_ops = [operation_entry h]\<rparr>" (is "_ = OperationBroadcastMsg ?b")
      using unseen(2) by (auto simp: news_def simp del: of_nat_Suc)
    have "coherent h" using inv' by (simp add: edit_inv_def Let_def)
    then have "handleBroadcast ?u (es_client st) ?b = Some (c', out)"
      using receive_broadcast [OF J step(2) [unfolded m]] entry_restores(3) [of h "userId h"] step(3) same_doc
      by (simp del: of_nat_Suc)
    from receive_broadcast_inv [OF inv' other step(1) m refl this step(4) st'] show ?thesis by blast
  qed
qed

lemma edit_reachable_inv:
  assumes "(edit_step J cs k alive)\<^sup>*\<^sup>* st0 st" "json_library J" "alive k" "edit_start cs k st0"
  shows "\<exists>base seen unseen. edit_inv cs k base seen unseen st"
  using assms(1)
proof (induction rule: rtranclp_induct)
  case base
  then show ?case using edit_start_inv [OF assms(4)] by blast
next
  case (step st st')
  then obtain base seen unseen where inv: "edit_inv cs k base seen unseen st" by blast
  from step.hyps(2) show ?case
  proof cases
    case (typing ops c' out)
    with typing_inv [OF inv typing(2-4)] show ?thesis by blast
  next
    case (submit m ms)
    with submit_inv [OF inv submit(2)] show ?thesis by blast
  next
    case (others cmd)
    with others_inv [OF inv others(2-5)] show ?thesis by blast
  next
    case (process ds' d' out)
    with process_inv [OF inv assms(3) process(2-5)] show ?thesis unfolding to_conn_def by blast
  next
    case (receive m ms payload c' out)
    with receive_inv [OF inv assms(2) receive(2-5)] show ?thesis by blast
  qed
qed

section \<open>Convergence\<close>

lemma edit_inv_converged:
  assumes inv: "edit_inv cs k base seen unseen st"
  shows "in_sync (es_known st) (es_client st)
    \<and> (es_up st = [] \<and> es_down st = [] \<and> command_queue (es_session st) = [] \<longrightarrow>
        outstanding (es_client st) = [] \<and> ctl_state (es_client st) = Synchronized
        \<and> ld_content (ctl_doc (es_client st)) = content (es_document st)
        \<and> ctl_revision (es_client st) = revision (es_document st))"
proof -
  from inv have sync: "in_sync (replay base seen) (es_client st)" "es_known st = replay base seen"
    and rep: "represents (es_document st) base (seen @ unseen)" "unat (ctl_revision (es_client st)) = length seen"
    and own: "own_pending (cs_userId cs) seen unseen (outstanding (es_client st)) (flight cs st)"
    and news: "list_all2 (news (cs_userId cs) (doc_id (es_document st))) (filter edit_msg (es_down st))
        (enumerate (Suc (length seen)) unseen)"
    by (simp_all add: edit_inv_def Let_def)
  have "outstanding (es_client st) = [] \<and> ctl_state (es_client st) = Synchronized
        \<and> ld_content (ctl_doc (es_client st)) = content (es_document st)
        \<and> ctl_revision (es_client st) = revision (es_document st)"
    if quiet: "es_up st = []" "es_down st = []" "command_queue (es_session st) = []"
  proof -
    have "unseen = []" using news quiet(2) by (cases unseen) simp_all
    moreover have "flight cs st = []" using quiet(1,3) by (simp add: flight_def)
    ultimately have "outstanding (es_client st) = []" using own by (auto simp: own_pending_def)
    with sync(1) rep \<open>unseen = []\<close> show ?thesis
      by (simp add: in_sync_def ctl_inv_outstanding represents_def word_unat_eq_iff)
  qed
  with sync show ?thesis by simp
qed


text \<open>
  C4: client and server converge. In every run of the system, with any interleaving of typing,
  sending, processing and receiving and any commands of other users, the client's text is the
  server's text as far as the client has heard of it with the client's outstanding operations
  applied; and when nothing is on its way, nothing is outstanding and the client has the text and
  the revision of the server. The run starts when the client is registered with the session, each
  broadcast can be transformed past the outstanding operations, and texts and revisions stay in
  their ranges.
\<close>

theorem client_and_server_converge:
  assumes "json_library J" "alive k" "edit_start cs k st0" "(edit_step J cs k alive)\<^sup>*\<^sup>* st0 st"
  shows "in_sync (es_known st) (es_client st)
    \<and> (es_up st = [] \<and> es_down st = [] \<and> command_queue (es_session st) = [] \<longrightarrow>
        outstanding (es_client st) = [] \<and> ctl_state (es_client st) = Synchronized
        \<and> ld_content (ctl_doc (es_client st)) = content (es_document st)
        \<and> ctl_revision (es_client st) = revision (es_document st))"
  using edit_reachable_inv [OF assms(4,1,2,3)] edit_inv_converged by blast

text \<open>A run in which user 5 types a character while user 6 has typed another one.\<close>

definition example_typist :: client_session where
  "example_typist = set_auth (ClientSession 1) 5 ''eve'' []"

definition example_editing :: editing where
  "example_editing = \<lparr>es_client = OTController (LocalDocument ''ab'' 0) 1 0, es_up = [],
     es_session = \<lparr>ds_docref = 0, command_queue = [],
       users_online = [(5, \<lparr>cu_userId = 5, cu_username = ''eve'', cu_color = [], cu_session = Some 1\<rparr>)],
       stop_requested = False\<rparr>,
     es_document = load_content (Document 1 ''t'') ''ab'', es_down = [], es_known = ''ab''\<rparr>"

definition do_process :: "editing \<Rightarrow> editing" where
  "do_process st = (case run_step (\<lambda>_. True) (es_session st, es_document st) of
     ((ds', d'), out) \<Rightarrow> st\<lparr>es_session := ds', es_document := d',
        es_down := es_down st @ map snd (filter (\<lambda>sm. fst sm = 1) out)\<rparr>)"

definition do_receive :: "editing \<Rightarrow> editing" where
  "do_receive st = (case es_down st of
     OperationBroadcastMsg b # ms \<Rightarrow> (case handleBroadcast 5 (es_client st) b of
        Some (c', out) \<Rightarrow> st\<lparr>es_client := c', es_up := es_up st @ requests out, es_down := ms,
          es_known := heard (es_known st) (es_client st) (OperationBroadcastMsg b)\<rparr> | None \<Rightarrow> st)
   | OperationAckMsg a # ms \<Rightarrow> (case handleAck (es_client st) a of
        Some (c', out) \<Rightarrow> st\<lparr>es_client := c', es_up := es_up st @ requests out, es_down := ms,
          es_known := heard (es_known st) (es_client st) (OperationAckMsg a)\<rparr> | None \<Rightarrow> st)
   | _ \<Rightarrow> st)"

definition ex1 :: editing where
  "ex1 = example_editing\<lparr>es_session := enqueue_command (es_session example_editing)
     ((DocCommand OperationCmd)\<lparr>cmd_operation := make_insert 2 ''y'' 6 0, cmd_userId := 6\<rparr>)\<rparr>"

definition ex2 :: editing where
  "ex2 = (case onLocalOperations (cs_userId example_typist) (es_client ex1) [make_insert 0 ''x'' 0 0] of (c', out) \<Rightarrow>
     ex1\<lparr>es_client := c', es_up := es_up ex1 @ requests out\<rparr>)"

definition ex3 :: editing where
  "ex3 = ex2\<lparr>es_up := [], es_session := fold (\<lambda>e ds. enqueue_command ds (operation_command example_typist 0 e))
     [\<lparr>oe_op = ''insert'', oe_pos = 0, oe_text = ''x'', oe_len = 0\<rparr>] (es_session ex2)\<rparr>"

definition ex5 :: editing where "ex5 = do_process (do_process ex3)"

definition ex7 :: editing where "ex7 = do_receive (do_receive ex5)"

lemma process_step:
  assumes "unat (revision (es_document st)) < 2 ^ 32 - 1" "length (content (es_document (do_process st))) < 2 ^ 32"
    "\<forall>cmd q. command_queue (es_session st) = cmd # q \<longrightarrow> \<not> too_old (es_document st) (cmd_operation cmd)"
  shows "edit_step J cs 1 (\<lambda>_. True) st (do_process st)"
proof -
  obtain ds' d' out where run: "run_step (\<lambda>_. True) (es_session st, es_document st) = ((ds', d'), out)"
    by (metis prod.collapse)
  then show ?thesis
    using edit_step.process [OF run, of cs J 1] assms by (simp add: do_process_def)
qed

lemma receive_step:
  assumes "json_library J" "\<And>m. serialize J m \<noteq> None" "cs_userId cs = 5" "ctl_inv (es_client st)"
    and "es_down st = m # ms" "transformable (es_known st) (es_client st) m"
    and "(\<exists>a. m = OperationAckMsg a \<and> ack_docId a = ctl_doc_id (es_client st))
      \<or> (\<exists>b. m = OperationBroadcastMsg b \<and> ob_docId b = ctl_doc_id (es_client st) \<and> list_all canonical_entry (ob_ops b))"
  shows "edit_step J cs k alive st (do_receive st)"
proof -
  obtain p where p: "serialize J m = Some p" using assms(2) [of m] by blast
  from assms(7) show ?thesis
  proof
    assume "\<exists>a. m = OperationAckMsg a \<and> ack_docId a = ctl_doc_id (es_client st)"
    then obtain a where a: "m = OperationAckMsg a" "ack_docId a = ctl_doc_id (es_client st)" by blast
    obtain c' out where h: "handleAck (es_client st) a = Some (c', out)" using handleAck_inv [OF assms(4)] by blast
    have "onNetworkMessage J (cs_userId cs) (es_client st) p = Some (c', out)"
      using receive_ack [OF assms(1) p [unfolded a(1)]] a(2) h by simp
    from edit_step.receive [OF assms(5) p this assms(6)] show ?thesis
      using assms(5) h by (simp add: do_receive_def a(1))
  next
    assume "\<exists>b. m = OperationBroadcastMsg b \<and> ob_docId b = ctl_doc_id (es_client st) \<and> list_all canonical_entry (ob_ops b)"
    then obtain b where b: "m = OperationBroadcastMsg b" "ob_docId b = ctl_doc_id (es_client st)"
      "list_all canonical_entry (ob_ops b)" by blast
    obtain c' out where h: "handleBroadcast 5 (es_client st) b = Some (c', out)" using handleBroadcast_inv [OF assms(4)] by blast
    have "onNetworkMessage J (cs_userId cs) (es_client st) p = Some (c', out)"
      using receive_broadcast [OF assms(1) p [unfolded b(1)] b(3)] b(2) h assms(3) by simp
    from edit_step.receive [OF assms(5) p this assms(6)] show ?thesis
      using assms(5) h by (simp add: do_receive_def b(1))
  qed
qed

lemma example_steps:
  "edit_step J example_typist 1 (\<lambda>_. True) example_editing ex1"
  "edit_step J example_typist 1 (\<lambda>_. True) ex1 ex2"
  "edit_step J example_typist 1 (\<lambda>_. True) ex2 ex3"
  "edit_step J example_typist 1 (\<lambda>_. True) ex3 (do_process ex3)"
  "edit_step J example_typist 1 (\<lambda>_. True) (do_process ex3) ex5"
proof -
  have u: "cs_userId example_typist = 5" by (simp add: example_typist_def set_auth_def)
  show "edit_step J example_typist 1 (\<lambda>_. True) example_editing ex1"
    unfolding ex1_def by (rule edit_step.others) (simp_all add: u DocCommand_def)
  have "ld_content (ctl_doc (es_client ex1)) = ''ab''" by code_simp
  then show "edit_step J example_typist 1 (\<lambda>_. True) ex1 ex2"
    unfolding ex2_def
    by (cases "onLocalOperations (cs_userId example_typist) (es_client ex1) [make_insert 0 ''x'' 0 0]")
      (simp add: edit_step.typing added_def)
  have "es_up ex2 = [\<lparr>opm_docId = 1, opm_revision = 0, opm_ops = [\<lparr>oe_op = ''insert'', oe_pos = 0, oe_text = ''x'', oe_len = 0\<rparr>]\<rparr>]"
    by code_simp
  from edit_step.submit [OF this, of J example_typist 1 "\<lambda>_. True"]
  show "edit_step J example_typist 1 (\<lambda>_. True) ex2 ex3" by (simp add: ex3_def)
  have rv: "revision (es_document ex3) = 0" "revision (es_document (do_process ex3)) = 1"
    "oldest_revision (es_document ex3) = 0" "oldest_revision (es_document (do_process ex3)) = 0" by code_simp+
  have c: "content (es_document (do_process ex3)) = ''aby''" "content (es_document ex5) = ''xaby''" by code_simp+
  show "edit_step J example_typist 1 (\<lambda>_. True) ex3 (do_process ex3)"
    by (rule process_step) (simp_all add: rv c too_old_def)
  show "edit_step J example_typist 1 (\<lambda>_. True) (do_process ex3) ex5"
    unfolding ex5_def by (rule process_step) (simp_all add: rv c(2) [unfolded ex5_def] too_old_def)
qed

lemma example_receives:
  "edit_step json_text example_typist 1 (\<lambda>_. True) ex5 (do_receive ex5)"
  "edit_step json_text example_typist 1 (\<lambda>_. True) (do_receive ex5) ex7"
proof -
  have u: "cs_userId example_typist = 5" by (simp add: example_typist_def set_auth_def)
  have ser: "serialize json_text m \<noteq> None" for m by (simp add: serialize_def json_text_serializes)
  have d5: "es_down ex5 = [OperationBroadcastMsg \<lparr>ob_docId = 1, ob_userId = 6, ob_username = [], ob_revision = 1,
      ob_ops = [\<lparr>oe_op = ''insert'', oe_pos = 2, oe_text = ''y'', oe_len = 0\<rparr>]\<rparr>,
      OperationAckMsg \<lparr>ack_docId = 1, ack_revision = 2\<rparr>]" by code_simp
  have d6: "es_down (do_receive ex5) = [OperationAckMsg \<lparr>ack_docId = 1, ack_revision = 2\<rparr>]" by code_simp
  have i: "ctl_doc_id (es_client ex5) = 1" "ctl_doc_id (es_client (do_receive ex5)) = 1" by code_simp+
  have inv: "ctl_inv (es_client ex5)" "ctl_inv (es_client (do_receive ex5))" by code_simp+
  have "outstanding (es_client ex5) = [make_insert 0 ''x'' 5 0]" "es_known ex5 = ''ab''" by code_simp+
  then have ok: "transformable (es_known ex5) (es_client ex5) (OperationBroadcastMsg \<lparr>ob_docId = 1, ob_userId = 6,
      ob_username = [], ob_revision = 1, ob_ops = [\<lparr>oe_op = ''insert'', oe_pos = 2, oe_text = ''y'', oe_len = 0\<rparr>]\<rparr>)"
    by (simp add: transformable_def received_ops_def from_entry_def concurrent_eval effect_def make_insert_def)
  show "edit_step json_text example_typist 1 (\<lambda>_. True) ex5 (do_receive ex5)"
    by (rule receive_step [OF json_text.json_library_axioms ser u inv(1) d5 ok]) (simp add: i canonical_entry_def)
  show "edit_step json_text example_typist 1 (\<lambda>_. True) (do_receive ex5) ex7"
    unfolding ex7_def
    by (rule receive_step [OF json_text.json_library_axioms ser u inv(2) d6]) (simp_all add: i transformable_def)
qed

theorem client_and_server_converge_witness:
  "ld_content (ctl_doc (es_client ex7)) = content (es_document ex7) \<and> content (es_document ex7) = ''xaby''"
proof -
  have start: "edit_start example_typist 1 example_editing"
  proof -
    have "represents (es_document example_editing) ''ab'' []"
      by (simp add: example_editing_def Document_represents)
    moreover have "only_user (es_session example_editing) (cs_userId example_typist) 1"
      by (simp add: only_user_def example_editing_def example_typist_def set_auth_def um_find_def)
    ultimately show ?thesis
      unfolding edit_start_def
      by (intro conjI exI [of _ "''ab''"] exI [of _ "[]"])
        (simp_all add: example_editing_def replay_def load_content_def Document_def um_wf_def)
  qed
  have "(edit_step json_text example_typist 1 (\<lambda>_. True))\<^sup>*\<^sup>* example_editing ex7"
    (is "?R\<^sup>*\<^sup>* _ _")
    by (intro converse_rtranclp_into_rtranclp [of ?R, OF example_steps(1)] converse_rtranclp_into_rtranclp [of ?R, OF example_steps(2)]
        converse_rtranclp_into_rtranclp [of ?R, OF example_steps(3)] converse_rtranclp_into_rtranclp [of ?R, OF example_steps(4)]
        converse_rtranclp_into_rtranclp [of ?R, OF example_steps(5)] converse_rtranclp_into_rtranclp [of ?R, OF example_receives(1)]
        r_into_rtranclp [of ?R, OF example_receives(2)])
  from client_and_server_converge [OF json_text.json_library_axioms _ start this]
  have "es_up ex7 = [] \<and> es_down ex7 = [] \<and> command_queue (es_session ex7) = [] \<longrightarrow>
      ld_content (ctl_doc (es_client ex7)) = content (es_document ex7)" by blast
  moreover have "es_up ex7 = []" "es_down ex7 = []" "command_queue (es_session ex7) = []"
    "content (es_document ex7) = ''xaby''" by code_simp+
  ultimately show ?thesis by simp
qed

end
