(* ===== verification/Collab_Transport.thy ===== *)
theory Collab_Transport
  imports Client_Thread Collab_System Server_Lifecycle
begin

text \<open>
  The same client and server with everything that lies between them: the event queue of the
  client's network thread, the bytes on the way to the server, the frame reader of the server's
  session, the thread pool, the message handler, the document thread, the write queue of the
  session, the bytes on the way back, the client's frame reader and the signals queued for the
  thread of the user interface. The result is that this refines \<^verbatim>\<open>Collab_System\<close>, where whole
  messages travel in order, so that the texts converge here too.
\<close>

section \<open>The state\<close>

text \<open>
  \<open>ws_pool\<close> holds the payloads of this connection for which a task has been submitted and not yet
  run, \<open>ws_taken\<close> counts the bytes of the front of the write queue that the pending
  \<^verbatim>\<open>async_write\<close> has passed on, \<open>ws_inbox\<close> the payloads of the signals \<^verbatim>\<open>messageReceived\<close> that
  the controller has not handled. \<open>ws_handled\<close> (how many of the messages sent to the connection
  the controller has handled) and \<open>ws_known\<close> are not part of the programs.
\<close>

record 'q wire_state =
  ws_client :: ot_controller
  ws_net :: "'q network_thread"
  ws_up :: "u8 list"
  ws_pool :: "string list"
  ws_server :: server
  ws_taken :: nat
  ws_down :: "u8 list"
  ws_inbox :: "string list"
  ws_handled :: nat
  ws_known :: string

text \<open>The controller hands its requests to the network manager, each as one payload.\<close>

definition post_requests :: "'j json_api \<Rightarrow> ctl_effect list \<Rightarrow> 'q network_thread \<Rightarrow> 'q network_thread option" where
  "post_requests J out th =
     (case those (map (\<lambda>m. serialize J (OperationMsg m)) (requests out)) of
        None \<Rightarrow> None
      | Some ps \<Rightarrow> Some (fold network_send ps th))"

text \<open>What was sent to connection \<open>k\<close> since the server was started.\<close>

definition sent_to :: "u64 \<Rightarrow> server \<Rightarrow> message list" where
  "sent_to k sv = to_conn k (sent sv)"

definition fits_frame :: "string \<Rightarrow> bool" where
  "fits_frame p = (length p \<le> 16777216)"

definition document_of :: "server \<Rightarrow> document_session \<Rightarrow> document" where
  "document_of sv ds = deref (dm sv) (ds_docref ds)"

section \<open>The steps\<close>

text \<open>
  The steps for connection \<open>k\<close>, whose user edits document \<open>D\<close>. A worker may take any of the
  waiting tasks. What the steps require of texts, revisions and the age of operations is what
  \<open>edit_step\<close> requires; in addition a message is written as JSON and fits into a frame.
\<close>

inductive wire_step ::
  "'j env \<Rightarrow> u64 \<Rightarrow> u32 \<Rightarrow> (u64 \<Rightarrow> bool) \<Rightarrow> 'q wire_state \<Rightarrow> 'q wire_state \<Rightarrow> bool"
  for E k D alive where
  typing: "\<lbrakk>onLocalOperations (nm_user_id (nt_manager (ws_net w))) (ws_client w) ops = (c', out); list_all coherent ops;
      length (ld_content (ctl_doc (ws_client w))) + sum_list (map added ops) < 2 ^ 32;
      post_requests (json E) out (ws_net w) = Some th'\<rbrakk>
    \<Longrightarrow> wire_step E k D alive w (w\<lparr>ws_client := c', ws_net := th'\<rparr>)"
| network: "\<lbrakk>network_turn (ws_net w) = (th', out); \<forall>p calls. nt_calls (ws_net w) = SendFrame p # calls \<longrightarrow> fits_frame p\<rbrakk>
    \<Longrightarrow> wire_step E k D alive w (w\<lparr>ws_net := th', ws_up := ws_up w @ written out\<rparr>)"
| server_reads: "\<lbrakk>ws_up w = b # bs; recv_byte (conn (ws_server w) k) b = (s', evs)\<rbrakk>
    \<Longrightarrow> wire_step E k D alive w (w\<lparr>ws_up := bs, ws_server := put_conn (ws_server w) k s',
          ws_pool := ws_pool w @ payloads evs\<rparr>)"
| worker: "\<lbrakk>ws_pool w = ps @ p # ps'; handle_message E (ws_server w) k p = (sv', threw)\<rbrakk>
    \<Longrightarrow> wire_step E k D alive w (w\<lparr>ws_pool := ps @ ps', ws_server := sv'\<rparr>)"
| others: "\<lbrakk>cmd_userId cmd \<noteq> cs_userId (conn (ws_server w) k); cmd_session cmd \<noteq> Some k;
      cmd_type cmd \<in> {JoinCmd, LeaveCmd, OperationCmd};
      cmd_type cmd = OperationCmd \<longrightarrow> userId (cmd_operation cmd) = cmd_userId cmd \<and> coherent (cmd_operation cmd)\<rbrakk>
    \<Longrightarrow> wire_step E k D alive w (w\<lparr>ws_server := (ws_server w)\<lparr>dm := enqueue_to (dm (ws_server w)) D cmd\<rparr>\<rparr>)"
| document: "\<lbrakk>sv' = document_thread E alive (ws_server w) D; get_session (dm (ws_server w)) D = Some ds;
      unat (revision (document_of (ws_server w) ds)) < 2 ^ 32 - 1; length (content (document_of sv' ds)) < 2 ^ 32;
      \<forall>cmd q. command_queue ds = cmd # q \<and> cmd_userId cmd = cs_userId (conn (ws_server w) k)
        \<longrightarrow> \<not> too_old (document_of (ws_server w) ds) (cmd_operation cmd);
      \<forall>m \<in> set (to_conn k (snd (session_thread alive (dm (ws_server w)) D))).
        \<exists>p. serialize (json E) m = Some p \<and> fits_frame p\<rbrakk>
    \<Longrightarrow> wire_step E k D alive w (w\<lparr>ws_server := sv'\<rparr>)"
| server_writes: "\<lbrakk>writing (conn (ws_server w) k); write_queue (conn (ws_server w) k) = f # fs; ws_taken w < length f\<rbrakk>
    \<Longrightarrow> wire_step E k D alive w (w\<lparr>ws_down := ws_down w @ [f ! ws_taken w], ws_taken := Suc (ws_taken w)\<rparr>)"
| server_written: "\<lbrakk>writing (conn (ws_server w) k); write_queue (conn (ws_server w) k) = f # fs; ws_taken w = length f\<rbrakk>
    \<Longrightarrow> wire_step E k D alive w (w\<lparr>ws_server := put_conn (ws_server w) k (fst (write_done (conn (ws_server w) k))),
          ws_taken := 0\<rparr>)"
| client_reads: "\<lbrakk>ws_down w = bs @ rest; onReadyRead (nt_manager (ws_net w)) bs = (nm', out)\<rbrakk>
    \<Longrightarrow> wire_step E k D alive w (w\<lparr>ws_down := rest, ws_net := (ws_net w)\<lparr>nt_manager := nm'\<rparr>,
          ws_inbox := ws_inbox w @ received out\<rparr>)"
| client_handles: "\<lbrakk>ws_inbox w = p # ps; m = sent_to k (ws_server w) ! ws_handled w;
      onNetworkMessage (json E) (nm_user_id (nt_manager (ws_net w))) (ws_client w) p = Some (c', out);
      transformable (ws_known w) (ws_client w) m; post_requests (json E) out (ws_net w) = Some th'\<rbrakk>
    \<Longrightarrow> wire_step E k D alive w (w\<lparr>ws_client := c', ws_net := th', ws_inbox := ps, ws_handled := Suc (ws_handled w),
          ws_known := heard (ws_known w) (ws_client w) m\<rparr>)"

section \<open>Reading frames in pieces\<close>

definition frames :: "string list \<Rightarrow> u8 list" where
  "frames ps = concat (map encode_frame ps)"

lemma frames_simps [simp]:
  "frames [] = []" "frames (p # ps) = encode_frame p @ frames ps" "frames (ps @ qs) = frames ps @ frames qs"
  by (simp_all add: frames_def)

lemma frames_Nil [simp]: "frames ps = [] \<longleftrightarrow> ps = []"
  by (cases ps) (auto simp flip: length_0_conv)

text \<open>A prefix of a stream of frames gives the frames it contains, and keeps the rest.\<close>

lemma rx_loop_part:
  assumes "length xs < length (encode_frame p)" "xs @ ys = encode_frame p @ zs" "fits_frame p"
  shows "rx_loop xs = (xs, [], False)"
proof (cases "length xs < 4")
  case True
  then show ?thesis by (simp add: rx_loop.simps)
next
  case False
  have len: "unat (size32 p) = length p" using assms(3) by (simp add: unat_size32 fits_frame_def)
  have "decode_frame_header (xs @ ys) = Some (size32 p)"
    using decode_header_fits [of p zs] assms(2,3) by (simp add: fits_frame_def)
  then have "decode_frame_header xs = Some (size32 p)" using False by (simp add: decode_header_append)
  with False len assms(1) show ?thesis by (simp add: rx_loop.simps [of xs])
qed

lemma rx_loop_prefix:
  assumes "xs @ ys = frames ps" "list_all fits_frame ps"
  shows "\<exists>rest qs rs. rx_loop xs = (rest, qs, False) \<and> ps = qs @ rs \<and> rest @ ys = frames rs"
  using assms
proof (induction ps arbitrary: xs)
  case Nil
  then show ?case by simp
next
  case (Cons p ps)
  show ?case
  proof (cases "length xs < length (encode_frame p)")
    case True
    then have "rx_loop xs = (xs, [], False)" using rx_loop_part Cons.prems by fastforce
    then show ?thesis using Cons.prems(1) by simp
  next
    case False
    have "take (length (encode_frame p)) (xs @ ys) = encode_frame p" "drop (length (encode_frame p)) (xs @ ys) = frames ps"
      using Cons.prems(1) by (simp_all del: length_encode_frame)
    then have "encode_frame p = take (length (encode_frame p)) xs" "drop (length (encode_frame p)) xs @ ys = frames ps"
      using False by (simp_all del: length_encode_frame)
    then obtain xs' where xs: "xs = encode_frame p @ xs'" "xs' @ ys = frames ps" by (metis append_take_drop_id)
    from Cons.IH [OF xs(2)] Cons.prems(2) obtain rest qs rs where
      "rx_loop xs' = (rest, qs, False)" "ps = qs @ rs" "rest @ ys = frames rs" by auto
    moreover have "length p \<le> 16777216" using Cons.prems(2) by (simp add: fits_frame_def)
    from rx_loop_frame [OF this] have "rx_loop xs = (fst (rx_loop xs'), p # fst (snd (rx_loop xs')), snd (snd (rx_loop xs')))"
      using rx_loop_append [of "encode_frame p" xs'] by (simp add: xs(1) split_beta)
    ultimately have "rx_loop xs = (rest, p # qs, False) \<and> p # ps = (p # qs) @ rs \<and> rest @ ys = frames rs" by simp
    then show ?thesis by blast
  qed
qed

text \<open>The bytes of an incomplete frame that the server's session has read.\<close>

definition read_part :: "read_state \<Rightarrow> u8 list \<Rightarrow> bool" where
  "read_part rs xs =
     (case rs of
        ReadHeader bs \<Rightarrow> xs = bs \<and> length bs < 4
      | ReadBody n bs \<Rightarrow> length xs = 4 + length bs \<and> decode_frame_header xs = Some n \<and> length bs < unat n \<and> drop 4 xs = bs
      | ReadStopped \<Rightarrow> False)"

lemma recv_byte_prefix:
  assumes part: "read_part (reading s) xs" and eq: "xs @ b # ys = frames ps" and fit: "list_all fits_frame ps"
  shows "\<exists>s' qs rs xs'. recv_byte s b = (s', map OnMessage qs) \<and> s' = s\<lparr>reading := reading s'\<rparr>
    \<and> ps = qs @ rs \<and> read_part (reading s') xs' \<and> xs' @ ys = frames rs"
proof -
  obtain p ps' where ps: "ps = p # ps'" using eq by (cases ps) auto
  have p: "length p \<le> 16777216" "unat (size32 p) = length p"
    using fit by (simp_all add: ps fits_frame_def unat_size32)
  have eq': "xs @ b # ys = encode_frame p @ frames ps'" using eq by (simp add: ps)
  have hd: "decode_frame_header (xs @ b # ys) = Some (size32 p)"
    using decode_header_fits [OF p(1), of "frames ps'"] eq' by simp
  show ?thesis
  proof (cases "reading s")
    case (ReadHeader bs)
    then have xs: "xs = bs" "length xs < 4" using part by (simp_all add: read_part_def)
    show ?thesis
    proof (cases "length xs + 1 < 4")
      case True
      then have "recv_byte s b = (s\<lparr>reading := ReadHeader (xs @ [b])\<rparr>, map OnMessage [])
          \<and> ps = [] @ ps \<and> read_part (ReadHeader (xs @ [b])) (xs @ [b]) \<and> (xs @ [b]) @ ys = frames ps"
        using ReadHeader xs eq by (simp add: recv_byte_def read_part_def)
      then show ?thesis
        by (intro exI [of _ "s\<lparr>reading := ReadHeader (xs @ [b])\<rparr>"] exI [of _ "[]"] exI [of _ ps] exI [of _ "xs @ [b]"]) simp
    next
      case False
      then have len: "length (xs @ [b]) = 4" using xs by simp
      then have dec: "decode_frame_header (xs @ [b]) = Some (size32 p)"
        using hd decode_header_append [of "xs @ [b]" ys] by simp
      have step: "recv_byte s b = do_read_body s (size32 p)"
        using ReadHeader xs False dec by (simp add: recv_byte_def header_complete_def)
      show ?thesis
      proof (cases "p = []")
        case True
        then have "xs @ [b] = encode_frame p" "ys = frames ps'"
          using eq' len append_eq_append_conv [of "xs @ [b]" "encode_frame p" ys "frames ps'"] by simp_all
        moreover have "recv_byte s b = (do_read_header s, map OnMessage [[]])"
          unfolding step do_read_body_def body_complete_def using True by simp
        ultimately show ?thesis
          by (intro exI [of _ "do_read_header s"] exI [of _ "[[]]"] exI [of _ ps'] exI [of _ "[]"])
            (simp add: ps True do_read_header_def read_part_def)
      next
        case False
        then have "size32 p \<noteq> 0" using p(2) by (metis length_0_conv unat_0)
        then have "recv_byte s b = (s\<lparr>reading := ReadBody (size32 p) []\<rparr>, map OnMessage [])"
          unfolding step by (simp add: do_read_body_def)
        moreover have "read_part (ReadBody (size32 p) []) (xs @ [b])" "(xs @ [b]) @ ys = frames ps"
          using len dec False p(2) eq by (simp_all add: read_part_def)
        ultimately show ?thesis
          by (intro exI [of _ "s\<lparr>reading := ReadBody (size32 p) []\<rparr>"] exI [of _ "[]"] exI [of _ ps] exI [of _ "xs @ [b]"]) simp
      qed
    qed
  next
    case (ReadBody n bs)
    then have xs: "length xs = 4 + length bs" "decode_frame_header xs = Some n" "length bs < unat n" "drop 4 xs = bs"
      using part by (simp_all add: read_part_def)
    have n: "n = size32 p" using hd xs(1,2) decode_header_append [of xs "b # ys"] by simp
    show ?thesis
    proof (cases "length bs + 1 < unat n")
      case True
      then have "recv_byte s b = (s\<lparr>reading := ReadBody n (bs @ [b])\<rparr>, map OnMessage [])"
        using ReadBody by (simp add: recv_byte_def)
      moreover have "read_part (ReadBody n (bs @ [b])) (xs @ [b])" "(xs @ [b]) @ ys = frames ps"
        using xs True eq decode_header_append [of xs "[b]"] by (simp_all add: read_part_def)
      ultimately show ?thesis
        by (intro exI [of _ "s\<lparr>reading := ReadBody n (bs @ [b])\<rparr>"] exI [of _ "[]"] exI [of _ ps] exI [of _ "xs @ [b]"]) simp
    next
      case False
      then have "length (xs @ [b]) = length (encode_frame p)" using xs n p(2) by simp
      then have e: "xs @ [b] = encode_frame p" "ys = frames ps'"
        using eq' append_eq_append_conv [of "xs @ [b]" "encode_frame p" ys "frames ps'"] by simp_all
      have "drop 4 (xs @ [b]) = map to_byte p" using e(1) by simp
      then have "bs @ [b] = map to_byte p" using xs(1,4) by simp
      then have "map to_char (bs @ [b]) = p" by (simp only: map_to_char_to_byte)
      then have "recv_byte s b = (do_read_header s, map OnMessage [p])"
        using ReadBody False by (simp add: recv_byte_def body_complete_def)
      then show ?thesis
        using e(2) by (intro exI [of _ "do_read_header s"] exI [of _ "[p]"] exI [of _ ps'] exI [of _ "[]"])
            (simp add: ps do_read_header_def read_part_def)
    qed
  next
    case ReadStopped
    with part show ?thesis by (simp add: read_part_def)
  qed
qed

section \<open>What the steps do to the parts\<close>

text \<open>The requests of the controller: one operation for its document, in the form the protocol keeps.\<close>

definition single_edit :: "u32 \<Rightarrow> operation_msg \<Rightarrow> bool" where
  "single_edit D m = (opm_docId m = D \<and> (\<exists>e. opm_ops m = [e] \<and> canonical_entry e))"

lemma single_sendOp [simp]:
  "single_edit D \<lparr>opm_docId = D, opm_revision = r, opm_ops = [to_entry op]\<rparr>"
  by (simp add: single_edit_def canonical_entry_def to_entry_def)

lemma local_requests:
  "onLocalOperations u c ops = (c', out) \<Longrightarrow> list_all (single_edit (ctl_doc_id c)) (requests out)"
proof -
  have one: "local_operation u c op = (c1, out1, ch) \<Longrightarrow>
      ctl_doc_id c1 = ctl_doc_id c \<and> list_all (single_edit (ctl_doc_id c)) (requests out1)" for c op c1 out1 ch
    by (auto simp: local_operation_def sendOp_def Let_def split: if_splits)
  have "local_operations u c ops = (c', out', ch) \<Longrightarrow> list_all (single_edit (ctl_doc_id c)) (requests out')" for c' out' ch
  proof (induction ops arbitrary: c out' ch)
    case (Cons op ops)
    obtain c1 out1 ch1 out2 ch2 where "local_operation u c op = (c1, out1, ch1)" "out' = out1 @ out2"
      "local_operations u c1 ops = (c', out2, ch2)"
      using Cons.prems by (auto split: prod.splits)
    then show ?case using Cons.IH [of c1 out2 ch2] one [of c op] by simp
  qed simp
  moreover assume "onLocalOperations u c ops = (c', out)"
  ultimately show ?thesis by (auto simp: onLocalOperations_def emitStateLabel_def split: prod.splits if_splits)
qed

lemma network_requests:
  assumes "onNetworkMessage J u c p = Some (c', out)"
  shows "list_all (single_edit (ctl_doc_id c)) (requests out)"
proof -
  have "handleAck c a = Some (c', out) \<Longrightarrow> list_all (single_edit (ctl_doc_id c)) (requests out)" for a
    by (auto simp: handleAck_def Let_def emitStateLabel_def sendOp_def split: ot_state.splits list.splits)
  moreover have "requests (snd (handleError c m)) = []" for m by (simp add: handleError_def)
  then have "handleError c m = (c', out) \<Longrightarrow> requests out = []" for m by (metis snd_conv)
  ultimately show ?thesis
    using assms broadcast_requests [of u c _ c' out]
    by (auto simp: onNetworkMessage_def Let_def split: if_splits option.splits)
qed

lemma those_Some: "those xs = Some ys \<longleftrightarrow> xs = map Some ys"
proof (induction xs arbitrary: ys)
  case (Cons x xs)
  then show ?case by (cases ys) (auto split: option.splits)
qed auto

lemma fold_network_send:
  "fold network_send ps th = th\<lparr>nt_calls := nt_calls th @ map SendFrame ps\<rparr>"
  by (induction ps arbitrary: th) (simp_all add: network_send_def fifo_enqueue_def)

lemma post_requestsD:
  assumes "post_requests J out th = Some th'"
  obtains ps where "list_all2 (\<lambda>m p. serialize J (OperationMsg m) = Some p) (requests out) ps"
    "th' = th\<lparr>nt_calls := nt_calls th @ map SendFrame ps\<rparr>"
proof -
  obtain ps where ps: "map (\<lambda>m. serialize J (OperationMsg m)) (requests out) = map Some ps" "th' = fold network_send ps th"
    using assms by (auto simp: post_requests_def those_Some split: option.splits)
  from ps(1) have "list_all2 (\<lambda>m p. serialize J (OperationMsg m) = Some p) (requests out) ps"
    by (auto simp: list_all2_conv_all_nth list_eq_iff_nth_eq)
  with ps(2) show ?thesis by (intro that) (simp_all add: fold_network_send)
qed

text \<open>The handler puts the operation of an editor who is in the document into the queue of its session.\<close>

lemma handle_message_edit:
  assumes J: "json_library (json E)" and p: "serialize (json E) (OperationMsg m) = Some p" and m: "single_edit D m"
    and s: "authenticated (conn sv k)" "currentDocId (conn sv k) = D" "can_edit (access (dm sv)) D (cs_userId (conn sv k))"
    and ds: "get_session (dm sv) D = Some ds"
  shows "handle_message E sv k p = (sv\<lparr>dm := (dm sv)\<lparr>sessions := um_set D
      (fold (\<lambda>e ds. enqueue_command ds (operation_command (conn sv k) (opm_revision m) e)) (opm_ops m) ds)
      (sessions (dm sv))\<rparr>\<rparr>, False)"
proof -
  obtain e where e: "opm_ops m = [e]" "canonical_entry e" "opm_docId m = D" using m by (auto simp: single_edit_def)
  have "from_json_Operation (json E) (to_json_Operation (json E) m) = Some m"
    using json_values.Operation_roundtrip [OF json_library.axioms(1) [OF J]] e by simp
  then have "dispatch E sv k Operation (to_json (json E) (OperationMsg m)) =
      (sv\<lparr>dm := enqueue_to (dm sv) D (operation_command (conn sv k) (opm_revision m) e)\<rparr>, False)"
    using s e ds by (simp add: dispatch_def handle_operation_def)
  then show ?thesis
    using handle_message_request [OF J p, of sv k] s(1) ds e by (simp add: enqueue_to_def get_session_def)
qed

text \<open>What a delivery does to one connection.\<close>

lemma deliver_conn:
  assumes "\<not> disconnected (conn sv k)" "\<forall>m \<in> set (to_conn k out). serialize (json E) m \<noteq> None"
    and "writing (conn sv k) \<longleftrightarrow> write_queue (conn sv k) \<noteq> []"
  shows "sent_to k (deliver E sv out) = sent_to k sv @ to_conn k out
    \<and> write_queue (conn (deliver E sv out) k) =
        write_queue (conn sv k) @ map (\<lambda>m. encode_frame (the (serialize (json E) m))) (to_conn k out)
    \<and> \<not> disconnected (conn (deliver E sv out) k) \<and> reading (conn (deliver E sv out) k) = reading (conn sv k)
    \<and> (writing (conn (deliver E sv out) k) \<longleftrightarrow> write_queue (conn (deliver E sv out) k) \<noteq> [])"
  using assms
proof (induction out arbitrary: sv)
  case Nil
  then show ?case by (simp add: deliver_def)
next
  case (Cons im out)
  obtain i m where im: "im = (i, m)" by fastforce
  let ?sv = "fst (send_msg E sv i m)"
  have rec: "deliver E sv (im # out) = deliver E ?sv out" by (simp add: deliver_def im)
  show ?case
  proof (cases "i = k")
    case False
    then have "sent_to k ?sv = sent_to k sv"
      by (simp add: send_msg_def sent_to_def to_conn_def split: option.splits)
    moreover have "to_conn k (im # out) = to_conn k out" using False by (simp add: to_conn_def im)
    ultimately show ?thesis
      using Cons.IH [of ?sv] Cons.prems send_msg_other [of k i E sv m] False unfolding rec by simp
  next
    case True
    then have to: "to_conn k (im # out) = m # to_conn k out" by (simp add: to_conn_def im)
    then obtain p where p: "serialize (json E) m = Some p" using Cons.prems(2) by auto
    let ?s = "fst (send (conn sv k) p)"
    have "write_queue ?s = write_queue (conn sv k) @ [encode_frame p]" "\<not> disconnected ?s" "reading ?s = reading (conn sv k)"
      "writing ?s \<longleftrightarrow> write_queue ?s \<noteq> []"
      using Cons.prems(1,3) by (auto simp: send_def do_write_def Let_def split: list.splits)
    moreover have "conn ?sv k = ?s" "sent_to k ?sv = sent_to k sv @ [m]"
      using True p by (simp_all add: send_msg_def sent_to_def) (simp add: to_conn_def)
    ultimately show ?thesis
      using Cons.IH [of ?sv] Cons.prems p unfolding rec to by simp
  qed
qed

lemma deliver_conn_frames [simp]:
  "authenticated (conn (deliver E sv out) k) = authenticated (conn sv k)"
  "cs_userId (conn (deliver E sv out) k) = cs_userId (conn sv k)"
  "cs_username (conn (deliver E sv out) k) = cs_username (conn sv k)"
  "currentDocId (conn (deliver E sv out) k) = currentDocId (conn sv k)"
  by (induction out arbitrary: sv) (auto simp: deliver_def)

section \<open>The two systems side by side\<close>

text \<open>The connection is the user's, who is in document \<open>D\<close> and may edit it.\<close>

definition editor_conn :: "client_session \<Rightarrow> u64 \<Rightarrow> u32 \<Rightarrow> server \<Rightarrow> bool" where
  "editor_conn cs k D sv =
     (let s = conn sv k
      in authenticated s \<and> \<not> disconnected s \<and> (writing s \<longleftrightarrow> write_queue s \<noteq> []) \<and> cs_userId s = cs_userId cs \<and> cs_username s = cs_username cs
         \<and> currentDocId s = D \<and> can_edit (access (dm sv)) D (cs_userId cs))"

text \<open>
  Requests on their way: in the pool, as bytes (the server's reader has a part of the first), or
  waiting in the network thread.
\<close>

definition up_carries :: "'j json_api \<Rightarrow> u64 \<Rightarrow> u32 \<Rightarrow> 'q wire_state \<Rightarrow> operation_msg list \<Rightarrow> bool" where
  "up_carries J k D w up =
     (\<exists>part sent_bytes calls.
        nt_calls (ws_net w) = map SendFrame calls
        \<and> read_part (reading (conn (ws_server w) k)) part \<and> part @ ws_up w = frames sent_bytes \<and> list_all fits_frame sent_bytes
        \<and> list_all2 (\<lambda>m p. serialize J (OperationMsg m) = Some p) up (ws_pool w @ sent_bytes @ calls)
        \<and> list_all (single_edit D) up)"

text \<open>
  Messages on their way back: as signals, or as bytes in the client's buffer, on the connection
  and in the write queue, without what is already written of its front.
\<close>

definition down_carries :: "'j json_api \<Rightarrow> u64 \<Rightarrow> 'q wire_state \<Rightarrow> message list \<Rightarrow> bool" where
  "down_carries J k w down =
     (\<exists>ps. let q = write_queue (conn (ws_server w) k)
       in list_all2 (\<lambda>m p. serialize J m = Some p) down (ws_inbox w @ ps) \<and> list_all fits_frame ps
        \<and> rx_buffer (nt_manager (ws_net w)) @ ws_down w @ drop (ws_taken w) (concat q) = frames ps
        \<and> ws_taken w \<le> (case q of [] \<Rightarrow> 0 | f # _ \<Rightarrow> length f))"

definition client_ok :: "client_session \<Rightarrow> 'q network_thread \<Rightarrow> bool" where
  "client_ok cs th =
     (nt_running th \<and> nm_socket (nt_manager th) = Some ConnectedState \<and> nm_user_id (nt_manager th) = cs_userId cs)"

definition wire_rel :: "'j json_api \<Rightarrow> client_session \<Rightarrow> u64 \<Rightarrow> u32 \<Rightarrow> 'q wire_state \<Rightarrow> editing \<Rightarrow> bool" where
  "wire_rel J cs k D w st =
     (let sv = ws_server w; ds = es_session st
      in es_client st = ws_client w \<and> es_known st = ws_known w
         \<and> get_session (dm sv) D = Some ds \<and> es_document st = document_of sv ds
         \<and> ds_docref ds < length (dm_heap (dm sv)) \<and> doc_id (es_document st) = D
         \<and> es_down st = drop (ws_handled w) (sent_to k sv) \<and> ws_handled w \<le> length (sent_to k sv)
         \<and> editor_conn cs k D sv \<and> client_ok cs (ws_net w)
         \<and> up_carries J k D w (es_up st) \<and> down_carries J k w (es_down st))"

lemma wire_relD:
  assumes "wire_rel J cs k D w st"
  shows "es_client st = ws_client w" "es_known st = ws_known w" "get_session (dm (ws_server w)) D = Some (es_session st)"
    "es_document st = document_of (ws_server w) (es_session st)"
    "ds_docref (es_session st) < length (dm_heap (dm (ws_server w)))" "doc_id (es_document st) = D"
    "es_down st = drop (ws_handled w) (sent_to k (ws_server w))" "ws_handled w \<le> length (sent_to k (ws_server w))"
    "editor_conn cs k D (ws_server w)" "client_ok cs (ws_net w)" "up_carries J k D w (es_up st)" "down_carries J k w (es_down st)"
  using assms unfolding wire_rel_def Let_def by blast+

text \<open>The part of the message system that a step of the bytes does not touch.\<close>

lemma sent_to_simps [simp]:
  "sent_to k (put_conn sv i s) = sent_to k sv" "sent_to k (sv\<lparr>dm := m\<rparr>) = sent_to k sv"
  by (simp_all add: sent_to_def)

lemma document_of_put_conn [simp]: "document_of (put_conn sv i s) ds = document_of sv ds"
  by (simp add: document_of_def)

lemma same_system:
  assumes "wire_rel J cs k D w st" "ws_client w' = ws_client w" "ws_known w' = ws_known w" "ws_handled w' = ws_handled w"
    and "dm (ws_server w') = dm (ws_server w)" "sent_to k (ws_server w') = sent_to k (ws_server w)"
    and "editor_conn cs k D (ws_server w')" "client_ok cs (ws_net w')"
    and "up_carries J k D w' (es_up st)" "down_carries J k w' (es_down st)"
  shows "wire_rel J cs k D w' st"
  using assms unfolding wire_rel_def Let_def document_of_def by (elim conjE, intro conjI) simp_all

lemma down_carries_frame:
  assumes "down_carries J k w down" "ws_inbox w' = ws_inbox w" "ws_down w' = ws_down w" "ws_taken w' = ws_taken w"
    and "nt_manager (ws_net w') = nt_manager (ws_net w)"
    and "write_queue (conn (ws_server w') k) = write_queue (conn (ws_server w) k)"
  shows "down_carries J k w' down"
  using assms by (simp add: down_carries_def)

lemma up_carries_frame:
  assumes "up_carries J k D w up" "nt_calls (ws_net w') = nt_calls (ws_net w)" "ws_up w' = ws_up w" "ws_pool w' = ws_pool w"
    and "reading (conn (ws_server w') k) = reading (conn (ws_server w) k)"
  shows "up_carries J k D w' up"
  using assms by (simp add: up_carries_def)

section \<open>Each step is a step of the message system or none\<close>

text \<open>Requests that the controller posts are the requests the message system sends.\<close>

lemma up_carries_post:
  assumes "up_carries J k D w up" "post_requests J out (ws_net w) = Some th'" "list_all (single_edit D) (requests out)"
    and "ws_net w' = th'" "ws_up w' = ws_up w" "ws_pool w' = ws_pool w" "ws_server w' = ws_server w"
  shows "up_carries J k D w' (up @ requests out)"
proof -
  obtain ps where ps: "list_all2 (\<lambda>m p. serialize J (OperationMsg m) = Some p) (requests out) ps"
    "th' = (ws_net w)\<lparr>nt_calls := nt_calls (ws_net w) @ map SendFrame ps\<rparr>"
    using post_requestsD [OF assms(2)] by blast
  obtain part sent_bytes calls where *: "nt_calls (ws_net w) = map SendFrame calls"
    "read_part (reading (conn (ws_server w) k)) part" "part @ ws_up w = frames sent_bytes" "list_all fits_frame sent_bytes"
    "list_all2 (\<lambda>m p. serialize J (OperationMsg m) = Some p) up (ws_pool w @ sent_bytes @ calls)" "list_all (single_edit D) up"
    using assms(1) by (auto simp: up_carries_def)
  have "list_all2 (\<lambda>m p. serialize J (OperationMsg m) = Some p) (up @ requests out) ((ws_pool w @ sent_bytes @ calls) @ ps)"
    by (rule list_all2_appendI [OF *(5) ps(1)])
  with * ps(2) assms(3-) show ?thesis
    unfolding up_carries_def by (intro exI [of _ part] exI [of _ sent_bytes] exI [of _ "calls @ ps"]) simp
qed

lemma client_ok_post: "post_requests J out th = Some th' \<Longrightarrow> client_ok cs th \<Longrightarrow> client_ok cs th' \<and> nt_manager th' = nt_manager th"
  by (auto elim!: post_requestsD simp: client_ok_def)

lemma typing_simulated:
  assumes rel: "wire_rel J cs k D w st" and doc: "ctl_doc_id (es_client st) = D"
    and step: "onLocalOperations (nm_user_id (nt_manager (ws_net w))) (ws_client w) ops = (c', out)" "list_all coherent ops"
      "length (ld_content (ctl_doc (ws_client w))) + sum_list (map added ops) < 2 ^ 32"
      "post_requests J out (ws_net w) = Some th'"
  shows "\<exists>st'. edit_step J cs k alive st st' \<and> wire_rel J cs k D (w\<lparr>ws_client := c', ws_net := th'\<rparr>) st'"
proof -
  note r = wire_relD [OF rel]
  let ?st = "st\<lparr>es_client := c', es_up := es_up st @ requests out\<rparr>" and ?w = "w\<lparr>ws_client := c', ws_net := th'\<rparr>"
  have loc: "onLocalOperations (cs_userId cs) (es_client st) ops = (c', out)"
    using step(1) r(1,10) by (simp add: client_ok_def)
  then have "edit_step J cs k alive st ?st"
    using step(2,3) r(1) by (intro edit_step.typing) simp_all
  moreover have "up_carries J k D ?w (es_up ?st)"
    using up_carries_post [OF r(11) step(4), of ?w] local_requests [OF loc] doc by simp
  moreover have "down_carries J k ?w (es_down ?st)"
    using down_carries_frame [OF r(12), of ?w] client_ok_post [OF step(4) r(10)] by simp
  moreover have "client_ok cs th'" using client_ok_post [OF step(4) r(10)] by simp
  ultimately have "edit_step J cs k alive st ?st \<and> wire_rel J cs k D ?w ?st"
    using r unfolding wire_rel_def Let_def by simp
  then show ?thesis by blast
qed

lemma network_simulated:
  assumes rel: "wire_rel J cs k D w st" and step: "network_turn (ws_net w) = (th', out)"
    "\<forall>p calls. nt_calls (ws_net w) = SendFrame p # calls \<longrightarrow> fits_frame p"
  shows "wire_rel J cs k D (w\<lparr>ws_net := th', ws_up := ws_up w @ written out\<rparr>) st"
proof -
  note r = wire_relD [OF rel]
  obtain part sent_bytes calls where *: "nt_calls (ws_net w) = map SendFrame calls"
    "read_part (reading (conn (ws_server w) k)) part" "part @ ws_up w = frames sent_bytes" "list_all fits_frame sent_bytes"
    "list_all2 (\<lambda>m p. serialize J (OperationMsg m) = Some p) (es_up st) (ws_pool w @ sent_bytes @ calls)"
    "list_all (single_edit D) (es_up st)"
    using r(11) by (auto simp: up_carries_def)
  let ?w = "w\<lparr>ws_net := th', ws_up := ws_up w @ written out\<rparr>"
  show ?thesis
  proof (cases calls)
    case Nil
    then have "th' = ws_net w" "out = []" using step(1) network_turn_idle [of "ws_net w"] *(1) by simp_all
    then have "?w = w" by simp
    with rel show ?thesis by simp
  next
    case (Cons p cl)
    then have th': "th' = (ws_net w)\<lparr>nt_calls := map SendFrame cl\<rparr>" "written out = encode_frame p" "fits_frame p"
      using network_turn_send [of "ws_net w" p "map SendFrame cl"] step *(1) r(10) by (auto simp: client_ok_def)
    have "part @ ws_up w @ written out = frames (sent_bytes @ [p])"
      by (simp add: th'(2) *(3) [symmetric])
    then have "up_carries J k D ?w (es_up st)"
      unfolding up_carries_def using * Cons th'
      by (intro exI [of _ part] exI [of _ "sent_bytes @ [p]"] exI [of _ cl]) simp
    moreover have "down_carries J k ?w (es_down st)" by (rule down_carries_frame [OF r(12)]) (simp_all add: th')
    ultimately show ?thesis
      using r by (intro same_system [OF rel]) (simp_all add: th' client_ok_def)
  qed
qed

lemma server_reads_simulated:
  assumes rel: "wire_rel J cs k D w st" and step: "ws_up w = b # bs" "recv_byte (conn (ws_server w) k) b = (s', evs)"
  shows "wire_rel J cs k D (w\<lparr>ws_up := bs, ws_server := put_conn (ws_server w) k s', ws_pool := ws_pool w @ payloads evs\<rparr>) st"
    (is "wire_rel _ _ _ _ ?w _")
proof -
  note r = wire_relD [OF rel]
  obtain part sent_bytes calls where *: "nt_calls (ws_net w) = map SendFrame calls"
    "read_part (reading (conn (ws_server w) k)) part" "part @ b # bs = frames sent_bytes" "list_all fits_frame sent_bytes"
    "list_all2 (\<lambda>m p. serialize J (OperationMsg m) = Some p) (es_up st) (ws_pool w @ sent_bytes @ calls)"
    "list_all (single_edit D) (es_up st)"
    using r(11) step(1) by (auto simp: up_carries_def)
  obtain qs rs part' where s': "evs = map OnMessage qs" "s' = (conn (ws_server w) k)\<lparr>reading := reading s'\<rparr>"
    "sent_bytes = qs @ rs" "read_part (reading s') part'" "part' @ bs = frames rs"
    using recv_byte_prefix [OF *(2,3,4)] step(2) by auto
  have pl: "payloads (map OnMessage qs) = qs" for qs by (induction qs) simp_all
  have conn: "authenticated s' = authenticated (conn (ws_server w) k)" "cs_userId s' = cs_userId (conn (ws_server w) k)"
    "cs_username s' = cs_username (conn (ws_server w) k)" "currentDocId s' = currentDocId (conn (ws_server w) k)"
    "disconnected s' = disconnected (conn (ws_server w) k)" "write_queue s' = write_queue (conn (ws_server w) k)"
    "writing s' = writing (conn (ws_server w) k)"
    by (subst s'(2), simp)+
  have "up_carries J k D ?w (es_up st)"
    unfolding up_carries_def using * s'(1,3-5)
    by (intro exI [of _ part'] exI [of _ rs] exI [of _ calls]) (simp add: pl)
  moreover have "down_carries J k ?w (es_down st)"
    by (rule down_carries_frame [OF r(12)]) (simp_all add: conn)
  ultimately show ?thesis
    using r by (intro same_system [OF rel]) (simp_all add: editor_conn_def Let_def conn)
qed

text \<open>
  At most one request is on its way, so it does not matter that the workers of the pool take tasks
  in any order.
\<close>

lemma one_request:
  assumes "edit_inv cs k base seen unseen st" "list_all (single_edit D) (es_up st)"
  shows "length (es_up st) \<le> 1"
proof -
  have len: "length (concat (map (\<lambda>m. map (\<lambda>e. entry_operation e (cs_userId cs) (opm_revision m)) (opm_ops m)) ms)) = length ms"
    if "list_all (single_edit D) ms" for ms
    using that by (induction ms) (auto simp: single_edit_def)
  have "own_pending (cs_userId cs) seen unseen (outstanding (es_client st)) (flight cs st)"
    using assms(1) by (simp add: edit_inv_def Let_def)
  then have "length (flight cs st) \<le> 1" by (auto simp: own_pending_def)
  with len [OF assms(2)] show ?thesis by (simp add: flight_def)
qed

lemma operation_command_same:
  "cs_userId s = cs_userId cs \<Longrightarrow> cs_username s = cs_username cs \<Longrightarrow> operation_command s r e = operation_command cs r e"
  by (simp add: operation_command_def)

text \<open>Replacing the session of the document.\<close>

lemma put_document_session:
  assumes rel: "wire_rel J cs k D w st" and ds': "ds_docref ds' = ds_docref (es_session st)"
    and w': "ws_server w' = (ws_server w)\<lparr>dm := (dm (ws_server w))\<lparr>sessions := um_set D ds' (sessions (dm (ws_server w)))\<rparr>\<rparr>"
      "ws_client w' = ws_client w" "ws_known w' = ws_known w" "ws_handled w' = ws_handled w" "client_ok cs (ws_net w')"
    and st': "st' = st\<lparr>es_session := ds', es_up := up'\<rparr>"
    and carries: "up_carries J k D w' up'" "down_carries J k w' (es_down st)"
  shows "wire_rel J cs k D w' st'"
proof -
  note r = wire_relD [OF rel]
  have "document_of (ws_server w') ds' = es_document st" using r(4) ds' by (simp add: document_of_def w'(1) deref_def)
  then show ?thesis
    using r w' carries ds' unfolding wire_rel_def Let_def
    by (simp add: st' get_session_def umap editor_conn_def)
qed

lemma worker_simulated:
  assumes rel: "wire_rel (json E) cs k D w st" and inv: "edit_inv cs k base seen unseen st" and J: "json_library (json E)"
    and step: "ws_pool w = ps @ p # ps'" "handle_message E (ws_server w) k p = (sv', threw)"
  shows "\<exists>st'. edit_step (json E) cs k alive st st' \<and> wire_rel (json E) cs k D (w\<lparr>ws_pool := ps @ ps', ws_server := sv'\<rparr>) st'"
proof -
  note r = wire_relD [OF rel]
  let ?s = "conn (ws_server w) k" and ?ds = "es_session st"
  obtain part sent_bytes calls where *: "nt_calls (ws_net w) = map SendFrame calls"
    "read_part (reading ?s) part" "part @ ws_up w = frames sent_bytes" "list_all fits_frame sent_bytes"
    "list_all2 (\<lambda>m p. serialize (json E) (OperationMsg m) = Some p) (es_up st) ((ps @ p # ps') @ sent_bytes @ calls)"
    "list_all (single_edit D) (es_up st)"
    using r(11) step(1) by (auto simp: up_carries_def)
  have "length (ps @ ps' @ sent_bytes @ calls) = 0"
    using one_request [OF inv *(6)] list_all2_lengthD [OF *(5)] by simp
  then have none: "ps = []" "ps' = []" "sent_bytes = []" "calls = []" by simp_all
  obtain m where m: "es_up st = [m]" "serialize (json E) (OperationMsg m) = Some p" "single_edit D m"
    using *(5,6) unfolding none by (auto simp: list_all2_Cons2)
  have s: "authenticated ?s" "currentDocId ?s = D" "can_edit (access (dm (ws_server w))) D (cs_userId ?s)"
    "\<And>r e. operation_command ?s r e = operation_command cs r e"
    using r(9) operation_command_same [of ?s cs] by (simp_all add: editor_conn_def Let_def)
  let ?ds' = "fold (\<lambda>e ds. enqueue_command ds (operation_command cs (opm_revision m) e)) (opm_ops m) ?ds"
  have sv': "sv' = (ws_server w)\<lparr>dm := (dm (ws_server w))\<lparr>sessions := um_set D ?ds' (sessions (dm (ws_server w)))\<rparr>\<rparr>"
    using handle_message_edit [OF J m(2,3) s(1-3) r(3)] step(2) s(4) by simp
  let ?st = "st\<lparr>es_up := [], es_session := ?ds'\<rparr>" and ?w = "w\<lparr>ws_pool := ps @ ps', ws_server := sv'\<rparr>"
  have "edit_step (json E) cs k alive st ?st" by (rule edit_step.submit [OF m(1)])
  moreover have "wire_rel (json E) cs k D ?w ?st"
  proof (rule put_document_session [OF rel, where up' = "[]" and ds' = ?ds'])
    show "up_carries (json E) k D ?w []"
      unfolding up_carries_def using *(1,2,3) none
      by (intro exI [of _ part] exI [of _ "[]"] exI [of _ "[]"]) (simp add: sv')
    show "down_carries (json E) k ?w (es_down st)" by (rule down_carries_frame [OF r(12)]) (simp_all add: sv')
  qed (use r(10) in \<open>simp_all add: sv' enqueue_all_commands\<close>)
  ultimately show ?thesis by blast
qed

lemma others_simulated:
  assumes rel: "wire_rel J cs k D w st"
    and step: "cmd_userId cmd \<noteq> cs_userId (conn (ws_server w) k)" "cmd_session cmd \<noteq> Some k"
      "cmd_type cmd \<in> {JoinCmd, LeaveCmd, OperationCmd}"
      "cmd_type cmd = OperationCmd \<longrightarrow> userId (cmd_operation cmd) = cmd_userId cmd \<and> coherent (cmd_operation cmd)"
  shows "\<exists>st'. edit_step J cs k alive st st'
    \<and> wire_rel J cs k D (w\<lparr>ws_server := (ws_server w)\<lparr>dm := enqueue_to (dm (ws_server w)) D cmd\<rparr>\<rparr>) st'"
proof -
  note r = wire_relD [OF rel]
  let ?st = "st\<lparr>es_session := enqueue_command (es_session st) cmd\<rparr>"
    and ?w = "w\<lparr>ws_server := (ws_server w)\<lparr>dm := enqueue_to (dm (ws_server w)) D cmd\<rparr>\<rparr>"
  have "edit_step J cs k alive st ?st"
    using step r(9) by (intro edit_step.others) (simp_all add: editor_conn_def Let_def)
  moreover have "wire_rel J cs k D ?w ?st"
  proof (rule put_document_session [OF rel, where up' = "es_up st" and ds' = "enqueue_command (es_session st) cmd"])
    show "up_carries J k D ?w (es_up st)" by (rule up_carries_frame [OF r(11)]) simp_all
    show "down_carries J k ?w (es_down st)" by (rule down_carries_frame [OF r(12)]) simp_all
  qed (use r(3,10) in \<open>simp_all add: enqueue_to_def get_session_def enqueue_command_def\<close>)
  ultimately show ?thesis by blast
qed

lemma run_step_docref: "run_step alive (ds, d) = ((ds', d'), out) \<Longrightarrow> ds_docref ds' = ds_docref ds \<and> doc_id d' = doc_id d"
  by (auto simp: run_step_def fifo_try_dequeue_def process_command_doc_id split: list.splits)
    (auto simp: process_command_def handle_join_def handle_leave_def handle_operation_cmd_def handle_delete_def
      Let_def split: cmd_kind.splits prod.splits if_splits)

lemma document_simulated:
  assumes rel: "wire_rel (json E) cs k D w st"
    and step: "sv' = document_thread E alive (ws_server w) D" "get_session (dm (ws_server w)) D = Some ds"
      "unat (revision (document_of (ws_server w) ds)) < 2 ^ 32 - 1" "length (content (document_of sv' ds)) < 2 ^ 32"
      "\<forall>cmd q. command_queue ds = cmd # q \<and> cmd_userId cmd = cs_userId (conn (ws_server w) k)
        \<longrightarrow> \<not> too_old (document_of (ws_server w) ds) (cmd_operation cmd)"
      "\<forall>m \<in> set (to_conn k (snd (session_thread alive (dm (ws_server w)) D))).
        \<exists>p. serialize (json E) m = Some p \<and> fits_frame p"
  shows "\<exists>st'. edit_step (json E) cs k alive st st' \<and> wire_rel (json E) cs k D (w\<lparr>ws_server := sv'\<rparr>) st'"
proof -
  note r = wire_relD [OF rel]
  let ?sv = "ws_server w" and ?w = "w\<lparr>ws_server := sv'\<rparr>"
  have ds: "ds = es_session st" using step(2) r(3) by simp
  obtain ds' d' out where run: "run_step alive (es_session st, es_document st) = ((ds', d'), out)"
    by (metis prod.collapse)
  let ?m = "(dm ?sv)\<lparr>sessions := um_set D ds' (sessions (dm ?sv)), dm_heap := (dm_heap (dm ?sv))[ds_docref ds := d']\<rparr>"
  have thr: "session_thread alive (dm ?sv) D = (?m, out)"
    using run r(3,4) by (simp add: session_thread_def get_session_def ds document_of_def)
  have sv': "sv' = deliver E (?sv\<lparr>dm := ?m\<rparr>) out" by (simp add: step(1) document_thread_def thr)
  have "\<not> disconnected (conn ?sv k)" "writing (conn ?sv k) \<longleftrightarrow> write_queue (conn ?sv k) \<noteq> []"
    using r(9) by (simp_all add: editor_conn_def Let_def)
  then have conn: "sent_to k sv' = sent_to k ?sv @ to_conn k out"
    "write_queue (conn sv' k) = write_queue (conn ?sv k) @ map (\<lambda>m. encode_frame (the (serialize (json E) m))) (to_conn k out)"
    "\<not> disconnected (conn sv' k)" "reading (conn sv' k) = reading (conn ?sv k)"
    "writing (conn sv' k) \<longleftrightarrow> write_queue (conn sv' k) \<noteq> []"
    using deliver_conn [of "?sv\<lparr>dm := ?m\<rparr>" k out E] step(6) unfolding sv' thr by fastforce+
  have dref: "ds_docref ds' = ds_docref ds" "doc_id d' = D" using run_step_docref [OF run] r(6) ds by simp_all
  have doc: "document_of sv' ds' = d'" "document_of sv' ds = d'"
    using r(5) dref by (simp_all add: document_of_def sv' deref_def ds)
  let ?st = "st\<lparr>es_session := ds', es_document := d', es_down := es_down st @ to_conn k out\<rparr>"
  have "edit_step (json E) cs k alive st ?st"
    unfolding to_conn_def
  proof (rule edit_step.process [OF run])
    show "unat (revision (es_document st)) < 2 ^ 32 - 1" using step(3) r(4) ds by simp
    show "length (content d') < 2 ^ 32" using step(4) doc(2) by simp
    show "\<forall>cmd q. command_queue (es_session st) = cmd # q \<and> cmd_userId cmd = cs_userId cs
        \<longrightarrow> \<not> too_old (es_document st) (cmd_operation cmd)"
      using step(5) r(4,9) ds by (simp add: editor_conn_def Let_def)
  qed
  moreover have "down_carries (json E) k ?w (es_down ?st)"
  proof -
    let ?q = "write_queue (conn ?sv k)" and ?new = "map (\<lambda>m. the (serialize (json E) m)) (to_conn k out)"
    obtain ps where ps: "list_all2 (\<lambda>m p. serialize (json E) m = Some p) (es_down st) (ws_inbox w @ ps)" "list_all fits_frame ps"
      "rx_buffer (nt_manager (ws_net w)) @ ws_down w @ drop (ws_taken w) (concat ?q) = frames ps"
      "ws_taken w \<le> (case ?q of [] \<Rightarrow> 0 | f # _ \<Rightarrow> length f)"
      using r(12) by (auto simp: down_carries_def Let_def)
    have new: "list_all2 (\<lambda>m p. serialize (json E) m = Some p) (to_conn k out) ?new" "list_all fits_frame ?new"
      using step(6) unfolding thr by (auto simp: list_all2_conv_all_nth list_all_iff dest!: nth_mem)
    have q': "write_queue (conn sv' k) = ?q @ map encode_frame ?new" by (simp add: conn(2) comp_def)
    have le: "ws_taken w \<le> length (concat ?q)" using ps(4) by (cases ?q) auto
    have bytes: "rx_buffer (nt_manager (ws_net w)) @ ws_down w @ drop (ws_taken w) (concat (write_queue (conn sv' k))) = frames (ps @ ?new)"
      using le by (simp add: q' frames_def ps(3) [unfolded frames_def, symmetric])
    have "list_all2 (\<lambda>m p. serialize (json E) m = Some p) (es_down st @ to_conn k out) ((ws_inbox w @ ps) @ ?new)"
      by (rule list_all2_appendI [OF ps(1) new(1)])
    moreover have "ws_taken w \<le> (case write_queue (conn sv' k) of [] \<Rightarrow> 0 | f # _ \<Rightarrow> length f)"
      using ps(4) by (cases ?q) (auto simp: q' split: list.splits)
    ultimately show ?thesis
      unfolding down_carries_def Let_def using ps(2) new(2) bytes by (intro exI [of _ "ps @ ?new"]) simp
  qed
  moreover have "up_carries (json E) k D ?w (es_up ?st)"
    using up_carries_frame [OF r(11), of ?w] conn(4) by simp
  moreover have "editor_conn cs k D sv'"
    using r(9) conn(3,5) by (simp add: editor_conn_def Let_def sv')
  moreover have "get_session (dm sv') D = Some ds'" "ds_docref ds' < length (dm_heap (dm sv'))"
    using r(5) dref by (simp_all add: sv' get_session_def umap ds)
  ultimately have "edit_step (json E) cs k alive st ?st \<and> wire_rel (json E) cs k D ?w ?st"
    using r(1,2,7,8,10) dref doc conn(1) unfolding wire_rel_def Let_def by simp
  then show ?thesis by blast
qed

lemma server_writes_simulated:
  assumes rel: "wire_rel J cs k D w st"
    and step: "write_queue (conn (ws_server w) k) = f # fs" "ws_taken w < length f"
  shows "wire_rel J cs k D (w\<lparr>ws_down := ws_down w @ [f ! ws_taken w], ws_taken := Suc (ws_taken w)\<rparr>) st"
    (is "wire_rel _ _ _ _ ?w _")
proof -
  note r = wire_relD [OF rel]
  have "drop (ws_taken w) (f @ concat fs) = f ! ws_taken w # drop (Suc (ws_taken w)) (f @ concat fs)"
    using step(2) Cons_nth_drop_Suc [of "ws_taken w" "f @ concat fs"] by (simp add: nth_append)
  then have "down_carries J k ?w (es_down st)"
    using r(12) step by (auto simp: down_carries_def Let_def simp del: drop_append)
  moreover have "up_carries J k D ?w (es_up st)" by (rule up_carries_frame [OF r(11)]) simp_all
  ultimately show ?thesis using r by (intro same_system [OF rel]) simp_all
qed

lemma server_written_simulated:
  assumes rel: "wire_rel J cs k D w st"
    and step: "write_queue (conn (ws_server w) k) = f # fs" "ws_taken w = length f"
  shows "wire_rel J cs k D (w\<lparr>ws_server := put_conn (ws_server w) k (fst (write_done (conn (ws_server w) k))), ws_taken := 0\<rparr>) st"
    (is "wire_rel _ _ _ _ ?w _")
proof -
  note r = wire_relD [OF rel]
  let ?s = "conn (ws_server w) k" and ?t = "fst (write_done (conn (ws_server w) k))"
  have t: "write_queue ?t = fs" "reading ?t = reading ?s" "authenticated ?t = authenticated ?s" "cs_userId ?t = cs_userId ?s"
    "cs_username ?t = cs_username ?s" "currentDocId ?t = currentDocId ?s" "disconnected ?t = disconnected ?s"
    "writing ?s \<Longrightarrow> writing ?t \<longleftrightarrow> fs \<noteq> []"
    using step(1) by (simp_all add: write_done_def do_write_def Let_def split: list.splits)
  have "down_carries J k ?w (es_down st)"
    using r(12) step by (auto simp: down_carries_def Let_def t split: list.splits)
  moreover have "up_carries J k D ?w (es_up st)" by (rule up_carries_frame [OF r(11)]) (simp_all add: t)
  ultimately show ?thesis
    using r step(1) by (intro same_system [OF rel]) (simp_all add: editor_conn_def Let_def t)
qed

lemma client_reads_simulated:
  assumes rel: "wire_rel J cs k D w st"
    and step: "ws_down w = bs @ rest" "onReadyRead (nt_manager (ws_net w)) bs = (nm', out)"
  shows "wire_rel J cs k D (w\<lparr>ws_down := rest, ws_net := (ws_net w)\<lparr>nt_manager := nm'\<rparr>, ws_inbox := ws_inbox w @ received out\<rparr>) st"
    (is "wire_rel _ _ _ _ ?w _")
proof -
  note r = wire_relD [OF rel]
  let ?nm = "nt_manager (ws_net w)" and ?q = "write_queue (conn (ws_server w) k)"
  obtain ps where ps: "list_all2 (\<lambda>m p. serialize J m = Some p) (es_down st) (ws_inbox w @ ps)" "list_all fits_frame ps"
    "rx_buffer ?nm @ ws_down w @ drop (ws_taken w) (concat ?q) = frames ps"
    "ws_taken w \<le> (case ?q of [] \<Rightarrow> 0 | f # _ \<Rightarrow> length f)"
    using r(12) by (auto simp: down_carries_def Let_def)
  have "(rx_buffer ?nm @ bs) @ (rest @ drop (ws_taken w) (concat ?q)) = frames ps" using ps(3) step(1) by simp
  then obtain buf qs rs where rx: "rx_loop (rx_buffer ?nm @ bs) = (buf, qs, False)" "ps = qs @ rs"
    "buf @ rest @ drop (ws_taken w) (concat ?q) = frames rs"
    using rx_loop_prefix ps(2) by blast
  have "nm_socket ?nm \<noteq> None" using r(10) by (simp add: client_ok_def)
  then have nm': "nm' = ?nm\<lparr>rx_buffer := buf\<rparr>" "received out = qs"
    using step(2) rx(1) by (auto simp: onReadyRead_def split: option.splits)
  have "down_carries J k ?w (es_down st)"
    unfolding down_carries_def Let_def using ps rx nm' by (intro exI [of _ rs]) simp
  moreover have "up_carries J k D ?w (es_up st)" by (rule up_carries_frame [OF r(11)]) simp_all
  ultimately show ?thesis
    using r nm' by (intro same_system [OF rel]) (simp_all add: client_ok_def)
qed

lemma client_handles_simulated:
  assumes rel: "wire_rel J cs k D w st" and doc: "ctl_doc_id (es_client st) = D"
    and step: "ws_inbox w = p # ps" "m = sent_to k (ws_server w) ! ws_handled w"
      "onNetworkMessage J (nm_user_id (nt_manager (ws_net w))) (ws_client w) p = Some (c', out)"
      "transformable (ws_known w) (ws_client w) m" "post_requests J out (ws_net w) = Some th'"
  shows "\<exists>st'. edit_step J cs k alive st st' \<and> wire_rel J cs k D
    (w\<lparr>ws_client := c', ws_net := th', ws_inbox := ps, ws_handled := Suc (ws_handled w), ws_known := heard (ws_known w) (ws_client w) m\<rparr>) st'"
    (is "\<exists>st'. _ \<and> wire_rel _ _ _ _ ?w st'")
proof -
  note r = wire_relD [OF rel]
  let ?q = "write_queue (conn (ws_server w) k)"
  obtain qs where qs: "list_all2 (\<lambda>m p. serialize J m = Some p) (es_down st) (ws_inbox w @ qs)" "list_all fits_frame qs"
    "rx_buffer (nt_manager (ws_net w)) @ ws_down w @ drop (ws_taken w) (concat ?q) = frames qs"
    "ws_taken w \<le> (case ?q of [] \<Rightarrow> 0 | f # _ \<Rightarrow> length f)"
    using r(12) by (auto simp: down_carries_def Let_def)
  then obtain m' ms where m': "es_down st = m' # ms" "serialize J m' = Some p"
    "list_all2 (\<lambda>m p. serialize J m = Some p) ms (ps @ qs)"
    unfolding step(1) by (auto simp: list_all2_Cons2)
  have more: "ws_handled w < length (sent_to k (ws_server w))" using m'(1) r(7) by (metis drop_eq_Nil2 linorder_not_le list.discI)
  then have "drop (ws_handled w) (sent_to k (ws_server w)) = m # drop (Suc (ws_handled w)) (sent_to k (ws_server w))"
    unfolding step(2) by (rule Cons_nth_drop_Suc [symmetric])
  then have m: "m' = m" "ms = drop (Suc (ws_handled w)) (sent_to k (ws_server w))" using m'(1) r(7) by simp_all
  let ?st = "st\<lparr>es_client := c', es_up := es_up st @ requests out, es_down := ms,
          es_known := heard (es_known st) (es_client st) m\<rparr>"
  have net: "onNetworkMessage J (cs_userId cs) (es_client st) p = Some (c', out)"
    using step(3) r(1,10) by (simp add: client_ok_def)
  have "edit_step J cs k alive st ?st"
    using m' m(1) step(4) r(1,2) net by (intro edit_step.receive) simp_all
  moreover have "up_carries J k D ?w (es_up ?st)"
    using up_carries_post [OF r(11) step(5), of ?w] network_requests [OF net] doc by simp
  moreover note post = client_ok_post [OF step(5) r(10)]
  then have "down_carries J k ?w ms"
    unfolding down_carries_def Let_def using qs(2-) m'(3) by (intro exI [of _ qs]) simp
  ultimately have "edit_step J cs k alive st ?st \<and> wire_rel J cs k D ?w ?st"
    using r more m(2) post unfolding wire_rel_def Let_def by simp
  then show ?thesis by blast
qed

text \<open>One step of the bytes is one step of the messages or none.\<close>

lemma wire_step_simulated:
  assumes "wire_step E k D alive w w'" and rel: "wire_rel (json E) cs k D w st"
    and inv: "edit_inv cs k base seen unseen st" and J: "json_library (json E)"
  shows "\<exists>st'. (edit_step (json E) cs k alive)\<^sup>=\<^sup>= st st' \<and> wire_rel (json E) cs k D w' st'"
proof -
  have doc: "ctl_doc_id (es_client st) = D"
    using inv wire_relD(6) [OF rel] by (simp add: edit_inv_def Let_def)
  from assms(1) show ?thesis
  proof cases
    case (typing ops c' out th')
    show ?thesis using typing_simulated [OF rel doc typing(2-5), of alive] unfolding typing(1) by blast
  next
    case (network th' out)
    show ?thesis using network_simulated [OF rel network(2,3)] unfolding network(1) by blast
  next
    case (server_reads b bs s' evs)
    show ?thesis using server_reads_simulated [OF rel server_reads(2,3)] unfolding server_reads(1) by blast
  next
    case (worker ps p ps' sv' threw)
    show ?thesis using worker_simulated [OF rel inv J worker(2,3), of alive] unfolding worker(1) by blast
  next
    case (others cmd)
    show ?thesis using others_simulated [OF rel others(2-5), of alive] unfolding others(1) by blast
  next
    case (document sv' ds)
    show ?thesis using document_simulated [OF rel document(2-7)] unfolding document(1) by blast
  next
    case (server_writes f fs)
    show ?thesis using server_writes_simulated [OF rel server_writes(3,4)] unfolding server_writes(1) by blast
  next
    case (server_written f fs)
    show ?thesis using server_written_simulated [OF rel server_written(3,4)] unfolding server_written(1) by blast
  next
    case (client_reads bs rest nm' out)
    show ?thesis using client_reads_simulated [OF rel client_reads(2,3)] unfolding client_reads(1) by blast
  next
    case (client_handles p ps m c' out th')
    show ?thesis using client_handles_simulated [OF rel doc client_handles(2-6), of alive] unfolding client_handles(1) by blast
  qed
qed

lemma wire_reachable_simulated:
  assumes "(wire_step E k D alive)\<^sup>*\<^sup>* w0 w" "wire_rel (json E) cs k D w0 st0" "edit_start cs k st0"
    and J: "json_library (json E)" "alive k"
  shows "\<exists>st. (edit_step (json E) cs k alive)\<^sup>*\<^sup>* st0 st \<and> wire_rel (json E) cs k D w st"
  using assms(1)
proof (induction rule: rtranclp_induct)
  case base
  with assms(2) show ?case by blast
next
  case (step w w')
  then obtain st where st: "(edit_step (json E) cs k alive)\<^sup>*\<^sup>* st0 st" "wire_rel (json E) cs k D w st" by blast
  obtain base seen unseen where "edit_inv cs k base seen unseen st"
    using edit_reachable_inv [OF st(1) J assms(3)] by blast
  from wire_step_simulated [OF step.hyps(2) st(2) this J(1)] st(1) show ?case by (auto intro: rtranclp.rtrancl_into_rtrancl)
qed

end
