(* ===== verification/Collab_Transport_Props.thy ===== *)
theory Collab_Transport_Props
  imports Collab_Transport
begin

text \<open>
  What the refinement gives for the bytes: the texts converge, and a quiet system delivers an edit.
\<close>

section \<open>Where a run starts\<close>

text \<open>
  The client has just joined: its connection has nothing to read or write, its user is registered
  with the session of the document, and it shows the document.
\<close>

definition wire_start :: "u64 \<Rightarrow> u32 \<Rightarrow> 'q wire_state \<Rightarrow> bool" where
  "wire_start k D w =
     (let sv = ws_server w; s = conn sv k; nm = nt_manager (ws_net w)
      in editor_conn s k D sv \<and> reading s = ReadHeader [] \<and> write_queue s = []
         \<and> client_ok s (ws_net w) \<and> rx_buffer nm = [] \<and> nt_calls (ws_net w) = []
         \<and> ws_up w = [] \<and> ws_pool w = [] \<and> ws_taken w = 0 \<and> ws_down w = [] \<and> ws_inbox w = []
         \<and> ws_handled w = length (sent_to k sv)
         \<and> (\<exists>ds. get_session (dm sv) D = Some ds \<and> command_queue ds = [] \<and> um_wf (users_online ds)
              \<and> only_user ds (cs_userId s) k \<and> ds_docref ds < length (dm_heap (dm sv))
              \<and> doc_id (document_of sv ds) = D
              \<and> (\<exists>base lg. represents (document_of sv ds) base lg
                    \<and> (\<forall>n \<le> length lg. length (replay base (take n lg)) < 2 ^ 32))
              \<and> ws_client w = OTController (LocalDocument (content (document_of sv ds)) (revision (document_of sv ds)))
                   D (revision (document_of sv ds))
              \<and> ws_known w = content (document_of sv ds)))"

text \<open>The state of the message system at the start.\<close>

definition messages_at_start :: "u32 \<Rightarrow> 'q wire_state \<Rightarrow> editing" where
  "messages_at_start D w =
     (let sv = ws_server w; ds = the (get_session (dm sv) D)
      in \<lparr>es_client = ws_client w, es_up = [], es_session = ds, es_document = document_of sv ds, es_down = [],
          es_known = ws_known w\<rparr>)"

lemma wire_start_related:
  assumes "wire_start k D w"
  shows "edit_start (conn (ws_server w) k) k (messages_at_start D w)"
    "wire_rel J (conn (ws_server w) k) k D w (messages_at_start D w)"
proof -
  let ?s = "conn (ws_server w) k"
  obtain ds where ds: "get_session (dm (ws_server w)) D = Some ds" "command_queue ds = []" "um_wf (users_online ds)"
    "only_user ds (cs_userId ?s) k" "ds_docref ds < length (dm_heap (dm (ws_server w)))" "doc_id (document_of (ws_server w) ds) = D"
    "\<exists>base lg. represents (document_of (ws_server w) ds) base lg \<and> (\<forall>n \<le> length lg. length (replay base (take n lg)) < 2 ^ 32)"
    "ws_client w = OTController (LocalDocument (content (document_of (ws_server w) ds)) (revision (document_of (ws_server w) ds)))
       D (revision (document_of (ws_server w) ds))"
    "ws_known w = content (document_of (ws_server w) ds)"
    using assms unfolding wire_start_def Let_def by blast
  show "edit_start ?s k (messages_at_start D w)"
    using ds by (simp add: edit_start_def messages_at_start_def Let_def)
  have "up_carries J k D w []"
    using assms unfolding up_carries_def wire_start_def Let_def
    by (intro exI [of _ "[]"]) (simp add: read_part_def)
  moreover have "down_carries J k w []"
    using assms unfolding down_carries_def wire_start_def Let_def by (intro exI [of _ "[]"]) simp
  ultimately show "wire_rel J ?s k D w (messages_at_start D w)"
    using ds assms unfolding wire_rel_def wire_start_def Let_def
    by (simp add: messages_at_start_def Let_def)
qed

lemma wire_reachable:
  assumes "json_library (json E)" "alive k" "wire_start k D w0" "(wire_step E k D alive)\<^sup>*\<^sup>* w0 w"
  shows "\<exists>st base seen unseen. (edit_step (json E) (conn (ws_server w0) k) k alive)\<^sup>*\<^sup>* (messages_at_start D w0) st
    \<and> wire_rel (json E) (conn (ws_server w0) k) k D w st \<and> edit_inv (conn (ws_server w0) k) k base seen unseen st"
  using wire_reachable_simulated [where alive = alive and k = k, OF assms(4) wire_start_related(2) [OF assms(3)]
      wire_start_related(1) [OF assms(3)] assms(1,2)]
    edit_reachable_inv [where alive = alive and k = k, OF _ assms(1,2) wire_start_related(1) [OF assms(3)]] by blast

section \<open>Convergence\<close>

text \<open>Nothing is on its way.\<close>

definition wire_quiet :: "u64 \<Rightarrow> u32 \<Rightarrow> 'q wire_state \<Rightarrow> bool" where
  "wire_quiet k D w =
     (nt_calls (ws_net w) = [] \<and> ws_up w = [] \<and> reading (conn (ws_server w) k) = ReadHeader [] \<and> ws_pool w = []
      \<and> (case get_session (dm (ws_server w)) D of None \<Rightarrow> True | Some ds \<Rightarrow> command_queue ds = [])
      \<and> write_queue (conn (ws_server w) k) = [] \<and> ws_down w = [] \<and> rx_buffer (nt_manager (ws_net w)) = [] \<and> ws_inbox w = [])"

lemma quiet_messages:
  assumes "wire_rel J cs k D w st" "wire_quiet k D w"
  shows "es_up st = []" "es_down st = []" "command_queue (es_session st) = []"
proof -
  note r = wire_relD [OF assms(1)]
  show "command_queue (es_session st) = []" using assms(2) r(3) by (simp add: wire_quiet_def)
  obtain part sent_bytes calls where up: "nt_calls (ws_net w) = map SendFrame calls" "part = frames sent_bytes"
    "read_part (ReadHeader []) part" "list_all2 (\<lambda>m p. serialize J (OperationMsg m) = Some p) (es_up st) (sent_bytes @ calls)"
    using r(11) assms(2) by (auto simp: up_carries_def wire_quiet_def)
  then have "sent_bytes = []" "calls = []" using assms(2) by (simp_all add: read_part_def wire_quiet_def)
  then show "es_up st = []" using up(4) by simp
  obtain ps where ps: "list_all2 (\<lambda>m p. serialize J m = Some p) (es_down st) ps" "[] = frames ps"
    using r(12) assms(2) by (auto simp: down_carries_def wire_quiet_def Let_def)
  from ps(2) have "ps = []" by (metis frames_Nil)
  with ps(1) show "es_down st = []" by simp
qed

lemma wire_quiet_converged:
  assumes rel: "wire_rel J cs k D w st" and inv: "edit_inv cs k base seen unseen st" and quiet: "wire_quiet k D w"
    and ds: "get_session (dm (ws_server w)) D = Some ds"
  shows "outstanding (ws_client w) = [] \<and> ctl_state (ws_client w) = Synchronized
    \<and> ld_content (ctl_doc (ws_client w)) = content (document_of (ws_server w) ds)
    \<and> ctl_revision (ws_client w) = revision (document_of (ws_server w) ds)"
  using edit_inv_converged [OF inv] quiet_messages [OF rel quiet] wire_relD(1,3,4) [OF rel] ds by simp

section \<open>A round trip\<close>

text \<open>What travelling through the reader of the session leaves of the server.\<close>

definition same_server :: "u64 \<Rightarrow> server \<Rightarrow> server \<Rightarrow> bool" where
  "same_server k sv' sv = (dm sv' = dm sv \<and> sent_to k sv' = sent_to k sv \<and> conn sv' k = conn sv k)"

lemma server_reads_all:
  "\<exists>sv'. (wire_step E k D alive)\<^sup>*\<^sup>* w (w\<lparr>ws_up := [], ws_server := sv',
        ws_pool := ws_pool w @ payloads (snd (recv_bytes (conn (ws_server w) k) (ws_up w)))\<rparr>)
     \<and> dm sv' = dm (ws_server w) \<and> sent_to k sv' = sent_to k (ws_server w)
     \<and> conn sv' k = fst (recv_bytes (conn (ws_server w) k) (ws_up w))"
proof (induction "ws_up w" arbitrary: w)
  case Nil
  then have up: "ws_up w = []" by simp
  then have same: "w\<lparr>ws_up := []\<rparr> = w" by simp
  show ?case by (intro exI [of _ "ws_server w"]) (simp add: up same)
next
  case (Cons b bs)
  note up = Cons.hyps(2) [symmetric]
  obtain s' evs where one: "recv_byte (conn (ws_server w) k) b = (s', evs)" by fastforce
  let ?w = "w\<lparr>ws_up := bs, ws_server := put_conn (ws_server w) k s', ws_pool := ws_pool w @ payloads evs\<rparr>"
  have step: "wire_step E k D alive w ?w" by (rule wire_step.server_reads [OF up one])
  from Cons.hyps(1) [of ?w] obtain sv' where
    "(wire_step E k D alive)\<^sup>*\<^sup>* ?w (?w\<lparr>ws_up := [], ws_server := sv',
        ws_pool := ws_pool ?w @ payloads (snd (recv_bytes s' bs))\<rparr>)"
    "dm sv' = dm (ws_server w)" "sent_to k sv' = sent_to k (ws_server w)" "conn sv' k = fst (recv_bytes s' bs)"
    by auto
  with converse_rtranclp_into_rtranclp [of "wire_step E k D alive", OF step] show ?case
    by (intro exI [of _ sv']) (simp add: up one split_beta)
qed

lemma request_travels:
  assumes "nt_calls (ws_net w) = [SendFrame p]" "fits_frame p" "client_ok cs (ws_net w)"
    and "ws_up w = []" "reading (conn (ws_server w) k) = ReadHeader []"
  shows "\<exists>sv'. (wire_step E k D alive)\<^sup>*\<^sup>* w (w\<lparr>ws_net := (ws_net w)\<lparr>nt_calls := []\<rparr>, ws_server := sv', ws_pool := ws_pool w @ [p]\<rparr>)
    \<and> same_server k sv' (ws_server w)"
proof -
  let ?w = "w\<lparr>ws_net := (ws_net w)\<lparr>nt_calls := []\<rparr>, ws_up := encode_frame p\<rparr>"
  have "network_turn (ws_net w) = ((ws_net w)\<lparr>nt_calls := []\<rparr>, [SocketWrite (encode_frame p)])"
    using assms(1,3) by (intro network_turn_send) (simp_all add: client_ok_def)
  from wire_step.network [OF this, of E k D alive] have step: "wire_step E k D alive w ?w"
    using assms(1,2,4) by simp
  have recv: "recv_bytes (conn (ws_server w) k) (encode_frame p) = (conn (ws_server w) k, [OnMessage p])"
    using recv_one_frame assms(2,5) by (simp add: fits_frame_def)
  obtain sv' where "(wire_step E k D alive)\<^sup>*\<^sup>* ?w (?w\<lparr>ws_up := [], ws_server := sv', ws_pool := ws_pool w @ [p]\<rparr>)"
    "same_server k sv' (ws_server w)"
    using server_reads_all [of E k D alive ?w] recv by (auto simp: same_server_def)
  moreover have "?w\<lparr>ws_up := [], ws_server := sv', ws_pool := ws_pool w @ [p]\<rparr>
      = w\<lparr>ws_net := (ws_net w)\<lparr>nt_calls := []\<rparr>, ws_server := sv', ws_pool := ws_pool w @ [p]\<rparr>"
    using assms(4) by simp
  ultimately show ?thesis using converse_rtranclp_into_rtranclp [of "wire_step E k D alive", OF step] by (intro exI [of _ sv']) simp
qed

lemma server_writes_all:
  assumes "writing (conn (ws_server w) k)" "write_queue (conn (ws_server w) k) = f # fs" "ws_taken w = 0" "n \<le> length f"
  shows "(wire_step E k D alive)\<^sup>*\<^sup>* w (w\<lparr>ws_down := ws_down w @ take n f, ws_taken := n\<rparr>)"
  using assms(4)
proof (induction n)
  case 0
  have "w\<lparr>ws_down := ws_down w @ take 0 f, ws_taken := 0\<rparr> = w" using assms(3) by simp
  then show ?case by simp
next
  case (Suc n)
  let ?w = "w\<lparr>ws_down := ws_down w @ take n f, ws_taken := n\<rparr>"
  have "wire_step E k D alive ?w (?w\<lparr>ws_down := ws_down ?w @ [f ! ws_taken ?w], ws_taken := Suc (ws_taken ?w)\<rparr>)"
    using assms(1,2) Suc.prems by (intro wire_step.server_writes) simp_all
  moreover have "?w\<lparr>ws_down := ws_down ?w @ [f ! ws_taken ?w], ws_taken := Suc (ws_taken ?w)\<rparr>
      = w\<lparr>ws_down := ws_down w @ take (Suc n) f, ws_taken := Suc n\<rparr>"
    using Suc.prems by (simp add: take_Suc_conv_app_nth)
  ultimately show ?case using Suc by (auto intro: rtranclp.rtrancl_into_rtrancl)
qed

lemma answer_travels:
  assumes "writing (conn (ws_server w) k)" "write_queue (conn (ws_server w) k) = [encode_frame p]" "ws_taken w = 0"
    and "ws_down w = []" "rx_buffer (nt_manager (ws_net w)) = []" "client_ok cs (ws_net w)" "fits_frame p"
  shows "(wire_step E k D alive)\<^sup>*\<^sup>* w (w\<lparr>ws_server := put_conn (ws_server w) k
      ((conn (ws_server w) k)\<lparr>write_queue := [], writing := False\<rparr>), ws_inbox := ws_inbox w @ [p]\<rparr>)"
proof -
  let ?f = "encode_frame p" and ?s = "(conn (ws_server w) k)\<lparr>write_queue := [], writing := False\<rparr>"
  let ?w1 = "w\<lparr>ws_down := ?f, ws_taken := length ?f\<rparr>"
  let ?w2 = "w\<lparr>ws_server := put_conn (ws_server w) k ?s, ws_down := ?f\<rparr>"
  let ?w3 = "w\<lparr>ws_server := put_conn (ws_server w) k ?s, ws_inbox := ws_inbox w @ [p]\<rparr>"
  have "(wire_step E k D alive)\<^sup>*\<^sup>* w ?w1"
    using server_writes_all [OF assms(1-3), of "length ?f" E D alive] assms(4) by simp
  also have "wire_step E k D alive ?w1 ?w2"
  proof -
    have "fst (write_done (conn (ws_server w) k)) = ?s" using assms(2) by (simp add: write_done_def)
    moreover have "?w1\<lparr>ws_server := put_conn (ws_server w) k ?s, ws_taken := 0\<rparr> = ?w2" using assms(3) by simp
    ultimately show ?thesis
      using wire_step.server_written [of ?w1 k ?f "[]" E D alive] assms(1,2) by simp
  qed
  also have "wire_step E k D alive ?w2 ?w3"
  proof -
    have nm: "nm_socket (nt_manager (ws_net w)) = Some ConnectedState" using assms(6) by (simp add: client_ok_def)
    have "rx_loop ?f = ([], [p], False)" using rx_loop_frame assms(7) by (simp add: fits_frame_def)
    moreover have same: "(nt_manager (ws_net w))\<lparr>rx_buffer := []\<rparr> = nt_manager (ws_net w)" using assms(5) by simp
    ultimately obtain out where out: "onReadyRead (nt_manager (ws_net w)) ?f = (nt_manager (ws_net w), out)" "received out = [p]"
      using assms(5) nm received_messages [of "[p]"] by (simp add: onReadyRead_def)
    have "(ws_net w)\<lparr>nt_manager := nt_manager (ws_net w)\<rparr> = ws_net w" by simp
    then have "?w2\<lparr>ws_down := [], ws_net := (ws_net w)\<lparr>nt_manager := nt_manager (ws_net w)\<rparr>, ws_inbox := ws_inbox w @ received out\<rparr> = ?w3"
      using assms(4) out(2) by simp
    then show ?thesis
      using wire_step.client_reads [of ?w2 ?f "[]" "nt_manager (ws_net w)" out E k D alive] out(1) by simp
  qed
  finally show ?thesis .
qed

text \<open>An operation typed when nothing is outstanding is sent at once, and its acknowledgement ends the exchange.\<close>

lemma typed_when_quiet:
  fixes u :: u32 and c :: ot_controller and op :: operation
  assumes "ctl_state c = Synchronized" "outstanding c = []" "\<not> is_noop op" "ctl_doc_id c = D"
  defines "op1 \<equiv> op\<lparr>userId := u, op_revision := ctl_revision c\<rparr>"
  defines "c1 \<equiv> c\<lparr>ctl_doc := ld_apply (ctl_doc c) op1, pending_op := Some op1, ctl_state := AwaitingAck\<rparr>"
  shows "onLocalOperations u c [op] = (c1, [Send (OperationMsg
      \<lparr>opm_docId = D, opm_revision = ctl_revision c, opm_ops = [to_entry op]\<rparr>), emitStateLabel c1])"
    "\<exists>c2 l. handleAck c1 a = Some (c2, [RevisionChanged (ack_revision a), StateChanged l]) \<and> ctl_doc_id c1 = D"
  using assms(1,3,4)
  by (simp_all add: onLocalOperations_def local_operation_def sendOp_def to_entry_def Let_def c1_def op1_def
      handleAck_def emitStateLabel_def)

lemma document_acknowledges:
  fixes cs :: client_session and op :: operation and d :: document
  assumes rep: "represents d base lg" "length lg < 2 ^ 32 - 1" "length (content d) < 2 ^ 32"
    and users: "alive k" "um_wf (users_online ds)" "only_user ds (cs_userId cs) k" "command_queue ds = []"
    and op: "coherent op"
  defines "cmd \<equiv> operation_command cs (revision d) (to_entry op)"
  shows "\<exists>d' out. run_step alive (ds\<lparr>command_queue := [cmd]\<rparr>, d) = ((ds, d'), out)
    \<and> to_conn k out = [OperationAckMsg \<lparr>ack_docId = doc_id d, ack_revision = revision d + 1\<rparr>]
    \<and> content d' = effect op (content d) \<and> doc_id d' = doc_id d \<and> \<not> too_old d (cmd_operation cmd)"
proof -
  let ?q = "entry_operation (to_entry op) (cs_userId cs) (revision d)"
  have cmd: "cmd_operation cmd = ?q" "cmd_userId cmd = cs_userId cs" "cmd_type cmd = OperationCmd"
    by (simp_all add: cmd_def operation_command_def DocCommand_def)
  have q: "userId ?q = cs_userId cs" "op_revision ?q = revision d" by (simp_all add: entry_operation_def)
  have "to_entry (op\<lparr>userId := cs_userId cs\<rparr>) = to_entry op" "coherent (op\<lparr>userId := cs_userId cs\<rparr>)"
    using op by (simp_all add: to_entry_def coherent_def)
  then have "same_edit ?q (op\<lparr>userId := cs_userId cs\<rparr>)"
    using entry_restores(1) [of "op\<lparr>userId := cs_userId cs\<rparr>" "cs_userId cs" "revision d"] by simp
  from same_edit_effect [OF this] have eff: "effect ?q = effect op" by (simp add: effect_def fun_eq_iff)
  have rv: "unat (revision d) = length lg" "unat (oldest_revision d) \<le> length lg" using rep(1) by (simp_all add: represents_def)
  then have fresh: "\<not> too_old d ?q" by (simp add: too_old_def q(2) word_less_nat_alt)
  obtain ds' d' out where run: "process_command alive (ds, d) cmd = ((ds', d'), out)" by (metis prod.collapse)
  have "ds\<lparr>command_queue := []\<rparr> = ds" using users(4) by simp
  with run have one: "run_step alive (ds\<lparr>command_queue := [cmd]\<rparr>, d) = ((ds', d'), out)"
    by (simp add: run_step_def fifo_try_dequeue_def)
  from process_operation [OF cmd(3) run users(1-3) rep(1,2)] fresh q
  have "ds' = ds" "doc_id d' = doc_id d" "represents d' base (log_submit lg ?q)"
    "\<exists>m. to_conn k out = [m] \<and> news (cs_userId cs) (doc_id d) m (Suc (length lg), rebase ?q (drop (unat (revision d)) lg))"
    by (auto simp: cmd)
  moreover from this have "content d' = effect op (content d)"
    using rep by (simp add: log_submit_def q rv represents_def replay_snoc eff)
  moreover have "word_of_nat (Suc (length lg)) = revision d + 1"
    by (simp add: rv(1) [symmetric])
  ultimately show ?thesis
    using one fresh by (intro exI [of _ d'] exI [of _ out]) (auto simp: news_def rv q cmd(1) simp del: of_nat_Suc)
qed

text \<open>The whole way: one edit typed in a quiet system.\<close>

lemma edit_round_trip:
  assumes J: "json_library (json E)" and alive: "alive k"
    and rel: "wire_rel (json E) cs k D w st" and inv: "edit_inv cs k base seen unseen st" and quiet: "wire_quiet k D w"
    and ds: "get_session (dm (ws_server w)) D = Some ds" and d: "d = document_of (ws_server w) ds"
    and op: "coherent op" "\<not> is_noop op" "length (content d) + added op < 2 ^ 32" "unat (revision d) < 2 ^ 32 - 1"
    and p: "serialize (json E) (OperationMsg \<lparr>opm_docId = D, opm_revision = revision d, opm_ops = [to_entry op]\<rparr>) = Some p" "fits_frame p"
    and q: "serialize (json E) (OperationAckMsg \<lparr>ack_docId = D, ack_revision = revision d + 1\<rparr>) = Some q" "fits_frame q"
  shows "\<exists>w'. (wire_step E k D alive)\<^sup>*\<^sup>* w w' \<and> wire_quiet k D w' \<and> get_session (dm (ws_server w')) D = Some ds
    \<and> content (document_of (ws_server w') ds) = effect op (content d)"
proof -
  note r = wire_relD [OF rel]
  let ?c = "ws_client w" and ?th = "ws_net w" and ?sv = "ws_server w" and ?u = "cs_userId cs"
  let ?m = "\<lparr>opm_docId = D, opm_revision = revision d, opm_ops = [to_entry op]\<rparr>"
    and ?a = "\<lparr>ack_docId = D, ack_revision = revision d + 1\<rparr>"
  have st: "es_session st = ds" "es_document st = d" using r(3,4) ds d by simp_all
  have conv: "outstanding ?c = []" "ctl_state ?c = Synchronized" "ld_content (ctl_doc ?c) = content d" "ctl_revision ?c = revision d"
    using wire_quiet_converged [OF rel inv quiet ds] d by simp_all
  have idle: "nt_calls ?th = []" "ws_up w = []" "reading (conn ?sv k) = ReadHeader []" "ws_pool w = []" "command_queue ds = []"
    "write_queue (conn ?sv k) = []" "ws_down w = []" "rx_buffer (nt_manager ?th) = []" "ws_inbox w = []"
    using quiet ds by (simp_all add: wire_quiet_def)
  have taken: "ws_taken w = 0" using r(12) idle(6) by (auto simp: down_carries_def Let_def)
  have handled: "ws_handled w = length (sent_to k ?sv)"
    using quiet_messages(2) [OF rel quiet] r(7,8) by simp
  have i: "represents d base (seen @ unseen)" "ctl_doc_id ?c = D" "um_wf (users_online ds)" "only_user ds ?u k"
    "length (content d) < 2 ^ 32"
    using inv r(1,6) st op(3) by (simp_all add: edit_inv_def Let_def)
  have user: "nm_user_id (nt_manager ?th) = ?u" and cok: "client_ok cs ?th" using r(10) by (simp_all add: client_ok_def)
  obtain c1 where typed: "onLocalOperations ?u ?c [op] = (c1, [Send (OperationMsg ?m), emitStateLabel c1])"
    and ack: "\<exists>c2 l. handleAck c1 ?a = Some (c2, [RevisionChanged (revision d + 1), StateChanged l])" and c1: "ctl_doc_id c1 = D"
    using typed_when_quiet(1) [OF conv(2,1) op(2) i(2), where u = ?u]
      typed_when_quiet(2) [OF conv(2,1) op(2) i(2), where u = ?u and a = ?a] conv(4) by auto
  let ?w1 = "w\<lparr>ws_client := c1, ws_net := ?th\<lparr>nt_calls := [SendFrame p]\<rparr>\<rparr>"
  have "post_requests (json E) [Send (OperationMsg ?m), emitStateLabel c1] ?th = Some (?th\<lparr>nt_calls := [SendFrame p]\<rparr>)"
    using p(1) idle(1) by (simp add: post_requests_def emitStateLabel_def network_send_def fifo_enqueue_def)
  from wire_step.typing [OF typed [folded user] _ _ this] have s1: "wire_step E k D alive w ?w1"
    using op(1,3) conv(3) by simp
  have th: "?th\<lparr>nt_calls := []\<rparr> = ?th" using idle(1) by simp
  obtain sv2 where s2: "(wire_step E k D alive)\<^sup>*\<^sup>* ?w1 (w\<lparr>ws_client := c1, ws_server := sv2, ws_pool := [p]\<rparr>)"
    and sv2: "same_server k sv2 ?sv"
    using request_travels [of ?w1 p cs k E D alive] p(2) cok idle th by (auto simp: client_ok_def)
  let ?w2 = "w\<lparr>ws_client := c1, ws_server := sv2, ws_pool := [p]\<rparr>"
  have s: "authenticated (conn sv2 k)" "currentDocId (conn sv2 k) = D" "can_edit (access (dm sv2)) D (cs_userId (conn sv2 k))"
    "get_session (dm sv2) D = Some ds" "operation_command (conn sv2 k) r e = operation_command cs r e"
    "cs_userId (conn sv2 k) = ?u" for r e
    using sv2 r(9) ds by (simp_all add: same_server_def editor_conn_def Let_def operation_command_def)
  define ds3 where "ds3 = ds\<lparr>command_queue := [operation_command cs (revision d) (to_entry op)]\<rparr>"
  define sv3 where "sv3 = sv2\<lparr>dm := (dm sv2)\<lparr>sessions := um_set D ds3 (sessions (dm sv2))\<rparr>\<rparr>"
  let ?w3 = "w\<lparr>ws_client := c1, ws_pool := [], ws_server := sv3\<rparr>"
  have "handle_message E sv2 k p = (sv3, False)"
    using handle_message_edit [OF J p(1) single_sendOp s(1-4)] idle(5)
    by (simp add: sv3_def ds3_def s(5) enqueue_command_def fifo_enqueue_def)
  then have s3: "wire_step E k D alive ?w2 ?w3"
    using wire_step.worker [of ?w2 "[]" p "[]" E k sv3 False D alive] by simp
  have lg: "length (seen @ unseen) < 2 ^ 32 - 1" using i(1) op(4) by (simp add: represents_def)
  obtain d' out where run: "run_step alive (ds3, d) = ((ds, d'), out)"
    and out: "to_conn k out = [OperationAckMsg ?a]" and d': "content d' = effect op (content d)"
    and fresh: "\<not> too_old d (cmd_operation (operation_command cs (revision d) (to_entry op)))"
    using document_acknowledges [where alive = alive and k = k, OF i(1) lg i(5) alive i(3,4) idle(5) op(1)] r(6) st(2) unfolding ds3_def by auto
  let ?m4 = "(dm sv3)\<lparr>sessions := um_set D ds (sessions (dm sv3)), dm_heap := (dm_heap (dm sv3))[ds_docref ds := d']\<rparr>"
  have sess3: "get_session (dm sv3) D = Some ds3" "ds_docref ds3 = ds_docref ds" "document_of sv3 ds3 = d"
    "ds_docref ds < length (dm_heap (dm sv3))"
    using sv2 r(5) st by (simp_all add: sv3_def ds3_def get_session_def umap document_of_def deref_def same_server_def d)
  then have thr: "session_thread alive (dm sv3) D = (?m4, out)"
    using run by (simp add: session_thread_def get_session_def document_of_def)
  define sv4 where "sv4 = document_thread E alive sv3 D"
  have sv4: "sv4 = deliver E (sv3\<lparr>dm := ?m4\<rparr>) out" by (simp add: sv4_def document_thread_def thr)
  have doc4: "document_of sv4 ds = d'" "get_session (dm sv4) D = Some ds"
    using sess3(4) by (simp_all add: sv4 document_of_def deref_def get_session_def umap)
  let ?w4 = "w\<lparr>ws_client := c1, ws_pool := [], ws_server := sv4\<rparr>"
  have "length (effect op (content d)) < 2 ^ 32" using op(3) length_effect_le [of op "content d"] by simp
  then have s4: "wire_step E k D alive ?w3 ?w4"
    using wire_step.document [of sv4 E alive ?w3 D ds3 k] sv4_def sess3 op(4) doc4(1) d' fresh thr out q
    by (simp add: document_of_def) (simp add: ds3_def)
  have conn3: "conn sv3 k = conn ?sv k" "sent_to k sv3 = sent_to k ?sv" using sv2 by (simp_all add: sv3_def same_server_def)
  have conn4: "sent_to k sv4 = sent_to k ?sv @ [OperationAckMsg ?a]" "write_queue (conn sv4 k) = [encode_frame q]"
    "writing (conn sv4 k)" "reading (conn sv4 k) = ReadHeader []"
    using deliver_conn [of "sv3\<lparr>dm := ?m4\<rparr>" k out E] r(9) conn3 out q(1) idle(3,6) unfolding sv4
    by (simp_all add: editor_conn_def Let_def)
  let ?s5 = "(conn sv4 k)\<lparr>write_queue := [], writing := False\<rparr>"
  let ?w5 = "w\<lparr>ws_client := c1, ws_pool := [], ws_server := put_conn sv4 k ?s5, ws_inbox := [q]\<rparr>"
  have s5: "(wire_step E k D alive)\<^sup>*\<^sup>* ?w4 ?w5"
    using answer_travels [of ?w4 k q cs E D alive] conn4 taken idle(7,8,9) cok q(2) by simp
  obtain c2 l where "handleAck c1 ?a = Some (c2, [RevisionChanged (revision d + 1), StateChanged l])" using ack by blast
  then have got: "onNetworkMessage (json E) ?u c1 q = Some (c2, [RevisionChanged (revision d + 1), StateChanged l])"
    using receive_ack [OF J q(1)] c1 by simp
  have none: "post_requests (json E) [RevisionChanged (revision d + 1), StateChanged l] ?th = Some ?th"
    by (simp add: post_requests_def)
  have "\<exists>w6. wire_step E k D alive ?w5 w6 \<and> ws_server w6 = put_conn sv4 k ?s5 \<and> ws_net w6 = ?th \<and> ws_inbox w6 = []
      \<and> ws_up w6 = ws_up w \<and> ws_pool w6 = [] \<and> ws_down w6 = ws_down w"
    using wire_step.client_handles [of ?w5 q "[]" "OperationAckMsg ?a" k E c2 "[RevisionChanged (revision d + 1), StateChanged l]" ?th D alive]
      got none conn4(1) handled user by (intro exI) (auto simp: transformable_def nth_append)
  then obtain w6 where s6: "wire_step E k D alive ?w5 w6" and w6: "ws_server w6 = put_conn sv4 k ?s5" "ws_net w6 = ?th"
    "ws_inbox w6 = []" "ws_up w6 = ws_up w" "ws_pool w6 = []" "ws_down w6 = ws_down w" by blast
  have "(wire_step E k D alive)\<^sup>*\<^sup>* w w6"
    using s1 s2 s3 s4 s5 s6
    by (meson converse_rtranclp_into_rtranclp rtranclp.rtrancl_into_rtrancl rtranclp_trans)
  moreover have "wire_quiet k D w6"
    using idle w6 doc4(2) conn4(4) by (simp add: wire_quiet_def)
  ultimately show ?thesis using w6(1) doc4 d' by (intro exI [of _ w6]) simp
qed

section \<open>Properties\<close>

text \<open>
  C1: the bytes carry the messages. Every run of the client, the network thread, the connection,
  the pool, the document thread and the session's writer, in any interleaving, with bytes read in
  any pieces and with tasks taken in any order, is a run of the system of whole messages; so the
  client's text is the server's text as far as the client has heard of it with the outstanding
  operations applied, and when nothing is on its way anywhere the two texts and revisions are equal.
\<close>

theorem texts_converge_over_bytes:
  assumes "json_library (json E)" "alive k" "wire_start k D w0" "(wire_step E k D alive)\<^sup>*\<^sup>* w0 w"
  shows "\<exists>st. (edit_step (json E) (conn (ws_server w0) k) k alive)\<^sup>*\<^sup>* (messages_at_start D w0) st
    \<and> wire_rel (json E) (conn (ws_server w0) k) k D w st
    \<and> in_sync (ws_known w) (ws_client w)
    \<and> (wire_quiet k D w \<longrightarrow>
        (\<exists>ds. get_session (dm (ws_server w)) D = Some ds \<and> ctl_state (ws_client w) = Synchronized
          \<and> ld_content (ctl_doc (ws_client w)) = content (document_of (ws_server w) ds)
          \<and> ctl_revision (ws_client w) = revision (document_of (ws_server w) ds)))"
proof -
  obtain st base seen unseen where st: "(edit_step (json E) (conn (ws_server w0) k) k alive)\<^sup>*\<^sup>* (messages_at_start D w0) st"
    "wire_rel (json E) (conn (ws_server w0) k) k D w st" "edit_inv (conn (ws_server w0) k) k base seen unseen st"
    using wire_reachable [where alive = alive and k = k, OF assms] by blast
  then show ?thesis
    using edit_inv_converged [OF st(3)] wire_relD(1-3) [OF st(2)] wire_quiet_converged [OF st(2,3)]
    by (intro exI [of _ st]) auto
qed

text \<open>
  C2: an edit gets through. Whenever nothing is on its way, an operation typed by the user can be
  sent, received, applied and acknowledged by steps of the system, after which nothing is on its
  way again and both texts are the old text with the operation applied. The request and its
  acknowledgement have to fit into a frame each, and text and revision stay in their ranges.
\<close>

theorem typed_edit_is_delivered:
  assumes "json_library (json E)" "alive k" "wire_start k D w0" "(wire_step E k D alive)\<^sup>*\<^sup>* w0 w"
    and "wire_quiet k D w" "get_session (dm (ws_server w)) D = Some ds" "d = document_of (ws_server w) ds"
    and "coherent op" "\<not> is_noop op" "length (content d) + added op < 2 ^ 32" "unat (revision d) < 2 ^ 32 - 1"
    and "serialize (json E) (OperationMsg \<lparr>opm_docId = D, opm_revision = revision d, opm_ops = [to_entry op]\<rparr>) = Some p" "fits_frame p"
    and "serialize (json E) (OperationAckMsg \<lparr>ack_docId = D, ack_revision = revision d + 1\<rparr>) = Some q" "fits_frame q"
  shows "\<exists>w'. (wire_step E k D alive)\<^sup>*\<^sup>* w w' \<and> wire_quiet k D w'
    \<and> content (document_of (ws_server w') ds) = effect op (content d)
    \<and> ld_content (ctl_doc (ws_client w')) = effect op (content d)"
proof -
  obtain st base seen unseen where st: "wire_rel (json E) (conn (ws_server w0) k) k D w st"
    "edit_inv (conn (ws_server w0) k) k base seen unseen st"
    using wire_reachable [where alive = alive and k = k, OF assms(1-4)] by blast
  obtain w' where w': "(wire_step E k D alive)\<^sup>*\<^sup>* w w'" "wire_quiet k D w'" "get_session (dm (ws_server w')) D = Some ds"
    "content (document_of (ws_server w') ds) = effect op (content d)"
    using edit_round_trip [where alive = alive and k = k, OF assms(1,2) st assms(5-15)] by blast
  obtain st' base' seen' unseen' where "wire_rel (json E) (conn (ws_server w0) k) k D w' st'"
    "edit_inv (conn (ws_server w0) k) k base' seen' unseen' st'"
    using wire_reachable [where alive = alive and k = k, OF assms(1-3) rtranclp_trans [OF assms(4) w'(1)]] by blast
  from wire_quiet_converged [OF this w'(2,3)] w' show ?thesis by auto
qed

text \<open>User 5, connected over connection 1, edits the empty document 1.\<close>

definition wire_example :: "string wire_state" where
  "wire_example = \<lparr>
     ws_client = OTController (LocalDocument [] 0) 1 0,
     ws_net = \<lparr>nt_manager = \<lparr>nm_socket = Some ConnectedState, rx_buffer = [], nm_user_id = 5, nm_username = ''eve''\<rparr>,
       nt_calls = [], nt_running = True\<rparr>,
     ws_up = [], ws_pool = [],
     ws_server = editing_server\<lparr>dm := (dm editing_server)\<lparr>sessions := [(1, \<lparr>ds_docref = 0, command_queue = [],
       users_online = [(5, \<lparr>cu_userId = 5, cu_username = ''eve'', cu_color = ''#000000'', cu_session = Some 1\<rparr>)],
       stop_requested = False\<rparr>)]\<rparr>\<rparr>,
     ws_taken = 0, ws_down = [], ws_inbox = [], ws_handled = 0, ws_known = []\<rparr>"

abbreviation example_request :: string where
  "example_request \<equiv> print (to_json json_text (OperationMsg example_edit))"

abbreviation example_answer :: string where
  "example_answer \<equiv> print (to_json json_text (OperationAckMsg \<lparr>ack_docId = 1, ack_revision = 1\<rparr>))"

abbreviation example_session :: document_session where
  "example_session \<equiv> \<lparr>ds_docref = 0, command_queue = [],
     users_online = [(5, \<lparr>cu_userId = 5, cu_username = ''eve'', cu_color = ''#000000'', cu_session = Some 1\<rparr>)],
     stop_requested = False\<rparr>"

lemma wire_example_document:
  "get_session (dm (ws_server wire_example)) 1 = Some example_session"
  "document_of (ws_server wire_example) example_session = Document 1 ''notes''"
  "content (Document 1 ''notes'') = []" "revision (Document 1 ''notes'') = 0" "doc_id (Document 1 ''notes'') = 1"
  "length (dm_heap (dm (ws_server wire_example))) = 1"
  by (simp_all add: wire_example_def get_session_def um_find_def document_of_def deref_def Document_def)
    (simp_all add: editing_server_def get_or_create_session_def create_document_def save_meta_def
      DocumentManager_def create_directories_def Let_def umap Document_def)

lemma wire_example_conn:
  "conn (ws_server wire_example) 1 = set_current_doc (set_auth (start_session (ClientSession 1)) 5 ''eve'' ''#000000'') 1"
  "access (dm (ws_server wire_example)) = grant [] 1 5 Owner" "sent_to 1 (ws_server wire_example) = []"
  using editing_server_facts(4)
  by (simp_all add: wire_example_def sent_to_def) (simp_all add: editing_server_def conn_def um_find_def example_server_def)

lemma wire_example_start: "wire_start 1 1 wire_example"
proof -
  let ?s = "conn (ws_server wire_example) 1"
  have s: "authenticated ?s" "\<not> disconnected ?s" "\<not> writing ?s" "write_queue ?s = []" "cs_userId ?s = 5" "currentDocId ?s = 1"
    "reading ?s = ReadHeader []"
    by (simp_all add: wire_example_conn set_current_doc_def set_auth_def start_session_def do_read_header_def ClientSession_def)
  have edit: "can_edit (access (dm (ws_server wire_example))) 1 5"
    by (simp add: wire_example_conn permissions acl_laws)
  have rep: "represents (Document 1 ''notes'') [] []" using Document_represents [of 1 "''notes''" "[]"]
    by (simp add: load_content_def Document_def)
  show ?thesis
    unfolding wire_start_def Let_def
    using s edit rep wire_example_document wire_example_conn(3)
    by (auto simp: editor_conn_def Let_def client_ok_def only_user_def um_find_def um_wf_def replay_def
        intro!: exI [of _ "[]"] simp: wire_example_def)
qed

lemma example_frames: "fits_frame example_request" "fits_frame example_answer"
proof -
  have "length example_request \<le> 200" "length example_answer \<le> 200" by code_simp+
  then show "fits_frame example_request" "fits_frame example_answer" by (simp_all only: fits_frame_def)
qed

text \<open>What the user types: an \<open>x\<close>.\<close>

abbreviation example_typed :: operation where
  "example_typed \<equiv> make_insert 0 ''x'' 0 0"

lemma example_typed_facts:
  "coherent example_typed" "\<not> is_noop example_typed"
  "length (content (Document 1 ''notes'')) + added example_typed < 2 ^ 32"
  "unat (revision (Document 1 ''notes'')) < 2 ^ 32 - 1"
  "effect example_typed (content (Document 1 ''notes'')) = ''x''"
  "serialize (json example_env) (OperationMsg \<lparr>opm_docId = 1, opm_revision = revision (Document 1 ''notes''),
     opm_ops = [to_entry example_typed]\<rparr>) = Some example_request"
  "serialize (json example_env) (OperationAckMsg \<lparr>ack_docId = 1, ack_revision = revision (Document 1 ''notes'') + 1\<rparr>)
     = Some example_answer"
  using wire_example_document(3,4)
  by (simp_all only: example_json)
    (simp_all add: is_noop_def added_def effect_def splice_in_def to_entry_def example_edit_def)

lemma wire_example_quiet: "wire_quiet 1 1 wire_example"
  using wire_example_start wire_example_document(1) by (simp add: wire_quiet_def wire_start_def Let_def)

lemma wire_example_run:
  "\<exists>w. (wire_step example_env 1 1 (\<lambda>_. True))\<^sup>*\<^sup>* wire_example w \<and> wire_quiet 1 1 w
    \<and> get_session (dm (ws_server w)) 1 = Some example_session \<and> content (document_of (ws_server w) example_session) = ''x''"
proof -
  note rel = wire_start_related [OF wire_example_start]
  obtain base lg where "edit_inv (conn (ws_server wire_example) 1) 1 base lg [] (messages_at_start 1 wire_example)"
    using edit_start_inv [OF rel(1)] by blast
  from edit_round_trip [where alive = "\<lambda>_. True" and k = 1, OF example_json(1) TrueI rel(2) this wire_example_quiet
      wire_example_document(1) wire_example_document(2) [symmetric] example_typed_facts(1-4,6) example_frames(1)
      example_typed_facts(7) example_frames(2)] example_typed_facts(5)
  show ?thesis by simp
qed

theorem texts_converge_over_bytes_witness:
  "\<exists>w. (wire_step example_env 1 1 (\<lambda>_. True))\<^sup>*\<^sup>* wire_example w \<and> wire_quiet 1 1 w
    \<and> content (document_of (ws_server w) example_session) = ''x'' \<and> ld_content (ctl_doc (ws_client w)) = ''x''"
proof -
  obtain w where w: "(wire_step example_env 1 1 (\<lambda>_. True))\<^sup>*\<^sup>* wire_example w" "wire_quiet 1 1 w"
    "get_session (dm (ws_server w)) 1 = Some example_session" "content (document_of (ws_server w) example_session) = ''x''"
    using wire_example_run by blast
  from texts_converge_over_bytes [where alive = "\<lambda>_. True" and k = 1, OF example_json(1) TrueI wire_example_start w(1)] w(2,3)
  have "ld_content (ctl_doc (ws_client w)) = content (document_of (ws_server w) example_session)" by auto
  with w show ?thesis by auto
qed

theorem typed_edit_is_delivered_witness:
  "\<exists>w. (wire_step example_env 1 1 (\<lambda>_. True))\<^sup>*\<^sup>* wire_example w \<and> wire_quiet 1 1 w
    \<and> content (document_of (ws_server w) example_session) = ''x'' \<and> ld_content (ctl_doc (ws_client w)) = ''x''"
  using typed_edit_is_delivered [where alive = "\<lambda>_. True" and k = 1, OF example_json(1) TrueI wire_example_start rtranclp.rtrancl_refl
      wire_example_quiet wire_example_document(1) wire_example_document(2) [symmetric] example_typed_facts(1-4,6) example_frames(1)
      example_typed_facts(7) example_frames(2)] example_typed_facts(5)
  by simp

end
