(* ===== verification/Editor_Text.thy ===== *)
theory Editor_Text
  imports Client_OT Client_Codec
begin

text \<open>
  Texts and cursors of the editor: \<^verbatim>\<open>client/src/utf8_codec.cpp\<close>, \<^verbatim>\<open>client/src/cursor_translator.cpp\<close>
  and \<^verbatim>\<open>client/src/remote_cursors_model.cpp\<close>.

  The widget counts in UTF-16 units and the protocol in bytes of UTF-8. A \<^verbatim>\<open>QString\<close> is a list of
  16-bit units. The conversions, the text a text document makes of a string it is given, and the
  names that are colours belong to Qt and are the parameter \<open>Q\<close>; what the client relies on is the
  locale \<open>qt_text\<close>, which the UTF-8 of the Unicode standard satisfies.
\<close>

section \<open>Qt's strings\<close>

type_synonym qstring = "16 word list"

record qt =
  toUtf8 :: "qstring \<Rightarrow> string"
  fromUtf8 :: "string \<Rightarrow> qstring"
  plain :: "qstring \<Rightarrow> qstring"
  colorValid :: "qstring \<Rightarrow> bool"

definition high_surrogate :: "16 word \<Rightarrow> bool" where
  "high_surrogate u = (0xD800 \<le> u \<and> u \<le> 0xDBFF)"

definition low_surrogate :: "16 word \<Rightarrow> bool" where
  "low_surrogate u = (0xDC00 \<le> u \<and> u \<le> 0xDFFF)"

text \<open>Well-formed UTF-16: surrogates come in pairs.\<close>

fun utf16 :: "qstring \<Rightarrow> bool" where
  "utf16 [] = True"
| "utf16 [u] = (\<not> high_surrogate u \<and> \<not> low_surrogate u)"
| "utf16 (u # v # us) =
     (if high_surrogate u then low_surrogate v \<and> utf16 us else \<not> low_surrogate u \<and> utf16 (v # us))"

locale qt_text =
  fixes Q :: qt
  assumes toUtf8_append: "utf16 a \<Longrightarrow> utf16 b \<Longrightarrow> toUtf8 Q (a @ b) = toUtf8 Q a @ toUtf8 Q b"
    and fromUtf8_toUtf8: "utf16 a \<Longrightarrow> fromUtf8 Q (toUtf8 Q a) = a"
    and length_toUtf8: "utf16 a \<Longrightarrow> length a \<le> length (toUtf8 Q a)"
begin

lemma toUtf8_inject: "utf16 a \<Longrightarrow> utf16 b \<Longrightarrow> toUtf8 Q a = toUtf8 Q b \<longleftrightarrow> a = b"
  by (metis fromUtf8_toUtf8)

lemma toUtf8_Nil: "toUtf8 Q [] = []"
  using toUtf8_append [of "[]" "[]"] by simp

lemma toUtf8_empty: "utf16 a \<Longrightarrow> toUtf8 Q a = [] \<longleftrightarrow> a = []"
  using toUtf8_inject [of a "[]"] by (simp add: toUtf8_Nil)

end

lemma utf16_append: "utf16 a \<Longrightarrow> utf16 (a @ b) \<longleftrightarrow> utf16 b"
  by (induction a rule: utf16.induct) (cases b; auto split: if_splits)+

section \<open>The UTF-8 of the standard\<close>

definition enc_cp :: "nat \<Rightarrow> nat list" where
  "enc_cp c =
     (if c < 0x80 then [c]
      else if c < 0x800 then [0xC0 + c div 64, 0x80 + c mod 64]
      else if c < 0x10000 then [0xE0 + c div 4096, 0x80 + c div 64 mod 64, 0x80 + c mod 64]
      else [0xF0 + c div 262144, 0x80 + c div 4096 mod 64, 0x80 + c div 64 mod 64, 0x80 + c mod 64])"

definition scalar :: "nat \<Rightarrow> bool" where
  "scalar c = (c < 0x110000 \<and> \<not> (0xD800 \<le> c \<and> c \<le> 0xDFFF))"

definition of_pair :: "16 word \<Rightarrow> 16 word \<Rightarrow> nat" where
  "of_pair u v = 0x10000 + (unat u - 0xD800) * 1024 + (unat v - 0xDC00)"

definition units :: "nat \<Rightarrow> qstring" where
  "units c =
     (if c < 0x10000 then [word_of_nat c]
      else [word_of_nat (0xD800 + (c - 0x10000) div 1024), word_of_nat (0xDC00 + (c - 0x10000) mod 1024)])"

fun utf8_of :: "qstring \<Rightarrow> nat list" where
  "utf8_of [] = []"
| "utf8_of [u] = enc_cp (if high_surrogate u \<or> low_surrogate u then 0xFFFD else unat u)"
| "utf8_of (u # v # us) =
     (if high_surrogate u \<and> low_surrogate v then enc_cp (of_pair u v) @ utf8_of us
      else enc_cp (if high_surrogate u \<or> low_surrogate u then 0xFFFD else unat u) @ utf8_of (v # us))"

definition seq_len :: "nat \<Rightarrow> nat" where
  "seq_len b = (if b < 0xC0 then 1 else if b < 0xE0 then 2 else if b < 0xF0 then 3 else 4)"

definition cp_of :: "nat list \<Rightarrow> nat" where
  "cp_of bs =
     (case bs of
        [a] \<Rightarrow> a
      | [a, b] \<Rightarrow> (a - 0xC0) * 64 + (b - 0x80)
      | [a, b, c] \<Rightarrow> (a - 0xE0) * 4096 + (b - 0x80) * 64 + (c - 0x80)
      | [a, b, c, d] \<Rightarrow> (a - 0xF0) * 262144 + (b - 0x80) * 4096 + (c - 0x80) * 64 + (d - 0x80)
      | _ \<Rightarrow> 0x110000)"

text \<open>A sequence that is not the encoding of a scalar value becomes the replacement character.\<close>

definition encoded :: "nat list \<Rightarrow> bool" where
  "encoded s = (scalar (cp_of s) \<and> enc_cp (cp_of s) = s)"

fun utf8_units :: "nat list \<Rightarrow> qstring" where
  "utf8_units [] = []"
| "utf8_units (b # bs) =
     (if encoded (take (seq_len b) (b # bs))
      then units (cp_of (take (seq_len b) (b # bs))) @ utf8_units (drop (seq_len b - 1) bs)
      else 0xFFFD # utf8_units bs)"

text \<open>The text a document returns has spaces for non-breaking spaces and newlines for separators.\<close>

definition plain_unit :: "16 word \<Rightarrow> 16 word" where
  "plain_unit u = (if u = 0xA0 then 0x20 else if u = 0x2028 \<or> u = 0x2029 then 0x0A else u)"

definition unicode_qt :: qt where
  "unicode_qt = \<lparr>toUtf8 = (\<lambda>s. map char_of (utf8_of s)), fromUtf8 = (\<lambda>s. utf8_units (map of_char s)),
     plain = map plain_unit, colorValid = (\<lambda>s. s \<noteq> [] \<and> hd s = 0x23 \<and> length s = 7)\<rparr>"

lemma unat_surrogate:
  "high_surrogate u \<longleftrightarrow> 0xD800 \<le> unat u \<and> unat u \<le> 0xDBFF"
  "low_surrogate u \<longleftrightarrow> 0xDC00 \<le> unat u \<and> unat u \<le> 0xDFFF"
  by (simp_all add: high_surrogate_def low_surrogate_def word_le_nat_alt)

lemma unat_u16_less: "unat (u :: 16 word) < 0x10000"
  using unsigned_less [of u] by simp

lemma enc_cp_bytes: "c < 0x110000 \<Longrightarrow> \<forall>b \<in> set (enc_cp c). b < 256"
  by (auto simp: enc_cp_def)

text \<open>The digits of a number to the base 64.\<close>

lemma digits64:
  "c div 64 * 64 + c mod 64 = (c :: nat)"
  "c div 4096 * 4096 + c div 64 mod 64 * 64 + c mod 64 = (c :: nat)"
  "c div 262144 * 262144 + c div 4096 mod 64 * 4096 + c div 64 mod 64 * 64 + c mod 64 = (c :: nat)"
proof -
  have d: "c div 4096 = c div 64 div 64" "c div 262144 = c div 64 div 64 div 64" by (simp_all add: div_mult2_eq [symmetric])
  note m = div_mult_mod_eq [of c 64] div_mult_mod_eq [of "c div 64" 64] div_mult_mod_eq [of "c div 64 div 64" 64]
  show "c div 64 * 64 + c mod 64 = c" by (rule m)
  show "c div 4096 * 4096 + c div 64 mod 64 * 64 + c mod 64 = c" unfolding d using m by linarith
  show "c div 262144 * 262144 + c div 4096 mod 64 * 4096 + c div 64 mod 64 * 64 + c mod 64 = c"
    unfolding d using m by linarith
qed

lemma cp_of_enc_cp: "cp_of (enc_cp c) = c"
  using digits64 [of c] by (simp add: enc_cp_def cp_of_def)

lemma seq_len_enc_cp: "c < 0x110000 \<Longrightarrow> enc_cp c = b # bs \<Longrightarrow> seq_len b = Suc (length bs)"
  by (auto simp: enc_cp_def seq_len_def div_less_iff_less_mult split: if_splits)

lemma utf8_units_enc_cp:
  assumes "scalar c"
  shows "utf8_units (enc_cp c @ r) = units c @ utf8_units r"
proof -
  obtain b bs where e: "enc_cp c = b # bs" by (cases "enc_cp c") (auto simp: enc_cp_def split: if_splits)
  have "seq_len b = Suc (length bs)" using seq_len_enc_cp [OF _ e] assms by (simp add: scalar_def)
  then have "take (seq_len b) (b # bs @ r) = enc_cp c" "drop (seq_len b - 1) (bs @ r) = r" using e by simp_all
  then show ?thesis using assms e cp_of_enc_cp [of c] by (simp add: encoded_def)
qed

lemma units_simple: "\<not> high_surrogate u \<Longrightarrow> \<not> low_surrogate u \<Longrightarrow> scalar (unat u) \<and> units (unat u) = [u]"
  using unat_u16_less [of u] by (auto simp: scalar_def units_def unat_surrogate)

lemma units_pair:
  assumes "high_surrogate u" "low_surrogate v"
  shows "scalar (of_pair u v) \<and> units (of_pair u v) = [u, v]"
proof -
  have r: "0xD800 \<le> unat u" "unat u \<le> 0xDBFF" "0xDC00 \<le> unat v" "unat v \<le> 0xDFFF"
    using assms by (simp_all add: unat_surrogate)
  have "of_pair u v - 0x10000 = (unat u - 0xD800) * 1024 + (unat v - 0xDC00)" "unat v - 0xDC00 < 1024"
    using r by (simp_all add: of_pair_def)
  then have "(of_pair u v - 0x10000) div 1024 = unat u - 0xD800" "(of_pair u v - 0x10000) mod 1024 = unat v - 0xDC00"
    by (simp_all only: div_mult_self3 mod_mult_self3 div_less mod_less add_0_right)
  then have "0xD800 + (of_pair u v - 0x10000) div 1024 = unat u" "0xDC00 + (of_pair u v - 0x10000) mod 1024 = unat v"
    using r by simp_all
  then show ?thesis using r by (simp add: units_def scalar_def of_pair_def)
qed

lemma utf8_units_of: "utf16 s \<Longrightarrow> utf8_units (utf8_of s) = s"
proof (induction s rule: utf16.induct)
  case (2 u)
  then show ?case using utf8_units_enc_cp [of "unat u" "[]"] units_simple [of u] by simp
next
  case (3 u v us)
  then show ?case
    using units_simple [of u] units_pair [of u v] by (auto simp: utf8_units_enc_cp split: if_splits)
qed simp

lemma utf8_of_bytes: "\<forall>b \<in> set (utf8_of s). b < 256"
proof (induction s rule: utf8_of.induct)
  case (2 u)
  then show ?case using enc_cp_bytes [where c = "unat u"] enc_cp_bytes [where c = "0xFFFD"] unat_u16_less [of u] by simp
next
  case (3 u v us)
  have "of_pair u v < 0x110000" if "high_surrogate u" "low_surrogate v"
    using units_pair [OF that] by (simp add: scalar_def)
  then show ?case using 3 enc_cp_bytes [where c = "unat u"] enc_cp_bytes [where c = "0xFFFD"] enc_cp_bytes [where c = "of_pair u v"] unat_u16_less [of u] by auto
qed simp

lemma utf8_of_append: "utf16 a \<Longrightarrow> utf16 b \<Longrightarrow> utf8_of (a @ b) = utf8_of a @ utf8_of b"
proof (induction a rule: utf16.induct)
  case (2 u)
  then show ?case by (cases b) auto
next
  case (3 u v us)
  then show ?case by (auto split: if_splits)
qed simp

lemma enc_cp_length: "0 < length (enc_cp c)" "0x10000 \<le> c \<Longrightarrow> length (enc_cp c) = 4"
  by (simp_all add: enc_cp_def)

lemma length_utf8_of: "utf16 s \<Longrightarrow> length s \<le> length (utf8_of s)"
proof (induction s rule: utf16.induct)
  case (3 u v us)
  have "length (enc_cp (of_pair u v)) = 4" by (rule enc_cp_length) (simp add: of_pair_def)
  moreover have "0 < length (enc_cp (unat u))" by (rule enc_cp_length)
  ultimately show ?case using 3 by (auto split: if_splits simp del: length_greater_0_conv)
qed (simp_all add: enc_cp_def)

interpretation unicode: qt_text unicode_qt
proof
  show "toUtf8 unicode_qt (a @ b) = toUtf8 unicode_qt a @ toUtf8 unicode_qt b" if "utf16 a" "utf16 b" for a b
    using that by (simp add: unicode_qt_def utf8_of_append)
  show "fromUtf8 unicode_qt (toUtf8 unicode_qt a) = a" if "utf16 a" for a
  proof -
    have "map (of_char \<circ> char_of) (utf8_of a) = utf8_of a" using utf8_of_bytes [of a] by (intro map_idI) simp
    then show ?thesis using that by (simp add: unicode_qt_def utf8_units_of)
  qed
qed (simp add: unicode_qt_def length_utf8_of)

section \<open>Offsets\<close>

definition utf16_to_utf8_offset :: "qt \<Rightarrow> qstring \<Rightarrow> int \<Rightarrow> u32" where
  "utf16_to_utf8_offset Q s utf16_offset =
     (if utf16_offset \<le> 0 then 0
      else if int (length s) \<le> utf16_offset then size32 (toUtf8 Q s)
      else size32 (toUtf8 Q (take (nat utf16_offset) s)))"

text \<open>\<^verbatim>\<open>QByteArray::left\<close> of a negative number is empty; a size is returned as an \<^verbatim>\<open>int\<close>.\<close>

definition utf8_to_utf16_offset :: "qt \<Rightarrow> string \<Rightarrow> u32 \<Rightarrow> int" where
  "utf8_to_utf16_offset Q utf8_text utf8_offset =
     (if utf8_offset = 0 then 0
      else if size32 utf8_text \<le> utf8_offset then sint (size32 (fromUtf8 Q utf8_text))
      else sint (size32 (fromUtf8 Q (take (nat (sint utf8_offset)) utf8_text))))"

section \<open>Cursors\<close>

definition translate :: "u32 \<Rightarrow> operation \<Rightarrow> u32" where
  "translate my_pos op =
     (if is_noop op then my_pos
      else if op_type op = Insert then
        (let len = size32 (op_text op) in if position op \<le> my_pos then my_pos + len else my_pos)
      else
        (let p = position op; e = p + op_length op
         in if e \<le> my_pos then my_pos - op_length op else if my_pos \<le> p then my_pos else p))"

record remote_cursor =
  rc_userId :: u32
  rc_username :: qstring
  rc_color :: qstring
  rc_position :: u32
  rc_selectionStart :: "u32 option"
  rc_selectionEnd :: "u32 option"

record remote_cursors_model =
  local_user_id :: u32
  cursor_map :: "(u32, remote_cursor) umap"

text \<open>The operations say whether they emit \<^verbatim>\<open>cursorsChanged\<close>.\<close>

definition RemoteCursorsModel :: "u32 \<Rightarrow> remote_cursors_model" where
  "RemoteCursorsModel uid = \<lparr>local_user_id = uid, cursor_map = []\<rparr>"

definition cursors :: "remote_cursors_model \<Rightarrow> remote_cursor list" where
  "cursors m = map snd (cursor_map m)"

definition gray :: qstring where
  "gray = [0x23, 0x38, 0x30, 0x38, 0x30, 0x38, 0x30]"

definition parseColor :: "qt \<Rightarrow> string \<Rightarrow> qstring" where
  "parseColor Q hex = (let c = fromUtf8 Q hex in if colorValid Q c then c else gray)"

definition remote_cursor_of :: "qt \<Rightarrow> cursor_info \<Rightarrow> remote_cursor" where
  "remote_cursor_of Q c =
     \<lparr>rc_userId = ci_userId c, rc_username = fromUtf8 Q (ci_username c), rc_color = parseColor Q (ci_color c),
      rc_position = ci_position c, rc_selectionStart = ci_selectionStart c, rc_selectionEnd = ci_selectionEnd c\<rparr>"

text \<open>\<^verbatim>\<open>emplace\<close> keeps an entry that is already there.\<close>

fun collect_cursors :: "qt \<Rightarrow> u32 \<Rightarrow> (u32, remote_cursor) umap \<Rightarrow> cursor_info list \<Rightarrow> (u32, remote_cursor) umap" where
  "collect_cursors Q uid nxt [] = nxt"
| "collect_cursors Q uid nxt (c # cs) =
     (if ci_userId c = uid then collect_cursors Q uid nxt cs
      else if um_find nxt (ci_userId c) \<noteq> None then collect_cursors Q uid nxt cs
      else collect_cursors Q uid (um_set (ci_userId c) (remote_cursor_of Q c) nxt) cs)"

definition applyBroadcast :: "qt \<Rightarrow> cursor_broadcast_msg \<Rightarrow> remote_cursors_model \<Rightarrow> remote_cursors_model \<times> bool" where
  "applyBroadcast Q msg m = (m\<lparr>cursor_map := collect_cursors Q (local_user_id m) [] (cb_cursors msg)\<rparr>, True)"

definition move_cursor :: "operation \<Rightarrow> remote_cursor \<Rightarrow> remote_cursor" where
  "move_cursor op c = c\<lparr>rc_position := translate (rc_position c) op,
     rc_selectionStart := map_option (\<lambda>p. translate p op) (rc_selectionStart c),
     rc_selectionEnd := map_option (\<lambda>p. translate p op) (rc_selectionEnd c)\<rparr>"

definition cursorsApplyRemote :: "operation \<Rightarrow> remote_cursors_model \<Rightarrow> remote_cursors_model \<times> bool" where
  "cursorsApplyRemote op m =
     (if is_noop op \<or> cursor_map m = [] then (m, False)
      else (m\<lparr>cursor_map := map (\<lambda>(k, c). (k, move_cursor op c)) (cursor_map m)\<rparr>, True))"

definition removeUser :: "u32 \<Rightarrow> remote_cursors_model \<Rightarrow> remote_cursors_model \<times> bool" where
  "removeUser uid m =
     (if um_find (cursor_map m) uid \<noteq> None then (m\<lparr>cursor_map := um_erase uid (cursor_map m)\<rparr>, True) else (m, False))"

definition clear_cursors :: "remote_cursors_model \<Rightarrow> remote_cursors_model \<times> bool" where
  "clear_cursors m = (if cursor_map m = [] then (m, False) else (m\<lparr>cursor_map := []\<rparr>, True))"

section \<open>The remote cursors\<close>

lemma collect_cursors_find:
  "um_find (collect_cursors Q uid m cs) u =
     (case um_find m u of
        Some c \<Rightarrow> Some c
      | None \<Rightarrow> if u = uid then None else map_option (remote_cursor_of Q) (find (\<lambda>c. ci_userId c = u) cs))"
  by (induction cs arbitrary: m) (auto simp: umap split: option.splits)

lemma collect_cursors_wf: "um_wf m \<Longrightarrow> um_wf (collect_cursors Q uid m cs)"
  by (induction cs arbitrary: m) (auto simp: umap)

text \<open>A broadcast leaves the first cursor of every user but the local one.\<close>

lemma applyBroadcast_find:
  "um_find (cursor_map (fst (applyBroadcast Q msg m))) u =
     (if u = local_user_id m then None
      else map_option (remote_cursor_of Q) (find (\<lambda>c. ci_userId c = u) (cb_cursors msg)))"
  using collect_cursors_find [of Q "local_user_id m" "[]"] by (simp add: applyBroadcast_def um_find_def)

lemma cursorsApplyRemote_find:
  "um_find (cursor_map (fst (cursorsApplyRemote op m))) u =
     (if is_noop op then um_find (cursor_map m) u else map_option (move_cursor op) (um_find (cursor_map m) u))"
  by (auto simp: cursorsApplyRemote_def um_find_def map_of_map)

text \<open>
  The place of a cursor. An operation before the cursor leaves the bytes after it, one behind the
  cursor those before it; a deletion around the cursor takes it to where the deletion begins.
\<close>

definition keeps_place :: "operation \<Rightarrow> string \<Rightarrow> nat \<Rightarrow> nat \<Rightarrow> bool" where
  "keeps_place op s q q' =
     (let p = unat (position op); s' = effect op s
      in if op_type op = Insert
         then (if p \<le> q then drop q' s' = drop q s else take q' s' = take q s)
         else if p + unat (op_length op) \<le> q then drop q' s' = drop q s
         else if q \<le> p then take q' s' = take q s
         else q' = p)"

lemma unat_translate:
  assumes "fits n op" "n + length (op_text op) < 2 ^ 32" "unat pos \<le> n"
  shows "unat (translate pos op) =
    (if op_type op = Insert
     then (if unat (position op) \<le> unat pos then unat pos + length (op_text op) else unat pos)
     else if unat (position op) + unat (op_length op) \<le> unat pos then unat pos - unat (op_length op)
     else min (unat pos) (unat (position op)))"
proof (cases "op_type op")
  case Insert
  have "unat (pos + size32 (op_text op)) = unat pos + length (op_text op)"
    using assms(2,3) by (simp add: unat_add_no_wrap unat_size32)
  with Insert show ?thesis by (auto simp: translate_def is_noop_def Let_def word_le_nat_alt)
next
  case Delete
  then have fit: "unat (position op) + unat (op_length op) < 2 ^ 32" using assms(1) by (simp add: fits_def)
  have "unat (position op + op_length op) = unat (position op) + unat (op_length op)"
    using fit by (simp add: unat_add_no_wrap)
  moreover have "unat (pos - op_length op) = unat pos - unat (op_length op)" if "unat (op_length op) \<le> unat pos"
    using that by (simp add: unat_sub word_le_nat_alt)
  moreover have "op_length op = 0 \<longleftrightarrow> unat (op_length op) = 0" by (simp add: unat_eq_zero)
  ultimately show ?thesis using Delete by (auto simp: translate_def is_noop_def Let_def word_le_nat_alt)
qed

section \<open>Properties\<close>

text \<open>
  C39: cursors of others stay where they belong. Translating a position in the text past an operation
  gives a position in the new text, between the same bytes, or the start of the deletion that
  swallowed it; positions keep their order, so a selection never turns around.
\<close>

theorem translate_keeps_place:
  assumes "fits (length s) op" "length s + length (op_text op) < 2 ^ 32" "unat pos \<le> length s"
  shows "unat (translate pos op) \<le> length (effect op s)
    \<and> keeps_place op s (unat pos) (unat (translate pos op))
    \<and> (\<forall>pos'. pos' \<le> pos \<longrightarrow> translate pos' op \<le> translate pos op)"
proof (intro conjI allI impI)
  note eq = unat_translate [OF assms]
  show "unat (translate pos op) \<le> length (effect op s)"
    using assms by (auto simp: eq effect_def length_cut fits_def)
  show "keeps_place op s (unat pos) (unat (translate pos op))"
    using assms by (auto simp: eq keeps_place_def effect_def splice_in_def cut_out_def Let_def fits_def)
  fix pos' assume "pos' \<le> pos"
  then have "unat pos' \<le> unat pos" by (simp add: word_le_nat_alt)
  with assms show "translate pos' op \<le> translate pos op"
    by (auto simp: word_le_nat_alt eq unat_translate [OF assms(1,2), of pos'])
qed

theorem translate_keeps_place_witness:
  "translate 3 (make_insert 1 ''xy'' 0 0) = 5 \<and> effect (make_insert 1 ''xy'' 0 0) ''abcd'' = ''axybcd''
   \<and> keeps_place (make_insert 1 ''xy'' 0 0) ''abcd'' 3 5"
proof -
  have "fits (length ''abcd'') (make_insert 1 ''xy'' 0 0)" "length ''abcd'' + length (op_text (make_insert 1 ''xy'' 0 0)) < 2 ^ 32"
    "unat (3 :: u32) \<le> length ''abcd''" by (simp_all add: fits_def)
  from translate_keeps_place [OF this] show ?thesis
    by (simp add: translate_def is_noop_def size32_def effect_def splice_in_def)
qed

end
