(* ===== verification/Editor_Widget.thy ===== *)
theory Editor_Widget
  imports Collab_Double Editor_Text
begin

text \<open>
  The text field of the client, \<^verbatim>\<open>client/src/editor_widget.cpp\<close>: it turns the changes the user makes
  into operations and carries out the operations of others, and keeps where remote cursors are drawn
  while they move. Painting is not part of the model.

  \<open>ed_text\<close> is what \<^verbatim>\<open>toPlainText\<close> returns, \<open>ed_anchor\<close> and \<open>ed_position\<close> are the user's text cursor.
  A change of the text makes Qt call \<open>onContentsChange\<close> with a position and the numbers of units
  removed and added; what the report means is \<open>reports\<close> below.
\<close>

section \<open>State and operations\<close>

text \<open>Where a remote cursor is drawn while it moves to its position.\<close>

record cursor_anim =
  display_position :: double
  display_sel_start :: "double option"
  display_sel_end :: "double option"

record editor =
  ed_text :: qstring
  ed_anchor :: int
  ed_position :: int
  ed_user_id :: u32
  ed_revision :: u32
  applying_remote :: bool
  last_known_text :: qstring
  ed_remote_cursors :: "remote_cursor list"
  read_only :: bool
  cursor_anims :: "(u32, cursor_anim) umap"
  anim_timer :: bool

definition EditorWidget :: editor where
  "EditorWidget = \<lparr>ed_text = [], ed_anchor = 0, ed_position = 0, ed_user_id = 0, ed_revision = 0,
     applying_remote = False, last_known_text = [], ed_remote_cursors = [], read_only = False,
     cursor_anims = [], anim_timer = False\<rparr>"

text \<open>\<^verbatim>\<open>QString::mid\<close> for a position and a length that are not negative.\<close>

definition mid :: "qstring \<Rightarrow> int \<Rightarrow> int \<Rightarrow> qstring" where
  "mid s p n = take (nat n) (drop (nat p) s)"

definition onContentsChange :: "qt \<Rightarrow> int \<Rightarrow> int \<Rightarrow> int \<Rightarrow> editor \<Rightarrow> editor \<times> operation list" where
  "onContentsChange Q pos charsRemoved charsAdded e =
     (if applying_remote e then (e\<lparr>last_known_text := ed_text e\<rparr>, [])
      else
        (let utf8_pos = utf16_to_utf8_offset Q (last_known_text e) pos;
             removed_utf8 = toUtf8 Q (mid (last_known_text e) pos charsRemoved);
             added_utf8 = toUtf8 Q (mid (ed_text e) pos charsAdded);
             ops = (if 0 < charsRemoved
                    then [make_delete utf8_pos (size32 removed_utf8) removed_utf8 (ed_user_id e) (ed_revision e)] else [])
                @ (if 0 < charsAdded
                   then [make_insert utf8_pos added_utf8 (ed_user_id e) (ed_revision e)] else [])
         in (e\<lparr>last_known_text := ed_text e\<rparr>, ops)))"

text \<open>A new text in the widget; Qt reports the change, here as a replacement of the whole text.\<close>

definition change_text :: "qt \<Rightarrow> qstring \<Rightarrow> editor \<Rightarrow> editor" where
  "change_text Q new e =
     fst (onContentsChange Q 0 (int (length (ed_text e))) (int (length new)) (e\<lparr>ed_text := new\<rparr>))"

definition resetContent :: "qt \<Rightarrow> qstring \<Rightarrow> editor \<Rightarrow> editor" where
  "resetContent Q content e =
     (let e = e\<lparr>applying_remote := True\<rparr>;
          e = (change_text Q (plain Q content) e)\<lparr>ed_anchor := 0, ed_position := 0\<rparr>;
          e = e\<lparr>last_known_text := content\<rparr>
      in e\<lparr>applying_remote := False\<rparr>)"

definition setEditorIdentity :: "u32 \<Rightarrow> u32 \<Rightarrow> editor \<Rightarrow> editor" where
  "setEditorIdentity uid rv e = e\<lparr>ed_user_id := uid, ed_revision := rv\<rparr>"

definition setRevision :: "u32 \<Rightarrow> editor \<Rightarrow> editor" where
  "setRevision rv e = e\<lparr>ed_revision := rv\<rparr>"

text \<open>\<^verbatim>\<open>QTextCursor::setPosition\<close> leaves the cursor where it is when the position is out of range.\<close>

definition setPosition :: "qstring \<Rightarrow> int \<Rightarrow> int \<Rightarrow> int" where
  "setPosition s p cur = (if 0 \<le> p \<and> p \<le> int (length s) then p else cur)"

text \<open>The text after the edit made with \<^verbatim>\<open>edit_cursor\<close>.\<close>

definition edited_text :: "qt \<Rightarrow> operation \<Rightarrow> editor \<Rightarrow> qstring" where
  "edited_text Q op e =
     (let utf8_before = toUtf8 Q (last_known_text e);
          utf16_pos = utf8_to_utf16_offset Q utf8_before (position op);
          start = setPosition (ed_text e) utf16_pos 0
      in if op_type op = Insert
         then splice_in (nat start) (plain Q (fromUtf8 Q (to_qbytes (op_text op)))) (ed_text e)
         else
           (let utf16_end = utf8_to_utf16_offset Q utf8_before (position op + op_length op);
                to = setPosition (ed_text e) utf16_end start
            in cut_out (nat (min start to)) (nat \<bar>to - start\<bar>) (ed_text e)))"

definition applyRemoteOperation :: "qt \<Rightarrow> operation \<Rightarrow> editor \<Rightarrow> editor" where
  "applyRemoteOperation Q op e =
     (if is_noop op then e
      else
        (let old_anchor_utf8 = utf16_to_utf8_offset Q (last_known_text e) (ed_anchor e);
             old_position_utf8 = utf16_to_utf8_offset Q (last_known_text e) (ed_position e);
             e = e\<lparr>applying_remote := True\<rparr>;
             e = change_text Q (edited_text Q op e) e;
             e = e\<lparr>last_known_text := ed_text e\<rparr>;
             new_anchor_utf8 = translate old_anchor_utf8 op;
             new_position_utf8 = translate old_position_utf8 op;
             utf8_after = toUtf8 Q (last_known_text e);
             new_anchor_utf16 = utf8_to_utf16_offset Q utf8_after new_anchor_utf8;
             new_position_utf16 = utf8_to_utf16_offset Q utf8_after new_position_utf8;
             anchor = setPosition (ed_text e) new_anchor_utf16 0;
             pos = setPosition (ed_text e) new_position_utf16 anchor
         in e\<lparr>ed_anchor := anchor, ed_position := pos, applying_remote := False\<rparr>))"

definition new_anim :: "remote_cursor \<Rightarrow> cursor_anim" where
  "new_anim rc = \<lparr>display_position = of_u32 (rc_position rc),
     display_sel_start = map_option of_u32 (rc_selectionStart rc), display_sel_end = map_option of_u32 (rc_selectionEnd rc)\<rparr>"

text \<open>\<^verbatim>\<open>emplace\<close> keeps an entry that is already there.\<close>

definition keep_anim :: "(u32, cursor_anim) umap \<Rightarrow> remote_cursor \<Rightarrow> (u32, cursor_anim) umap \<Rightarrow> (u32, cursor_anim) umap" where
  "keep_anim old rc nxt =
     (let a = (case um_find old (rc_userId rc) of None \<Rightarrow> new_anim rc | Some a \<Rightarrow> a)
      in if um_find nxt (rc_userId rc) = None then um_set (rc_userId rc) a nxt else nxt)"

definition setRemoteCursors :: "remote_cursor list \<Rightarrow> editor \<Rightarrow> editor" where
  "setRemoteCursors cs e =
     e\<lparr>ed_remote_cursors := cs, cursor_anims := fold (keep_anim (cursor_anims e)) cs [],
       anim_timer := (anim_timer e \<or> cs \<noteq> [])\<rparr>"

definition localCursorUtf8Position :: "qt \<Rightarrow> editor \<Rightarrow> u32" where
  "localCursorUtf8Position Q e = utf16_to_utf8_offset Q (last_known_text e) (ed_position e)"

definition localSelectionUtf8 :: "qt \<Rightarrow> editor \<Rightarrow> (u32 \<times> u32) option" where
  "localSelectionUtf8 Q e =
     (if ed_anchor e = ed_position e then None
      else Some (utf16_to_utf8_offset Q (last_known_text e) (min (ed_anchor e) (ed_position e)),
                 utf16_to_utf8_offset Q (last_known_text e) (max (ed_anchor e) (ed_position e))))"

text \<open>The user changes the text to \<open>new\<close> and leaves the cursor somewhere; Qt reports the change.\<close>

definition user_edit :: "qt \<Rightarrow> qstring \<Rightarrow> int \<Rightarrow> int \<Rightarrow> int \<Rightarrow> int \<Rightarrow> int \<Rightarrow> editor \<Rightarrow> editor \<times> operation list" where
  "user_edit Q new p r a anchor pos e =
     onContentsChange Q p r a (e\<lparr>ed_text := new, ed_anchor := anchor, ed_position := pos\<rparr>)"

section \<open>The widget shows a text\<close>

text \<open>
  A report is right when the texts agree before the position and after the removed and the added
  units, and the cuts do not separate a surrogate pair.
\<close>

definition reports :: "qstring \<Rightarrow> qstring \<Rightarrow> int \<Rightarrow> int \<Rightarrow> int \<Rightarrow> bool" where
  "reports old new p r a =
     (0 \<le> p \<and> 0 \<le> r \<and> 0 \<le> a \<and> nat p \<le> length old \<and> nat p \<le> length new
      \<and> take (nat p) new = take (nat p) old \<and> drop (nat p + nat a) new = drop (nat p + nat r) old
      \<and> utf16 (take (nat p) old) \<and> utf16 (mid old p r) \<and> utf16 (mid new p a)
      \<and> utf16 (drop (nat p + nat r) old))"

definition editor_shows :: "qt \<Rightarrow> editor \<Rightarrow> string \<Rightarrow> bool" where
  "editor_shows Q e s =
     (ed_text e = last_known_text e \<and> utf16 (ed_text e) \<and> toUtf8 Q (ed_text e) = s \<and> \<not> applying_remote e)"

text \<open>Bytes that are the UTF-8 of a text, and one that a text document returns as it is.\<close>

definition utf8 :: "qt \<Rightarrow> string \<Rightarrow> bool" where
  "utf8 Q s = (utf16 (fromUtf8 Q s) \<and> toUtf8 Q (fromUtf8 Q s) = s)"

text \<open>An operation that does not cut a character of the text \<open>s\<close>, or insert half of one.\<close>

definition op_fits :: "qt \<Rightarrow> string \<Rightarrow> operation \<Rightarrow> bool" where
  "op_fits Q s op =
     (let p = unat (position op)
      in if op_type op = Insert
         then utf8 Q (take p s) \<and> utf8 Q (drop p s) \<and> utf8 Q (op_text op)
           \<and> plain Q (fromUtf8 Q (op_text op)) = fromUtf8 Q (op_text op)
         else p + unat (op_length op) < 2 ^ 32
           \<and> utf8 Q (take p s) \<and> utf8 Q (take (unat (op_length op)) (drop p s)) \<and> utf8 Q (drop (p + unat (op_length op)) s))"

lemma edited_text_frame [simp]: "edited_text Q op (e\<lparr>applying_remote := b\<rparr>) = edited_text Q op e"
  by (simp add: edited_text_def Let_def)

lemma take_drop_append: "take l (drop p s) @ drop (p + l) s = drop p s"
  using append_take_drop_id [of l "drop p s"] by (simp add: add.commute)

context qt_text
begin

lemma offset8:
  assumes "utf16 (take (nat p) s)" "utf16 s" "0 \<le> p" "length (toUtf8 Q s) < 2 ^ 32"
  shows "unat (utf16_to_utf8_offset Q s p) = length (toUtf8 Q (take (nat p) s))"
proof -
  have "toUtf8 Q s = toUtf8 Q (take (nat p) s) @ toUtf8 Q (drop (nat p) s)"
    using assms(1,2) toUtf8_append [of "take (nat p) s" "drop (nat p) s"] utf16_append [of "take (nat p) s" "drop (nat p) s"] by simp
  then have "length (toUtf8 Q (take (nat p) s)) \<le> length (toUtf8 Q s)" by simp
  with assms(3,4) show ?thesis
    by (auto simp: utf16_to_utf8_offset_def unat_size32 toUtf8_Nil)
qed

lemma offset16:
  assumes "utf16 a" "utf16 b" "s = toUtf8 Q (a @ b)" "length s < 2 ^ 31" "min (unat p) (length s) = length (toUtf8 Q a)"
  shows "utf8_to_utf16_offset Q s p = int (length a)"
proof -
  have s: "s = toUtf8 Q a @ toUtf8 Q b" "utf16 (a @ b)" using assms(1-3) by (simp_all add: toUtf8_append utf16_append)
  have len: "length a + length b \<le> length s" using length_toUtf8 [OF s(2)] assms(3) by simp
  have sz: "size32 s \<le> p \<longleftrightarrow> length s \<le> unat p" using assms(4) by (simp add: word_le_nat_alt unat_size32)
  consider "p = 0" | "p \<noteq> 0" "length s \<le> unat p" | "p \<noteq> 0" "unat p < length s" by linarith
  then show ?thesis
  proof cases
    case 1
    then have "a = []" using assms(5) toUtf8_empty [OF assms(1)] by simp
    with 1 show ?thesis by (simp add: utf8_to_utf16_offset_def)
  next
    case 2
    then have "b = []" using assms(2,5) s(1) toUtf8_empty [OF assms(2)] by simp
    then show ?thesis using 2 sz s len assms(1,4) fromUtf8_toUtf8 [OF assms(1)]
      by (simp add: utf8_to_utf16_offset_def toUtf8_Nil sint_small unat_size32)
  next
    case 3
    then have "nat (sint p) = length (toUtf8 Q a)" using assms(4,5) by (simp add: sint_small)
    then show ?thesis using 3 sz s len assms(4) fromUtf8_toUtf8 [OF assms(1)]
      by (simp add: utf8_to_utf16_offset_def sint_small unat_size32)
  qed
qed

lemma utf8_pieces:
  assumes "utf8 Q x" "utf8 Q y"
  shows "fromUtf8 Q (x @ y) = fromUtf8 Q x @ fromUtf8 Q y" "utf8 Q (x @ y)"
proof -
  have "x @ y = toUtf8 Q (fromUtf8 Q x @ fromUtf8 Q y)" "utf16 (fromUtf8 Q x @ fromUtf8 Q y)"
    using assms toUtf8_append by (simp_all add: utf8_def utf16_append)
  then show "fromUtf8 Q (x @ y) = fromUtf8 Q x @ fromUtf8 Q y" using fromUtf8_toUtf8 by simp
  then show "utf8 Q (x @ y)" using \<open>x @ y = _\<close> \<open>utf16 _\<close> by (simp add: utf8_def)
qed

lemma shown_text: "editor_shows Q e s \<Longrightarrow> fromUtf8 Q s = ed_text e \<and> utf8 Q s"
  using fromUtf8_toUtf8 by (auto simp: editor_shows_def utf8_def)

lemma change_text_remote:
  "applying_remote e \<Longrightarrow> change_text Q new e = e\<lparr>ed_text := new, last_known_text := new\<rparr>"
  by (simp add: change_text_def onContentsChange_def)

text \<open>Where a byte offset lies in the widget, at a boundary of the text.\<close>

lemma offset16_shown:
  assumes "editor_shows Q e s" "utf8 Q (take (unat p) s)" "utf8 Q (drop (unat p) s)" "length s < 2 ^ 31"
  shows "utf8_to_utf16_offset Q s p = int (length (fromUtf8 Q (take (unat p) s)))"
    and "ed_text e = fromUtf8 Q (take (unat p) s) @ fromUtf8 Q (drop (unat p) s)"
proof -
  show split: "ed_text e = fromUtf8 Q (take (unat p) s) @ fromUtf8 Q (drop (unat p) s)"
    using utf8_pieces(1) [OF assms(2,3)] shown_text [OF assms(1)] by simp
  show "utf8_to_utf16_offset Q s p = int (length (fromUtf8 Q (take (unat p) s)))"
  proof (rule offset16 [OF _ _ _ assms(4)])
    show "s = toUtf8 Q (fromUtf8 Q (take (unat p) s) @ fromUtf8 Q (drop (unat p) s))"
      using assms(1) split by (auto simp: editor_shows_def)
  qed (use assms(2,3) in \<open>auto simp: utf8_def min_def\<close>)
qed

lemma shows_after:
  assumes "utf8 Q s'" "edited_text Q op e = fromUtf8 Q s'" "\<not> is_noop op"
  shows "editor_shows Q (applyRemoteOperation Q op e) s'"
proof -
  have "edited_text Q op (e\<lparr>applying_remote := True\<rparr>) = fromUtf8 Q s'"
    using assms(2) by simp
  with assms(1,3) show ?thesis by (simp add: applyRemoteOperation_def Let_def change_text_remote editor_shows_def utf8_def)
qed

lemma insert_shown:
  assumes "editor_shows Q e s" "op_fits Q s op" "op_type op = Insert" "\<not> is_noop op"
    and "length s < 2 ^ 31" "length (op_text op) < 2 ^ 31"
  shows "editor_shows Q (applyRemoteOperation Q op e) (effect op s)"
proof -
  let ?p = "unat (position op)"
  have fits: "utf8 Q (take ?p s)" "utf8 Q (drop ?p s)" "utf8 Q (op_text op)"
    "plain Q (fromUtf8 Q (op_text op)) = fromUtf8 Q (op_text op)"
    using assms(2,3) by (simp_all add: op_fits_def Let_def)
  note at = offset16_shown [OF assms(1) fits(1,2) assms(5)]
  let ?new = "fromUtf8 Q (take ?p s) @ fromUtf8 Q (op_text op) @ fromUtf8 Q (drop ?p s)"
  have sh: "toUtf8 Q (last_known_text e) = s" using assms(1) by (auto simp: editor_shows_def)
  have eff: "effect op s = take ?p s @ op_text op @ drop ?p s" using assms(3) by (simp add: effect_def splice_in_def)
  have bytes: "fromUtf8 Q (effect op s) = ?new" "utf8 Q (effect op s)"
    using utf8_pieces [OF fits(3,2)] utf8_pieces [OF fits(1), of "op_text op @ drop ?p s"] eff by auto
  show ?thesis
    by (rule shows_after [OF bytes(2) _ assms(4)])
      (use assms(3) in \<open>simp add: edited_text_def Let_def sh at(1)
         setPosition_def at(2) to_qbytes_small [OF assms(6)] fits(4) bytes(1) splice_in_def\<close>)
qed

lemma delete_shown:
  assumes "editor_shows Q e s" "op_fits Q s op" "op_type op = Delete" "\<not> is_noop op" "length s < 2 ^ 31"
  shows "editor_shows Q (applyRemoteOperation Q op e) (effect op s)"
proof -
  let ?p = "unat (position op)" and ?l = "unat (op_length op)"
  have fits: "?p + ?l < 2 ^ 32" "utf8 Q (take ?p s)" "utf8 Q (take ?l (drop ?p s))" "utf8 Q (drop (?p + ?l) s)"
    using assms(2,3) by (simp_all add: op_fits_def Let_def)
  have sum: "unat (position op + op_length op) = ?p + ?l" using fits(1) by (simp add: unat_add_no_wrap)
  let ?a = "fromUtf8 Q (take ?p s)" and ?b = "fromUtf8 Q (take ?l (drop ?p s))" and ?c = "fromUtf8 Q (drop (?p + ?l) s)"
  have cut: "take ?p s @ take ?l (drop ?p s) = take (?p + ?l) s" "take ?l (drop ?p s) @ drop (?p + ?l) s = drop ?p s"
    by (simp_all add: take_add take_drop_append)
  note left = utf8_pieces [OF fits(2,3), unfolded cut(1)] and right = utf8_pieces [OF fits(3,4), unfolded cut(2)]
  note at = offset16_shown [OF assms(1) fits(2) right(2) assms(5)]
  note till = offset16_shown [OF assms(1), of "position op + op_length op", unfolded sum, OF left(2) fits(4) assms(5), unfolded left(1)]
  have sh: "toUtf8 Q (last_known_text e) = s" using assms(1) by (auto simp: editor_shows_def)
  have eff: "effect op s = take ?p s @ drop (?p + ?l) s" using assms(3) by (simp add: effect_def cut_out_def)
  have bytes: "fromUtf8 Q (effect op s) = ?a @ ?c" "utf8 Q (effect op s)"
    using utf8_pieces [OF fits(2,4)] eff by simp_all
  show ?thesis
    by (rule shows_after [OF bytes(2) _ assms(4)])
      (use assms(3) in \<open>simp add: edited_text_def Let_def sh at(1) till(1)
         setPosition_def till(2) bytes(1) cut_out_def min_def\<close>)
qed

lemma applyRemoteOperation_shows:
  assumes "editor_shows Q e s" "op_fits Q s op" "length s < 2 ^ 31" "length (op_text op) < 2 ^ 31"
  shows "editor_shows Q (applyRemoteOperation Q op e) (apply_op s op)"
proof (cases "is_noop op")
  case True
  with assms(1) show ?thesis by (simp add: applyRemoteOperation_def apply_op_def)
next
  case False
  have "apply_op s op = effect op s" using assms(3) by (intro apply_op_effect) simp
  with False assms insert_shown delete_shown show ?thesis by (cases "op_type op") auto
qed

text \<open>What the operations made from a report do to the bytes.\<close>

lemma onContentsChange_shows:
  assumes "editor_shows Q e s" "reports (ed_text e) new p r a" "length s < 2 ^ 32" "length (toUtf8 Q new) < 2 ^ 32"
    and "user_edit Q new p r a anchor pos e = (e', ops)"
  shows "editor_shows Q e' (toUtf8 Q new) \<and> fold (\<lambda>op d. apply_op d op) ops s = toUtf8 Q new"
proof -
  let ?old = "ed_text e"
  define x y z w where "x = take (nat p) ?old" "y = mid ?old p r" "z = mid new p a" "w = drop (nat p + nat r) ?old"
  have old: "?old = x @ y @ w" by (simp add: x_y_z_w_def mid_def take_drop_append)
  have "new = take (nat p) new @ z @ drop (nat p + nat a) new" by (simp add: x_y_z_w_def mid_def take_drop_append)
  then have new: "new = x @ z @ w" using assms(2) by (simp add: x_y_z_w_def reports_def)
  have parts: "utf16 x" "utf16 y" "utf16 z" "utf16 w" using assms(2) by (simp_all add: reports_def x_y_z_w_def)
  then have wf: "utf16 (y @ w)" "utf16 (z @ w)" "utf16 new" by (simp_all add: utf16_append new)
  have s: "s = toUtf8 Q x @ toUtf8 Q y @ toUtf8 Q w" "toUtf8 Q new = toUtf8 Q x @ toUtf8 Q z @ toUtf8 Q w"
    using assms(1) parts wf(1,2) by (auto simp: editor_shows_def old new toUtf8_append)
  have at: "unat (utf16_to_utf8_offset Q (last_known_text e) p) = length (toUtf8 Q x)"
    using offset8 [of p ?old] assms(1,2,3) by (auto simp: editor_shows_def reports_def x_y_z_w_def)
  have ops: "ops = (if 0 < r then [make_delete (utf16_to_utf8_offset Q (last_known_text e) p) (size32 (toUtf8 Q y)) (toUtf8 Q y) (ed_user_id e) (ed_revision e)] else [])
       @ (if 0 < a then [make_insert (utf16_to_utf8_offset Q (last_known_text e) p) (toUtf8 Q z) (ed_user_id e) (ed_revision e)] else [])"
    and e': "e' = e\<lparr>ed_text := new, ed_anchor := anchor, ed_position := pos, last_known_text := new\<rparr>"
    using assms(1,5) by (auto simp: user_edit_def onContentsChange_def Let_def editor_shows_def x_y_z_w_def)
  have none: "r \<le> 0 \<Longrightarrow> toUtf8 Q y = []" "a \<le> 0 \<Longrightarrow> toUtf8 Q z = []"
    by (simp_all add: x_y_z_w_def mid_def toUtf8_Nil)
  have del: "apply_op s (make_delete (utf16_to_utf8_offset Q (last_known_text e) p) (size32 (toUtf8 Q y)) t u v) = toUtf8 Q x @ toUtf8 Q w" for t u v
    using assms(3) at s(1) by (simp add: apply_op_effect effect_def cut_out_def unat_size32)
  have ins: "apply_op (toUtf8 Q x @ toUtf8 Q w) (make_insert (utf16_to_utf8_offset Q (last_known_text e) p) (toUtf8 Q z) u v) = toUtf8 Q new" for u v
    using assms(4) at s(2) by (simp add: apply_op_effect effect_def splice_in_def)
  have "fold (\<lambda>op d. apply_op d op) ops s = toUtf8 Q new"
  proof (cases "0 < r"; cases "0 < a")
  qed (use none s del ins in \<open>auto simp: ops\<close>)
  moreover have "editor_shows Q e' (toUtf8 Q new)" using assms(1) wf(3) by (simp add: e' editor_shows_def)
  ultimately show ?thesis by simp
qed

end

end
