(* ===== verification/Editor_Window.thy ===== *)
theory Editor_Window
  imports Editor_Widget
begin

text \<open>
  The window of an open document, \<^verbatim>\<open>client/src/editor_window.cpp\<close>, with its list of users,
  \<^verbatim>\<open>client/src/user_panel_widget.cpp\<close>, and its status bar, \<^verbatim>\<open>client/src/status_bar_widget.cpp\<close>. It connects the text field, the controller,
  the remote cursors and the network.

  The signals of the controller are handled at once, in the order in which they are emitted.
  What the window sends and shows is a list of effects; a \<open>WSend\<close> hands the serialisation of its
  message to the network. The layout of the window is Qt's, as are the events: a change the user
  makes, a move of the text cursor, a timeout, a message box that has been closed.
\<close>

text \<open>A literal string of the source and a number, in Qt's units.\<close>

definition qlit :: "string \<Rightarrow> qstring" where
  "qlit s = map (\<lambda>c. word_of_nat (of_char c)) s"

definition qnum :: "nat \<Rightarrow> qstring" where
  "qnum n = qlit (decimal n)"

section \<open>The list of users\<close>

record panel_entry =
  pe_username :: qstring
  pe_color :: qstring
  pe_local :: bool

record user_panel =
  panel_users :: "(u32, panel_entry) umap"
  panel_local :: u32

definition UserPanelWidget :: user_panel where
  "UserPanelWidget = \<lparr>panel_users = [], panel_local = 0\<rparr>"

definition valid_or_gray :: "qt \<Rightarrow> qstring \<Rightarrow> qstring" where
  "valid_or_gray Q c = (if colorValid Q c then c else gray)"

definition setLocalUser :: "qt \<Rightarrow> u32 \<Rightarrow> qstring \<Rightarrow> qstring \<Rightarrow> user_panel \<Rightarrow> user_panel" where
  "setLocalUser Q uid username color p =
     p\<lparr>panel_local := uid,
       panel_users := um_set uid \<lparr>pe_username = username, pe_color = valid_or_gray Q color, pe_local = True\<rparr> (panel_users p)\<rparr>"

definition upsertUser :: "qt \<Rightarrow> u32 \<Rightarrow> qstring \<Rightarrow> qstring \<Rightarrow> user_panel \<Rightarrow> user_panel" where
  "upsertUser Q uid username color p =
     (let is_local = (uid = panel_local p)
      in p\<lparr>panel_users := um_set uid
           (case um_find (panel_users p) uid of
              None \<Rightarrow> \<lparr>pe_username = username, pe_color = valid_or_gray Q color, pe_local = is_local\<rparr>
            | Some u \<Rightarrow> \<lparr>pe_username = (if username \<noteq> [] then username else pe_username u),
                         pe_color = (if colorValid Q color then color else pe_color u), pe_local = is_local\<rparr>)
           (panel_users p)\<rparr>)"

definition panelRemoveUser :: "u32 \<Rightarrow> user_panel \<Rightarrow> user_panel" where
  "panelRemoveUser uid p =
     (if uid = panel_local p then p else p\<lparr>panel_users := um_erase uid (panel_users p)\<rparr>)"

definition clearRemoteUsers :: "user_panel \<Rightarrow> user_panel" where
  "clearRemoteUsers p = p\<lparr>panel_users := filter (\<lambda>(uid, _). uid = panel_local p) (panel_users p)\<rparr>"

text \<open>\<^verbatim>\<open>rebuild\<close>: the header and, in the order of the ids, a dot, a label and whether it is bold.\<close>

definition panel_label :: "panel_entry \<Rightarrow> qstring" where
  "panel_label e = (if pe_local e then pe_username e @ [0x20, 0x20, 0xB7, 0x20, 0x20] @ qlit ''you'' else pe_username e)"

definition panel_header :: "user_panel \<Rightarrow> qstring" where
  "panel_header p = qlit ''Online '' @ [0xB7, 0x20] @ qnum (length (panel_users p))"

definition rebuild :: "user_panel \<Rightarrow> qstring \<times> (qstring \<times> qstring \<times> bool) list" where
  "rebuild p = (panel_header p,
     map (\<lambda>(_, e). (pe_color e, panel_label e, pe_local e)) (sort_key fst (panel_users p)))"

section \<open>The status bar\<close>

text \<open>The labels and the colour of the state, \<^verbatim>\<open>stateColor\<close> of \<^verbatim>\<open>client/src/theme.cpp\<close>.\<close>

record status_bar =
  cursor_label :: qstring
  revision_label :: qstring
  state_label :: qstring
  state_color :: qstring
  online_label :: qstring

definition stateColor :: "qstring \<Rightarrow> qstring" where
  "stateColor state =
     (if state = qlit ''SYN'' then qlit ''#2e7d32''
      else if state = qlit ''ACK'' then qlit ''#c07a1a''
      else if state = qlit ''BUF'' then qlit ''#b8622f''
      else qlit ''#6a737d'')"

definition setCursorPosition :: "nat \<Rightarrow> nat \<Rightarrow> status_bar \<Rightarrow> status_bar" where
  "setCursorPosition line column b = b\<lparr>cursor_label := qnum line @ qlit '':'' @ qnum column\<rparr>"

definition setStatusRevision :: "u32 \<Rightarrow> status_bar \<Rightarrow> status_bar" where
  "setStatusRevision rv b = b\<lparr>revision_label := qlit ''rev '' @ qnum (unat rv)\<rparr>"

definition setStateLabel :: "qstring \<Rightarrow> status_bar \<Rightarrow> status_bar" where
  "setStateLabel label b = b\<lparr>state_label := label, state_color := stateColor label\<rparr>"

definition setOnlineCount :: "nat \<Rightarrow> status_bar \<Rightarrow> status_bar" where
  "setOnlineCount n b = b\<lparr>online_label := qlit ''online: '' @ qnum n\<rparr>"

definition StatusBarWidget :: status_bar where
  "StatusBarWidget = setStateLabel (qlit ''SYN'')
     \<lparr>cursor_label = qlit ''1:1'', revision_label = qlit ''rev 0'', state_label = qlit ''SYN'', state_color = [],
      online_label = qlit ''online: 0''\<rparr>"

section \<open>The window\<close>

record editor_window =
  ew_user_id :: u32
  ew_doc_id :: u32
  base_title :: qstring
  ew_title :: qstring
  ew_role :: qstring
  closing :: bool
  ew_cursors :: remote_cursors_model
  ew_ctl :: ot_controller
  ew_editor :: editor
  ew_status :: status_bar
  ew_panel :: user_panel
  timer_active :: bool
  online_user_ids :: "u32 list"
  cursor_dirty :: bool

datatype win_effect =
  WSend message
  | MessageBox qstring qstring
  | ShowMessage qstring
  | LeftDocument

type_synonym win_action = "editor_window \<Rightarrow> editor_window \<times> win_effect list"

text \<open>One thing after the other.\<close>

definition andalso :: "win_action \<Rightarrow> win_action \<Rightarrow> win_action" where
  "andalso f g w = (let (w, out1) = f w; (w, out2) = g w in (w, out1 @ out2))"

definition quietly :: "(editor_window \<Rightarrow> editor_window) \<Rightarrow> win_action" where
  "quietly f w = (f w, [])"

definition with_editor :: "(editor \<Rightarrow> editor) \<Rightarrow> editor_window \<Rightarrow> editor_window" where
  "with_editor f w = w\<lparr>ew_editor := f (ew_editor w)\<rparr>"

definition with_panel :: "(user_panel \<Rightarrow> user_panel) \<Rightarrow> editor_window \<Rightarrow> editor_window" where
  "with_panel f w = w\<lparr>ew_panel := f (ew_panel w)\<rparr>"

text \<open>\<^verbatim>\<open>std::set::insert\<close> and \<^verbatim>\<open>erase\<close>.\<close>

definition set_online :: "u32 list \<Rightarrow> editor_window \<Rightarrow> editor_window" where
  "set_online ids w = w\<lparr>online_user_ids := ids, ew_status := setOnlineCount (length ids) (ew_status w)\<rparr>"

definition applyRole :: "qt \<Rightarrow> qstring \<Rightarrow> editor_window \<Rightarrow> editor_window" where
  "applyRole Q role w =
     (let ro = (role \<noteq> qlit ''owner'' \<and> role \<noteq> qlit ''editor'')
      in (with_editor (\<lambda>e. e\<lparr>read_only := ro\<rparr>) w)\<lparr>ew_title := (if ro then base_title w @ qlit '' [read-only]'' else base_title w)\<rparr>)"

definition scheduleCursorBroadcast :: "editor_window \<Rightarrow> editor_window" where
  "scheduleCursorBroadcast w = w\<lparr>cursor_dirty := True, timer_active := True\<rparr>"

text \<open>The block and the column of the text cursor are Qt's.\<close>

definition onCursorPositionChanged :: "nat \<Rightarrow> nat \<Rightarrow> editor_window \<Rightarrow> editor_window" where
  "onCursorPositionChanged block column w =
     scheduleCursorBroadcast (w\<lparr>ew_status := setCursorPosition (block + 1) (column + 1) (ew_status w)\<rparr>)"

definition onLocalSelectionChanged :: "editor_window \<Rightarrow> editor_window" where
  "onLocalSelectionChanged w = scheduleCursorBroadcast w"

text \<open>The timer is a single shot: it is no longer active when the slot runs.\<close>

definition onCursorBroadcastTimeout :: "qt \<Rightarrow> win_action" where
  "onCursorBroadcastTimeout Q w =
     (let w = w\<lparr>timer_active := False\<rparr>
      in if \<not> cursor_dirty w then (w, [])
         else
           (let w = w\<lparr>cursor_dirty := False\<rparr>;
                pos = localCursorUtf8Position Q (ew_editor w);
                sel = localSelectionUtf8 Q (ew_editor w)
            in (w, [WSend (CursorUpdateMsg \<lparr>cu_docId = ew_doc_id w, cu_position = pos,
                      cu_selectionStart = map_option fst sel, cu_selectionEnd = map_option snd sel\<rparr>)])))"

definition closeEvent :: win_action where
  "closeEvent w =
     (w, (if \<not> closing w then [WSend (DocLeaveRequestMsg \<lparr>dlreq_docId = ew_doc_id w\<rparr>)] else []) @ [LeftDocument])"

definition closeWithNotice :: "qstring \<Rightarrow> qstring \<Rightarrow> win_action" where
  "closeWithNotice ttl body w =
     (if closing w then (w, [])
      else andalso (\<lambda>w. (w, [MessageBox ttl body])) closeEvent (w\<lparr>closing := True\<rparr>))"

definition onRemoteCursorsChanged :: "qt \<Rightarrow> editor_window \<Rightarrow> editor_window" where
  "onRemoteCursorsChanged Q w =
     (let cs = cursors (ew_cursors w)
      in with_panel (fold (\<lambda>c. upsertUser Q (rc_userId c) (rc_username c) (rc_color c)) cs)
           (with_editor (setRemoteCursors cs) w))"

text \<open>A change of the remote cursors, followed by \<^verbatim>\<open>cursorsChanged\<close> when it is emitted.\<close>

definition change_cursors :: "qt \<Rightarrow> (remote_cursors_model \<Rightarrow> remote_cursors_model \<times> bool) \<Rightarrow> editor_window \<Rightarrow> editor_window" where
  "change_cursors Q f w =
     (let (m, changed) = f (ew_cursors w); w = w\<lparr>ew_cursors := m\<rparr>
      in if changed then onRemoteCursorsChanged Q w else w)"

definition onRemoteOperationApplied :: "qt \<Rightarrow> operation \<Rightarrow> editor_window \<Rightarrow> editor_window" where
  "onRemoteOperationApplied Q op w =
     change_cursors Q (cursorsApplyRemote op) (with_editor (applyRemoteOperation Q op) w)"

definition onRevisionChanged :: "u32 \<Rightarrow> editor_window \<Rightarrow> editor_window" where
  "onRevisionChanged rv w =
     (with_editor (setRevision rv) w)\<lparr>ew_status := setStatusRevision rv (ew_status w)\<rparr>"

definition onFatalError :: "qt \<Rightarrow> string \<Rightarrow> win_action" where
  "onFatalError Q msg = andalso (\<lambda>w. (w, [MessageBox (qlit ''Document error'') (fromUtf8 Q msg)])) closeEvent"

text \<open>The signals of the controller.\<close>

definition controller_signal :: "qt \<Rightarrow> ctl_effect \<Rightarrow> win_action" where
  "controller_signal Q eff w =
     (case eff of
        Send m \<Rightarrow> (w, [WSend m])
      | RevisionChanged rv \<Rightarrow> quietly (onRevisionChanged rv) w
      | RemoteOperationApplied op \<Rightarrow> quietly (onRemoteOperationApplied Q op) w
      | StateChanged label \<Rightarrow> quietly (\<lambda>w. w\<lparr>ew_status := setStateLabel (qlit label) (ew_status w)\<rparr>) w
      | FatalError msg \<Rightarrow> onFatalError Q msg w)"

fun controller_signals :: "qt \<Rightarrow> ctl_effect list \<Rightarrow> win_action" where
  "controller_signals Q [] w = (w, [])"
| "controller_signals Q (eff # effs) w = andalso (controller_signal Q eff) (controller_signals Q effs) w"

definition handleUserJoined :: "qt \<Rightarrow> user_joined_msg \<Rightarrow> win_action" where
  "handleUserJoined Q msg w =
     (if uj_docId msg \<noteq> ew_doc_id w then (w, [])
      else (with_panel (upsertUser Q (uj_userId msg) (fromUtf8 Q (uj_username msg)) (parseColor Q (uj_color msg)))
              (set_online (List.insert (uj_userId msg) (online_user_ids w)) w),
            [ShowMessage (fromUtf8 Q (uj_username msg) @ qlit '' joined'')]))"

definition handleUserLeft :: "qt \<Rightarrow> user_left_msg \<Rightarrow> win_action" where
  "handleUserLeft Q msg w =
     (if ul_docId msg \<noteq> ew_doc_id w then (w, [])
      else (change_cursors Q (removeUser (ul_userId msg))
              (with_panel (panelRemoveUser (ul_userId msg))
                (set_online (removeAll (ul_userId msg) (online_user_ids w)) w)),
            [ShowMessage (fromUtf8 Q (ul_username msg) @ qlit '' left'')]))"

definition handleCursorBroadcast :: "qt \<Rightarrow> cursor_broadcast_msg \<Rightarrow> win_action" where
  "handleCursorBroadcast Q msg w =
     (if cb_docId msg \<noteq> ew_doc_id w then (w, []) else (change_cursors Q (applyBroadcast Q msg) w, []))"

definition handleServerShutdown :: "qt \<Rightarrow> server_shutdown_msg option \<Rightarrow> win_action" where
  "handleServerShutdown Q msg =
     closeWithNotice (qlit ''Server shutdown'')
       (case msg of Some m \<Rightarrow> fromUtf8 Q (ss_message m) | None \<Rightarrow> qlit ''Server is shutting down'')"

definition handleDocDeleted :: "doc_deleted_msg \<Rightarrow> win_action" where
  "handleDocDeleted msg w =
     (if dd_docId msg \<noteq> ew_doc_id w then (w, [])
      else closeWithNotice (qlit ''Document deleted'') (qlit ''This document was deleted by the owner.'') w)"

definition handleRoleChanged :: "qt \<Rightarrow> role_changed_msg \<Rightarrow> win_action" where
  "handleRoleChanged Q msg w =
     (if rc_docId msg \<noteq> ew_doc_id w then (w, [])
      else
        (let role = fromUtf8 Q (rc_newRole msg)
         in (applyRole Q role (w\<lparr>ew_role := role\<rparr>), [ShowMessage (qlit ''Your role is now: '' @ role)])))"

text \<open>The handlers that give up on a message that cannot be parsed.\<close>

definition if_parsed :: "'m option \<Rightarrow> ('m \<Rightarrow> win_action) \<Rightarrow> win_action" where
  "if_parsed m f w = (case m of None \<Rightarrow> (w, []) | Some msg \<Rightarrow> f msg w)"

definition window_message :: "'j json_api \<Rightarrow> qt \<Rightarrow> string \<Rightarrow> win_action" where
  "window_message J Q payload =
     (case fst (parse_envelope J payload) of
        UserJoined \<Rightarrow> if_parsed (parse_user_joined J payload) (handleUserJoined Q)
      | UserLeft \<Rightarrow> if_parsed (parse_user_left J payload) (handleUserLeft Q)
      | CursorBroadcast \<Rightarrow> if_parsed (parse_cursor_broadcast J payload) (handleCursorBroadcast Q)
      | ServerShutdown \<Rightarrow> handleServerShutdown Q (parse_server_shutdown J payload)
      | DocDeleted \<Rightarrow> if_parsed (parse_doc_deleted J payload) handleDocDeleted
      | RoleChanged \<Rightarrow> if_parsed (parse_role_changed J payload) (handleRoleChanged Q)
      | _ \<Rightarrow> (\<lambda>w. (w, [])))"

text \<open>\<open>None\<close> when the controller reads an empty optional or buffer.\<close>

definition windowOnNetworkMessage :: "'j json_api \<Rightarrow> qt \<Rightarrow> string \<Rightarrow> editor_window \<Rightarrow> (editor_window \<times> win_effect list) option" where
  "windowOnNetworkMessage J Q payload w =
     (case onNetworkMessage J (ew_user_id w) (ew_ctl w) payload of
        None \<Rightarrow> None
      | Some (c, effs) \<Rightarrow> Some (andalso (controller_signals Q effs) (window_message J Q payload) (w\<lparr>ew_ctl := c\<rparr>)))"

text \<open>A change made by the user, \<^verbatim>\<open>localOperationsGenerated\<close> and the slot of the controller.\<close>

definition window_edit :: "qt \<Rightarrow> qstring \<Rightarrow> int \<Rightarrow> int \<Rightarrow> int \<Rightarrow> int \<Rightarrow> int \<Rightarrow> win_action" where
  "window_edit Q new p r a anchor pos w =
     (if read_only (ew_editor w) then (w, [])
      else
        (let (e, ops) = user_edit Q new p r a anchor pos (ew_editor w);
             w = w\<lparr>ew_editor := e\<rparr>
         in if ops = [] then (w, [])
            else
              (let (c, effs) = onLocalOperations (ew_user_id w) (ew_ctl w) ops
               in controller_signals Q effs (w\<lparr>ew_ctl := c\<rparr>))))"

text \<open>The trimmed answer of the dialog, \<open>None\<close> when it was cancelled.\<close>

definition editorOnShareClicked :: "qt \<Rightarrow> qstring option \<Rightarrow> win_action" where
  "editorOnShareClicked Q answer w =
     (case answer of
        None \<Rightarrow> (w, [])
      | Some target \<Rightarrow>
          if target = [] then (w, [])
          else (w, [WSend (DocShareRequestMsg \<lparr>dsreq_docId = ew_doc_id w, dsreq_targetUsername = toUtf8 Q target,
                      dsreq_role = toUtf8 Q (qlit ''editor'')\<rparr>),
                    ShowMessage (qlit ''Shared with '' @ target)]))"

definition editorOnDisconnected :: "qstring \<Rightarrow> win_action" where
  "editorOnDisconnected reason w =
     (if closing w then (w, [])
      else closeWithNotice (qlit ''Connection lost'') (qlit ''Lost connection to server: '' @ reason) w)"

section \<open>Opening a document\<close>

text \<open>The first entry of the local user in the list, and the entries of the others.\<close>

definition setup_panel :: "qt \<Rightarrow> u32 \<Rightarrow> qstring \<Rightarrow> user_info list \<Rightarrow> user_panel" where
  "setup_panel Q uid username us =
     (let (local_username, local_color) =
            (case find (\<lambda>u. ui_userId u = uid) us of
               Some u \<Rightarrow> (fromUtf8 Q (ui_username u), parseColor Q (ui_color u))
             | None \<Rightarrow> (username, gray))
      in fold (\<lambda>u. upsertUser Q (ui_userId u) (fromUtf8 Q (ui_username u)) (parseColor Q (ui_color u)))
           (filter (\<lambda>u. ui_userId u \<noteq> uid) us)
           (setLocalUser Q uid local_username local_color UserPanelWidget))"

text \<open>The title has an em dash between the number and the name of the document.\<close>

definition window_title :: "qt \<Rightarrow> doc_join_response_msg \<Rightarrow> qstring" where
  "window_title Q initial =
     qlit ''#'' @ qnum (unat (djres_docId initial)) @ [0x20, 0x2014, 0x20] @ fromUtf8 Q (djres_title initial)"

definition EditorWindow :: "qt \<Rightarrow> u32 \<Rightarrow> qstring \<Rightarrow> doc_join_response_msg \<Rightarrow> editor_window" where
  "EditorWindow Q uid username initial =
     (let ids = fold (\<lambda>u. List.insert (ui_userId u)) (djres_users initial) [uid];
          role = fromUtf8 Q (djres_role initial);
          w = \<lparr>ew_user_id = uid, ew_doc_id = djres_docId initial, base_title = window_title Q initial,
               ew_title = window_title Q initial, ew_role = role, closing = False,
               ew_cursors = RemoteCursorsModel uid,
               ew_ctl = OTController (LocalDocument (djres_content initial) (djres_revision initial))
                          (djres_docId initial) (djres_revision initial),
               ew_editor = resetContent Q (fromUtf8 Q (to_qbytes (djres_content initial)))
                             (setEditorIdentity uid (djres_revision initial) EditorWidget),
               ew_status = setStateLabel (qlit ''SYN'') (setOnlineCount (length ids)
                 (setStatusRevision (djres_revision initial) StatusBarWidget)),
               ew_panel = setup_panel Q uid username (djres_users initial),
               timer_active = False, online_user_ids = ids, cursor_dirty = False\<rparr>
      in scheduleCursorBroadcast (onCursorPositionChanged 0 0 (applyRole Q role w)))"

end
