(* ===== verification/Client_Documents.thy ===== *)
theory Client_Documents
  imports Editor_Window
begin

text \<open>
  The windows before an editor: the dialog that signs in, \<^verbatim>\<open>client/src/connection_dialog.cpp\<close>,
  the list of documents, \<^verbatim>\<open>client/src/document_list_window.cpp\<close>, and the part of
  \<^verbatim>\<open>client/src/main.cpp\<close> that leads from one to the next.

  What a window asks of the network and shows is a list of effects. The widgets and their layout are
  Qt's, as are \<^verbatim>\<open>QString::trimmed\<close> and \<^verbatim>\<open>QString::toUInt\<close>, the parameter \<open>I\<close>; the texts of the fields
  and the answers of dialogs are inputs. A text shown to the user is named by what it says.
\<close>

section \<open>Signing in\<close>

record qt_input =
  trimmed :: "qstring \<Rightarrow> qstring"
  toUInt :: "qstring \<Rightarrow> u32"

datatype status_text =
  NoText
  | ConnectingTo qstring u16
  | Authenticating
  | Text qstring

datatype dialog_effect =
  RequestConnect qstring u16
  | RequestDisconnect
  | DialogSend message
  | SetIdentity u32 qstring
  | Warn qstring qstring

record settings =
  lastHost :: qstring
  lastPort :: qstring
  lastUser :: qstring

record connection_dialog =
  host_edit :: qstring
  port_edit :: qstring
  username_edit :: qstring
  password_edit :: qstring
  pending_action :: qstring
  inputs_enabled :: bool
  status_label :: status_text
  accepted :: bool
  stored :: settings

definition loadSettings :: "connection_dialog \<Rightarrow> connection_dialog" where
  "loadSettings d = d\<lparr>host_edit := lastHost (stored d), port_edit := lastPort (stored d), username_edit := lastUser (stored d)\<rparr>"

text \<open>The stored settings, with the defaults where nothing is stored, are given.\<close>

definition ConnectionDialog :: "settings \<Rightarrow> connection_dialog" where
  "ConnectionDialog s = loadSettings
     \<lparr>host_edit = [], port_edit = [], username_edit = [], password_edit = [], pending_action = [],
      inputs_enabled = True, status_label = NoText, accepted = False, stored = s\<rparr>"

definition default_settings :: settings where
  "default_settings = \<lparr>lastHost = qlit ''127.0.0.1'', lastPort = qlit ''9000'', lastUser = []\<rparr>"

definition host :: "qt_input \<Rightarrow> connection_dialog \<Rightarrow> qstring" where
  "host I d = trimmed I (host_edit d)"

text \<open>A \<^verbatim>\<open>static_cast\<close> to 16 bits.\<close>

definition port :: "qt_input \<Rightarrow> connection_dialog \<Rightarrow> u16" where
  "port I d = ucast (toUInt I (port_edit d))"

definition username :: "qt_input \<Rightarrow> connection_dialog \<Rightarrow> qstring" where
  "username I d = trimmed I (username_edit d)"

definition persistSettings :: "qt_input \<Rightarrow> connection_dialog \<Rightarrow> connection_dialog" where
  "persistSettings I d = d\<lparr>stored := \<lparr>lastHost = host I d, lastPort = qlit (decimal (unat (port I d))), lastUser = username I d\<rparr>\<rparr>"

definition setInputsEnabled :: "bool \<Rightarrow> connection_dialog \<Rightarrow> connection_dialog" where
  "setInputsEnabled b d = d\<lparr>inputs_enabled := b\<rparr>"

definition reportFailure :: "qstring \<Rightarrow> connection_dialog \<Rightarrow> connection_dialog \<times> dialog_effect list" where
  "reportFailure msg d =
     (setInputsEnabled True (d\<lparr>pending_action := [], status_label := Text msg\<rparr>),
      [Warn (qlit ''Connection failed'') msg, RequestDisconnect])"

definition startAuth :: "qt_input \<Rightarrow> qstring \<Rightarrow> connection_dialog \<Rightarrow> connection_dialog \<times> dialog_effect list" where
  "startAuth I action d =
     (if host I d = [] \<or> port I d = 0 \<or> username I d = []
      then reportFailure (qlit ''Host, port, and username are required.'') d
      else
        (let d = setInputsEnabled False (d\<lparr>pending_action := action\<rparr>);
             d = d\<lparr>status_label := ConnectingTo (host I d) (port I d)\<rparr>
         in (d, [RequestConnect (host I d) (port I d)])))"

definition onLoginClicked :: "qt_input \<Rightarrow> connection_dialog \<Rightarrow> connection_dialog \<times> dialog_effect list" where
  "onLoginClicked I = startAuth I (qlit ''login'')"

definition onRegisterClicked :: "qt_input \<Rightarrow> connection_dialog \<Rightarrow> connection_dialog \<times> dialog_effect list" where
  "onRegisterClicked I = startAuth I (qlit ''register'')"

definition onConnected :: "qt \<Rightarrow> qt_input \<Rightarrow> connection_dialog \<Rightarrow> connection_dialog \<times> dialog_effect list" where
  "onConnected Q I d =
     (if pending_action d = [] then (d, [])
      else (d\<lparr>status_label := Authenticating\<rparr>,
            [DialogSend (AuthRequestMsg \<lparr>areq_action = toUtf8 Q (pending_action d),
               areq_username = toUtf8 Q (username I d), areq_password = toUtf8 Q (password_edit d)\<rparr>)]))"

definition onDisconnected :: "qstring \<Rightarrow> connection_dialog \<Rightarrow> connection_dialog \<times> dialog_effect list" where
  "onDisconnected reason d =
     (if pending_action d = [] then (d, []) else reportFailure (qlit ''Disconnected: '' @ reason) d)"

definition onErrorOccurred :: "qstring \<Rightarrow> connection_dialog \<Rightarrow> connection_dialog \<times> dialog_effect list" where
  "onErrorOccurred msg d = (if pending_action d = [] then (d, []) else reportFailure msg d)"

definition humanAuthError :: "qstring \<Rightarrow> qstring" where
  "humanAuthError code =
     (if code = qlit ''invalid_credentials'' then qlit ''Invalid username or password.''
      else if code = qlit ''username_taken'' then qlit ''Username is already taken.''
      else qlit ''Auth error: '' @ code)"

definition dialogOnMessage ::
  "'j json_api \<Rightarrow> qt \<Rightarrow> qt_input \<Rightarrow> string \<Rightarrow> connection_dialog \<Rightarrow> connection_dialog \<times> dialog_effect list" where
  "dialogOnMessage J Q I payload d =
     (if pending_action d = [] then (d, [])
      else if fst (parse_envelope J payload) \<noteq> AuthResponse then (d, [])
      else
        (case parse_auth_response J payload of
           None \<Rightarrow> reportFailure (qlit ''Malformed auth_response'') d
         | Some auth \<Rightarrow>
             if \<not> ares_success auth then reportFailure (humanAuthError (fromUtf8 Q (ares_error auth))) d
             else ((persistSettings I d)\<lparr>pending_action := [], accepted := True\<rparr>,
                   [SetIdentity (ares_userId auth) (username I d)])))"

section \<open>The list of documents\<close>

datatype list_effect =
  ListSend message
  | ListBox qstring qstring
  | DocumentJoined doc_join_response_msg
  | CloseList

datatype list_status =
  Loading
  | Refreshing
  | Creating qstring
  | Opening u32
  | Shared u32 qstring
  | ErrorText qstring
  | NoDocuments
  | Documents nat

text \<open>An item with its card: title, number, and two badges of which one has the colour of the role.\<close>

record doc_card =
  card_docId :: u32
  card_title :: qstring
  card_id_label :: qstring
  card_role :: qstring
  card_role_color :: qstring
  card_online :: qstring

definition roleColor :: "qstring \<Rightarrow> qstring" where
  "roleColor role =
     (if role = qlit ''owner'' then qlit ''#8e44ad''
      else if role = qlit ''editor'' then qlit ''#2d6cdf''
      else if role = qlit ''viewer'' then qlit ''#8a8f98''
      else qlit ''#8a8f98'')"

definition makeDocCard :: "qt \<Rightarrow> doc_list_entry \<Rightarrow> doc_card" where
  "makeDocCard Q e =
     (let role = fromUtf8 Q (dle_role e)
      in \<lparr>card_docId = dle_docId e, card_title = fromUtf8 Q (dle_title e),
          card_id_label = qlit ''#'' @ qnum (unat (dle_docId e)), card_role = role, card_role_color = roleColor role,
          card_online = qlit ''online '' @ qnum (unat (dle_onlineCount e))\<rparr>)"

record document_list =
  doc_items :: "doc_card list"
  current_item :: "nat option"
  list_status :: list_status
  pending_join_doc_id :: u32

type_synonym list_action = "document_list \<Rightarrow> document_list \<times> list_effect list"

definition list_andalso :: "list_action \<Rightarrow> list_action \<Rightarrow> list_action" where
  "list_andalso f g w = (let (w, out1) = f w; (w, out2) = g w in (w, out1 @ out2))"

definition selectedDocId :: "document_list \<Rightarrow> u32 option" where
  "selectedDocId w =
     (case current_item w of
        None \<Rightarrow> None
      | Some i \<Rightarrow> if i < length (doc_items w) then Some (card_docId (doc_items w ! i)) else None)"

definition listOnDisconnected :: "qstring \<Rightarrow> list_action" where
  "listOnDisconnected reason w =
     (w, [ListBox (qlit ''Connection lost'') (qlit ''Lost connection to server: '' @ reason), CloseList])"

definition refresh :: list_action where
  "refresh w = (w\<lparr>list_status := Refreshing\<rparr>, [ListSend DocListRequestMsg])"

definition DocumentListWindow :: "document_list \<times> list_effect list" where
  "DocumentListWindow =
     refresh \<lparr>doc_items = [], current_item = None, list_status = Loading, pending_join_doc_id = 0\<rparr>"

text \<open>The trimmed text when the dialog was confirmed, and otherwise the empty one.\<close>

definition promptForText :: "qt_input \<Rightarrow> qstring \<Rightarrow> bool \<Rightarrow> qstring" where
  "promptForText I answer ok = (if ok then trimmed I answer else [])"

definition onNewClicked :: "qt \<Rightarrow> qstring \<Rightarrow> list_action" where
  "onNewClicked Q ttl w =
     (if ttl = [] then (w, [])
      else (w\<lparr>list_status := Creating ttl\<rparr>, [ListSend (DocCreateRequestMsg \<lparr>dcreq_title = toUtf8 Q ttl\<rparr>)]))"

definition requestJoin :: "u32 \<Rightarrow> list_action" where
  "requestJoin docId w =
     (if pending_join_doc_id w \<noteq> 0 then (w, [])
      else (w\<lparr>pending_join_doc_id := docId, list_status := Opening docId\<rparr>,
            [ListSend (DocJoinRequestMsg \<lparr>djreq_docId = docId\<rparr>)]))"

definition onOpenClicked :: list_action where
  "onOpenClicked w = (case selectedDocId w of Some docId \<Rightarrow> requestJoin docId w | None \<Rightarrow> (w, []))"

text \<open>\<open>yes\<close> is the answer to the question whether to delete.\<close>

definition onDeleteClicked :: "bool \<Rightarrow> list_action" where
  "onDeleteClicked yes w =
     (case selectedDocId w of
        None \<Rightarrow> (w, [])
      | Some docId \<Rightarrow> if \<not> yes then (w, []) else (w, [ListSend (DocDeleteRequestMsg \<lparr>ddreq_docId = docId\<rparr>)]))"

definition listOnShareClicked :: "qt \<Rightarrow> qstring \<Rightarrow> list_action" where
  "listOnShareClicked Q target w =
     (case selectedDocId w of
        None \<Rightarrow> (w, [ListBox (qlit ''Share'') (qlit ''Select a document first.'')])
      | Some docId \<Rightarrow>
          if target = [] then (w, [])
          else (w\<lparr>list_status := Shared docId target\<rparr>,
                [ListSend (DocShareRequestMsg \<lparr>dsreq_docId = docId, dsreq_targetUsername = toUtf8 Q target,
                   dsreq_role = toUtf8 Q (qlit ''editor'')\<rparr>)]))"

text \<open>A new list of items; no item is current then.\<close>

definition applyDocList :: "qt \<Rightarrow> doc_list_response_msg \<Rightarrow> document_list \<Rightarrow> document_list" where
  "applyDocList Q msg w =
     w\<lparr>doc_items := map (makeDocCard Q) (dlres_documents msg), current_item := None,
       list_status := (if dlres_documents msg = [] then NoDocuments else Documents (length (dlres_documents msg)))\<rparr>"

definition handleDocListResponse :: "qt \<Rightarrow> doc_list_response_msg option \<Rightarrow> list_action" where
  "handleDocListResponse Q msg w = (case msg of Some m \<Rightarrow> (applyDocList Q m w, []) | None \<Rightarrow> (w, []))"

definition handleDocCreateResponse :: "doc_create_response_msg option \<Rightarrow> list_action" where
  "handleDocCreateResponse msg w =
     (case msg of
        None \<Rightarrow> (w, [])
      | Some m \<Rightarrow>
          if \<not> dcres_success m then
            list_andalso (\<lambda>w. (w, [ListBox (qlit ''Create failed'') (qlit ''Could not create the document.'')])) refresh w
          else list_andalso refresh (requestJoin (dcres_docId m)) w)"

definition handleDocJoinResponse :: "qt \<Rightarrow> doc_join_response_msg option \<Rightarrow> list_action" where
  "handleDocJoinResponse Q msg w =
     (case msg of
        None \<Rightarrow> (w, [])
      | Some m \<Rightarrow>
          if pending_join_doc_id w \<noteq> 0 \<and> djres_docId m \<noteq> pending_join_doc_id w then (w, [])
          else
            (let w = w\<lparr>pending_join_doc_id := 0\<rparr>
             in if \<not> djres_success m
                then (w, [ListBox (qlit ''Join failed'')
                       (qlit ''Could not open document ('' @ fromUtf8 Q (djres_error m) @ qlit '').'')])
                else (w, [DocumentJoined m])))"

definition handleErrorMessage :: "qt \<Rightarrow> error_msg option \<Rightarrow> list_action" where
  "handleErrorMessage Q err w =
     ((case err of Some m \<Rightarrow> w\<lparr>list_status := ErrorText (fromUtf8 Q (em_message m))\<rparr> | None \<Rightarrow> w)
        \<lparr>pending_join_doc_id := 0\<rparr>, [])"

definition onMessageReceived :: "'j json_api \<Rightarrow> qt \<Rightarrow> string \<Rightarrow> list_action" where
  "onMessageReceived J Q payload =
     (let t = fst (parse_envelope J payload)
      in if t = DocListResponse then handleDocListResponse Q (parse_doc_list_response J payload)
         else if t = DocCreateResponse then handleDocCreateResponse (parse_doc_create_response J payload)
         else if t = DocJoinResponse then handleDocJoinResponse Q (parse_doc_join_response J payload)
         else if t = Error then handleErrorMessage Q (parse_error J payload)
         else if t \<in> {DocDeleteResponse, DocShareResponse, RoleChanged, DocDeleted, UserJoined, UserLeft} then refresh
         else (\<lambda>w. (w, [])))"

section \<open>From the list to an editor and back\<close>

text \<open>The client after signing in: the list, hidden while an editor is shown, and the editors.\<close>

record client_app =
  app_list :: document_list
  app_list_shown :: bool
  app_editors :: "editor_window list"

definition openEditor :: "qt \<Rightarrow> u32 \<Rightarrow> qstring \<Rightarrow> doc_join_response_msg \<Rightarrow> client_app \<Rightarrow> client_app" where
  "openEditor Q uid uname resp a =
     a\<lparr>app_list_shown := False, app_editors := app_editors a @ [EditorWindow Q uid uname resp]\<rparr>"

definition on_left_document :: "client_app \<Rightarrow> client_app \<times> list_effect list" where
  "on_left_document a =
     (let a = a\<lparr>app_list_shown := True\<rparr>; (w, out) = refresh (app_list a) in (a\<lparr>app_list := w\<rparr>, out))"

end
