(* ===== verification/Client_Documents_Props.thy ===== *)
theory Client_Documents_Props
  imports Client_Documents Server_Handler_Props
begin

text \<open>What the dialog and the list keep to, and where the list does not get on with the server.\<close>

section \<open>The dialog\<close>

text \<open>
  While an attempt is under way the fields are locked, and they are open again after every failure;
  only a successful answer closes the dialog.
\<close>

definition dialog_inv :: "connection_dialog \<Rightarrow> bool" where
  "dialog_inv d = (if pending_action d \<noteq> [] then \<not> inputs_enabled d \<and> \<not> accepted d else inputs_enabled d \<or> accepted d)"

lemma dialog_inv_init: "dialog_inv (ConnectionDialog s)"
  by (simp add: dialog_inv_def ConnectionDialog_def loadSettings_def)

lemma reportFailure_inv: "dialog_inv (fst (reportFailure msg d))"
  by (simp add: dialog_inv_def reportFailure_def setInputsEnabled_def)

lemma startAuth_inv: "action \<noteq> [] \<Longrightarrow> \<not> accepted d \<Longrightarrow> dialog_inv (fst (startAuth I action d))"
  by (simp add: startAuth_def reportFailure_inv) (simp add: dialog_inv_def Let_def setInputsEnabled_def)

lemma dialog_slots_inv:
  assumes "dialog_inv d"
  shows "dialog_inv (fst (onConnected Q I d))" "dialog_inv (fst (onDisconnected reason d))"
    "dialog_inv (fst (onErrorOccurred msg d))" "dialog_inv (fst (dialogOnMessage J Q I payload d))"
  using assms reportFailure_inv
  by (auto simp: onConnected_def onDisconnected_def onErrorOccurred_def dialogOnMessage_def split: option.splits)
    (auto simp: dialog_inv_def persistSettings_def)

text \<open>The client takes an identity only from an answer that reports success, while it waits for one.\<close>

lemma identity_needs_success:
  assumes "SetIdentity uid uname \<in> set (snd (dialogOnMessage J Q I payload d))"
  shows "pending_action d \<noteq> [] \<and> (\<exists>auth. parse_auth_response J payload = Some auth
    \<and> ares_success auth \<and> uid = ares_userId auth) \<and> uname = username I d"
  using assms by (auto simp: dialogOnMessage_def reportFailure_def split: if_splits option.splits)

section \<open>The list\<close>

text \<open>The server's refusal of a join request and the client's view of it.\<close>

lemma refusal_read_back:
  assumes "json_library J" "serialize J (join_failure err) = Some s"
  shows "fst (parse_envelope J s) = DocJoinResponse"
    "parse_doc_join_response J s =
       Some \<lparr>djres_success = False, djres_docId = 0, djres_title = [], djres_content = [], djres_revision = 0,
             djres_role = [], djres_users = [], djres_error = err\<rparr>"
proof -
  note lib = assms(1)
  show "fst (parse_envelope J s) = DocJoinResponse"
    using json_library.parse_envelope_serialized [OF lib assms(2)] by (simp add: join_failure_def)
  show "parse_doc_join_response J s = Some \<lparr>djres_success = False, djres_docId = 0, djres_title = [],
      djres_content = [], djres_revision = 0, djres_role = [], djres_users = [], djres_error = err\<rparr>"
    using json_library.parse_serialized [OF lib assms(2)] json_values.DocJoinResponse_roundtrip [OF json_library.axioms(1) [OF lib]]
    by (simp add: parse_doc_join_response_def parse_as_def join_failure_def)
qed

lemma requestJoin_pending: "pending_join_doc_id w \<noteq> 0 \<Longrightarrow> requestJoin docId w = (w, [])"
  by (simp add: requestJoin_def)

text \<open>What ends the waiting for an answer.\<close>

lemma pending_ends:
  assumes "pending_join_doc_id w \<noteq> 0" "pending_join_doc_id (fst (onMessageReceived J Q payload w)) \<noteq> pending_join_doc_id w"
  shows "fst (parse_envelope J payload) = Error
    \<or> (\<exists>m. parse_doc_join_response J payload = Some m \<and> djres_docId m = pending_join_doc_id w)"
  using assms
  by (auto simp: onMessageReceived_def handleDocListResponse_def applyDocList_def handleDocCreateResponse_def
      handleDocJoinResponse_def list_andalso_def refresh_def requestJoin_def Let_def split: if_splits option.splits)

section \<open>A refused request\<close>

text \<open>
  A refused request to open a document blocks the list. The server refuses a user who may not
  read the document with an answer that does not name it. The list, which waits for an answer for
  this document, ignores the answer and goes on waiting; until then it opens no document, whatever
  the user asks for; and only an error message or an answer that names the document, or fails to
  name any when none is awaited, ends the waiting.
\<close>

lemma refused_join_blocks_opening:
  assumes "json_library J" "serialize J (join_failure ''access_denied'') = Some s"
    and "docId \<noteq> 0" "pending_join_doc_id w = 0" "json E = J"
    and "from_json_DocJoinRequest J j = Some \<lparr>djreq_docId = docId\<rparr>"
    and "\<not> can_read (access (dm sv)) docId (cs_userId (conn sv sid))"
  shows "handle_doc_join E sv sid j = send_msg E sv sid (join_failure ''access_denied'')
    \<and> (let w1 = fst (requestJoin docId w)
       in onMessageReceived J Q s w1 = (w1, []) \<and> (\<forall>other. requestJoin other w1 = (w1, []))
         \<and> (\<forall>payload. pending_join_doc_id (fst (onMessageReceived J Q payload w1)) = docId
             \<or> fst (parse_envelope J payload) = Error
             \<or> (\<exists>m. parse_doc_join_response J payload = Some m \<and> djres_docId m = docId)))"
proof -
  let ?w = "fst (requestJoin docId w)"
  have pending: "pending_join_doc_id ?w = docId" using assms(4) by (simp add: requestJoin_def)
  have "handle_doc_join E sv sid j = send_msg E sv sid (join_failure ''access_denied'')"
    using assms(5-7) by (simp add: handle_doc_join_def Let_def)
  moreover have "onMessageReceived J Q s ?w = (?w, [])"
    using refusal_read_back [OF assms(1,2)] pending assms(3) by (simp add: onMessageReceived_def handleDocJoinResponse_def)
  moreover have "requestJoin other ?w = (?w, [])" for other
    using pending assms(3) by (intro requestJoin_pending) simp
  moreover have "pending_join_doc_id (fst (onMessageReceived J Q payload ?w)) = docId
      \<or> fst (parse_envelope J payload) = Error
      \<or> (\<exists>m. parse_doc_join_response J payload = Some m \<and> djres_docId m = docId)" for payload
    using pending_ends [of ?w J Q payload] pending assms(3) by auto
  ultimately show ?thesis by simp
qed

definition example_list :: document_list where
  "example_list = \<lparr>doc_items = [makeDocCard unicode_qt \<lparr>dle_docId = 3, dle_title = [], dle_role = [], dle_onlineCount = 0\<rparr>], current_item = Some 0, list_status = Documents 1, pending_join_doc_id = 0\<rparr>"

lemma refused_join_blocks_opening_witness:
  "let s = print (to_json json_text (join_failure ''access_denied'')); w = fst (requestJoin 3 example_list)
   in pending_join_doc_id w = 3 \<and> onMessageReceived json_text unicode_qt s w = (w, []) \<and> requestJoin 4 w = (w, [])"
proof -
  let ?j = "to_json_DocJoinRequest json_text \<lparr>djreq_docId = 3\<rparr>"
  have "from_json_DocJoinRequest json_text ?j = Some \<lparr>djreq_docId = 3\<rparr>"
    by (rule json_text.DocJoinRequest_roundtrip)
  moreover have "\<not> can_read (access (dm example_server)) 3 (cs_userId (conn example_server 1))"
    by (simp add: permissions) (simp add: example_server_def DocumentManager_def create_directories_def get_role_Nil)
  moreover have "json_library json_text" "serialize json_text (join_failure ''access_denied'')
      = Some (print (to_json json_text (join_failure ''access_denied'')))"
    using example_json(1) example_json(2) [of "join_failure ''access_denied''"] by simp_all
  moreover have "(3 :: u32) \<noteq> 0" "pending_join_doc_id example_list = 0" by (simp_all add: example_list_def)
  ultimately show ?thesis
    using refused_join_blocks_opening [where J = json_text and docId = 3 and w = example_list and E = example_env and j = ?j
        and sv = example_server and sid = 1 and Q = unicode_qt]
    by (simp add: Let_def) (simp add: example_list_def requestJoin_def)
qed

end
