(* ===== verification/Editor_Window_Props.thy ===== *)
theory Editor_Window_Props
  imports Editor_Window
begin

text \<open>
  What the windows of the client keep to: the text field shows the text of the local document,
  whatever the user and the server do, as long as operations do not cut characters. The proofs of
  the widget are in the locale of Qt's texts; here they are put together for the whole window.
\<close>

section \<open>Runs of a window\<close>

datatype win_event =
  UserEdit qstring int int int int int
  | Payload string
  | CursorMove int int nat nat
  | CursorTimeout
  | ShareClicked "qstring option"
  | ConnectionLost qstring
  | CloseClicked

definition win_step :: "'j json_api \<Rightarrow> qt \<Rightarrow> win_event \<Rightarrow> editor_window \<Rightarrow> (editor_window \<times> win_effect list) option" where
  "win_step J Q ev w =
     (case ev of
        UserEdit new p r a anchor pos \<Rightarrow> Some (window_edit Q new p r a anchor pos w)
      | Payload s \<Rightarrow> windowOnNetworkMessage J Q s w
      | CursorMove anchor pos block column \<Rightarrow>
          Some (quietly (\<lambda>w. onCursorPositionChanged block column (with_editor (\<lambda>e. e\<lparr>ed_anchor := anchor, ed_position := pos\<rparr>) w)) w)
      | CursorTimeout \<Rightarrow> Some (onCursorBroadcastTimeout Q w)
      | ShareClicked answer \<Rightarrow> Some (editorOnShareClicked Q answer w)
      | ConnectionLost reason \<Rightarrow> Some (editorOnDisconnected reason w)
      | CloseClicked \<Rightarrow> Some (closeEvent w))"

fun win_run :: "'j json_api \<Rightarrow> qt \<Rightarrow> win_event list \<Rightarrow> editor_window \<Rightarrow> (editor_window \<times> win_effect list) option" where
  "win_run J Q [] w = Some (w, [])"
| "win_run J Q (ev # evs) w = do {
     (w1, out1) \<leftarrow> win_step J Q ev w;
     (w2, out2) \<leftarrow> win_run J Q evs w1;
     Some (w2, out1 @ out2)}"

section \<open>The text field shows the local document\<close>

abbreviation doc_text :: "editor_window \<Rightarrow> string" where
  "doc_text w \<equiv> ld_content (ctl_doc (ew_ctl w))"

definition window_shows :: "qt \<Rightarrow> editor_window \<Rightarrow> bool" where
  "window_shows Q w = (ctl_inv (ew_ctl w) \<and> editor_shows Q (ew_editor w) (doc_text w))"

fun remote_ops :: "ctl_effect list \<Rightarrow> operation list" where
  "remote_ops [] = []"
| "remote_ops (RemoteOperationApplied op # effs) = op # remote_ops effs"
| "remote_ops (_ # effs) = remote_ops effs"

abbreviation apply_ops :: "operation list \<Rightarrow> string \<Rightarrow> string" where
  "apply_ops \<equiv> fold (\<lambda>op d. apply_op d op)"

fun ops_fit :: "qt \<Rightarrow> string \<Rightarrow> operation list \<Rightarrow> bool" where
  "ops_fit Q s [] = True"
| "ops_fit Q s (op # ops) =
     (length s < 2 ^ 31 \<and> length (op_text op) < 2 ^ 31 \<and> op_fits Q s op \<and> ops_fit Q (apply_op s op) ops)"

text \<open>What is asked of an event: reports that are right, and operations that do not cut characters.\<close>

definition event_ok :: "'j json_api \<Rightarrow> qt \<Rightarrow> win_event \<Rightarrow> editor_window \<Rightarrow> bool" where
  "event_ok J Q ev w =
     (case ev of
        UserEdit new p r a _ _ \<Rightarrow>
          reports (ed_text (ew_editor w)) new p r a \<and> length (doc_text w) < 2 ^ 32 \<and> length (toUtf8 Q new) < 2 ^ 32
      | Payload s \<Rightarrow>
          (case onNetworkMessage J (ew_user_id w) (ew_ctl w) s of
             None \<Rightarrow> True
           | Some (_, effs) \<Rightarrow> ops_fit Q (doc_text w) (remote_ops effs))
      | _ \<Rightarrow> True)"

fun events_ok :: "'j json_api \<Rightarrow> qt \<Rightarrow> win_event list \<Rightarrow> editor_window \<Rightarrow> bool" where
  "events_ok J Q [] w = True"
| "events_ok J Q (ev # evs) w =
     (event_ok J Q ev w \<and> (case win_step J Q ev w of None \<Rightarrow> True | Some (w', _) \<Rightarrow> events_ok J Q evs w'))"

lemma remote_ops_append [simp]: "remote_ops (xs @ ys) = remote_ops xs @ remote_ops ys"
  by (induction xs rule: remote_ops.induct) simp_all

text \<open>The controller changes the document by the operations it announces, or by the local ones.\<close>

lemma ld_content_set_revision [simp]: "ld_content (ld_set_revision d rv) = ld_content d"
  by (simp add: ld_set_revision_def)

lemma broadcast_entry_content:
  "broadcast_entry c op = Some (c', effs) \<Longrightarrow> ld_content (ctl_doc c') = apply_ops (remote_ops effs) (ld_content (ctl_doc c))"
  by (auto simp: broadcast_entry_def ld_apply_def Let_def split: if_splits option.splits prod.splits)

lemma broadcast_entries_content:
  "broadcast_entries msg c es = Some (c', effs) \<Longrightarrow> ld_content (ctl_doc c') = apply_ops (remote_ops effs) (ld_content (ctl_doc c))"
  by (induction es arbitrary: c effs) (auto simp: bind_eq_Some_conv broadcast_entry_content)

lemma handleAck_content:
  "handleAck c msg = Some (c', effs) \<Longrightarrow> ld_content (ctl_doc c') = ld_content (ctl_doc c) \<and> remote_ops effs = []"
  by (auto simp: handleAck_def Let_def emitStateLabel_def sendOp_def split: ot_state.splits list.splits)

lemma onNetworkMessage_content:
  assumes "onNetworkMessage J uid c payload = Some (c', effs)"
  shows "ld_content (ctl_doc c') = apply_ops (remote_ops effs) (ld_content (ctl_doc c))"
  using assms
  by (auto simp: onNetworkMessage_def handleBroadcast_def handleError_def Let_def bind_eq_Some_conv
      handleAck_content broadcast_entries_content split: if_splits option.splits dest: handleAck_content)

lemma onNetworkMessage_inv:
  assumes "ctl_inv c"
  obtains c' effs where "onNetworkMessage J uid c payload = Some (c', effs)" "ctl_inv c'"
  using assms handleAck_inv [OF assms] handleBroadcast_inv [OF assms]
  by (fastforce simp: onNetworkMessage_def handleError_def Let_def split: option.splits if_splits)

lemma local_operations_content:
  "local_operations uid c ops = (c', effs, ch) \<Longrightarrow>
   ld_content (ctl_doc c') = apply_ops ops (ld_content (ctl_doc c)) \<and> remote_ops effs = []"
proof (induction ops arbitrary: c effs ch)
  case (Cons op ops)
  have stamp: "apply_op d (op\<lparr>userId := u, op_revision := rv\<rparr>) = apply_op d op" for d u rv
    by (simp add: apply_op_def is_noop_def)
  obtain c1 out1 ch1 where one: "local_operation uid c op = (c1, out1, ch1)" by (metis prod_cases3)
  have "ld_content (ctl_doc c1) = apply_op (ld_content (ctl_doc c)) op" "remote_ops out1 = []"
    using one stamp by (auto simp: local_operation_def ld_apply_def Let_def sendOp_def apply_op_def [of _ op] split: if_splits)
  then show ?case using Cons one by (auto split: prod.splits)
qed simp

lemma onLocalOperations_content:
  assumes "ctl_inv c" "onLocalOperations uid c ops = (c', effs)"
  shows "ctl_inv c' \<and> ld_content (ctl_doc c') = apply_ops ops (ld_content (ctl_doc c)) \<and> remote_ops effs = []"
proof -
  obtain out ch where L: "local_operations uid c ops = (c', out, ch)"
    and "effs = out @ (if ch then [emitStateLabel c'] else [])"
    using assms(2) by (auto simp: onLocalOperations_def split: prod.splits)
  then show ?thesis
    using local_operations_inv [OF assms(1), of uid ops] local_operations_content [OF L] by (auto simp: emitStateLabel_def)
qed

text \<open>Everything else leaves the shown text and the controller alone.\<close>

lemma editor_shows_frame [simp]:
  "editor_shows Q (e\<lparr>read_only := b\<rparr>) s = editor_shows Q e s"
  "editor_shows Q (e\<lparr>ed_anchor := x, ed_position := y\<rparr>) s = editor_shows Q e s"
  "editor_shows Q (setRemoteCursors cs e) s = editor_shows Q e s"
  "editor_shows Q (setRevision rv e) s = editor_shows Q e s"
  by (simp_all add: editor_shows_def setRemoteCursors_def setRevision_def)

lemma fst_andalso [simp]: "fst (andalso f g w) = fst (g (fst (f w)))"
  by (simp add: andalso_def split_beta)

lemma window_frame [simp]:
  "ew_ctl (with_editor f w) = ew_ctl w" "ew_editor (with_editor f w) = f (ew_editor w)"
  "ew_ctl (with_panel g w) = ew_ctl w" "ew_editor (with_panel g w) = ew_editor w"
  "ew_ctl (set_online ids w) = ew_ctl w" "ew_editor (set_online ids w) = ew_editor w"
  "ew_ctl (scheduleCursorBroadcast w) = ew_ctl w" "ew_editor (scheduleCursorBroadcast w) = ew_editor w"
  "ew_ctl (onRemoteCursorsChanged Q w) = ew_ctl w"
  "ew_ctl (change_cursors Q h w) = ew_ctl w"
  "fst (closeEvent w) = w" "fst (quietly k w) = k w"
  by (simp_all add: with_editor_def with_panel_def set_online_def scheduleCursorBroadcast_def onRemoteCursorsChanged_def
      change_cursors_def closeEvent_def quietly_def Let_def split: prod.splits)

lemma change_cursors_shows [simp]: "editor_shows Q' (ew_editor (change_cursors Q h w)) s = editor_shows Q' (ew_editor w) s"
  by (simp add: change_cursors_def onRemoteCursorsChanged_def Let_def split: prod.splits)

definition undisturbed :: "editor_window \<Rightarrow> editor_window \<Rightarrow> bool" where
  "undisturbed w w' = (ew_ctl w' = ew_ctl w \<and> (\<forall>Q s. editor_shows Q (ew_editor w') s = editor_shows Q (ew_editor w) s))"

lemma undisturbed_shows: "undisturbed w w' \<Longrightarrow> window_shows Q w' = window_shows Q w"
  by (simp add: undisturbed_def window_shows_def)

lemma closeWithNotice_undisturbed [simp]: "undisturbed w (fst (closeWithNotice ttl body w))"
  by (simp add: closeWithNotice_def undisturbed_def)

lemma if_parsed_undisturbed:
  "(\<And>msg. undisturbed w (fst (f msg w))) \<Longrightarrow> undisturbed w (fst (if_parsed m f w))"
  by (simp add: if_parsed_def undisturbed_def split: option.splits)

lemma handlers_undisturbed [simp]:
  "undisturbed w (fst (handleUserJoined Q uj w))"
  "undisturbed w (fst (handleUserLeft Q ul w))"
  "undisturbed w (fst (handleCursorBroadcast Q cb w))"
  "undisturbed w (fst (handleRoleChanged Q rc w))"
  by (simp_all add: undisturbed_def handleUserJoined_def handleUserLeft_def handleCursorBroadcast_def
      handleRoleChanged_def applyRole_def Let_def)

lemma closing_undisturbed [simp]:
  "undisturbed w (fst (handleDocDeleted dd w))"
  "undisturbed w (fst (handleServerShutdown Q ss w))"
  using closeWithNotice_undisturbed
  by (simp_all add: handleDocDeleted_def handleServerShutdown_def) (simp add: undisturbed_def)

lemma window_message_undisturbed: "undisturbed w (fst (window_message J Q payload w))"
  by (cases "fst (parse_envelope J payload)")
    (simp_all add: window_message_def if_parsed_undisturbed, simp_all add: undisturbed_def)

lemma controller_signals_shows:
  assumes "qt_text Q"
  shows "editor_shows Q (ew_editor w) s \<Longrightarrow> ops_fit Q s (remote_ops effs) \<Longrightarrow>
    editor_shows Q (ew_editor (fst (controller_signals Q effs w))) (apply_ops (remote_ops effs) s)
    \<and> ew_ctl (fst (controller_signals Q effs w)) = ew_ctl w"
proof (induction effs arbitrary: w s)
  case (Cons eff effs)
  show ?case
  proof (cases eff)
    case (RemoteOperationApplied op)
    let ?w = "onRemoteOperationApplied Q op w"
    have "editor_shows Q (ew_editor ?w) (apply_op s op)"
      using Cons.prems RemoteOperationApplied qt_text.applyRemoteOperation_shows [OF assms]
      by (simp add: onRemoteOperationApplied_def)
    with Cons.IH [of ?w "apply_op s op"] Cons.prems RemoteOperationApplied show ?thesis
      by (simp add: controller_signal_def onRemoteOperationApplied_def)
  qed (use Cons in \<open>simp_all add: controller_signal_def onRevisionChanged_def onFatalError_def\<close>)
qed simp

lemma window_edit_shows:
  assumes "qt_text Q" "window_shows Q w" "event_ok J Q (UserEdit new p r a anchor pos) w"
  shows "window_shows Q (fst (window_edit Q new p r a anchor pos w))"
proof (cases "read_only (ew_editor w)")
  case True
  with assms(2) show ?thesis by (simp add: window_edit_def)
next
  case False
  obtain e ops where edit: "user_edit Q new p r a anchor pos (ew_editor w) = (e, ops)" by fastforce
  obtain c effs where ctl: "onLocalOperations (ew_user_id w) (ew_ctl w) ops = (c, effs)" by fastforce
  have "editor_shows Q e (toUtf8 Q new)" "apply_ops ops (doc_text w) = toUtf8 Q new"
    using qt_text.onContentsChange_shows [OF assms(1) _ _ _ _ edit] assms(2,3) by (auto simp: event_ok_def window_shows_def)
  moreover have "ctl_inv c" "ld_content (ctl_doc c) = apply_ops ops (doc_text w)" "remote_ops effs = []"
    using onLocalOperations_content [OF _ ctl] assms(2) by (auto simp: window_shows_def)
  moreover note controller_signals_shows [OF assms(1), of "w\<lparr>ew_editor := e, ew_ctl := c\<rparr>" "toUtf8 Q new" effs]
  ultimately show ?thesis
    using False assms(2) edit ctl by (auto simp: window_edit_def window_shows_def Let_def)
qed

lemma window_message_shows:
  assumes "qt_text Q" "window_shows Q w" "event_ok J Q (Payload payload) w"
  obtains w' out where "windowOnNetworkMessage J Q payload w = Some (w', out)" "window_shows Q w'"
    "Some (ew_ctl w') = map_option fst (onNetworkMessage J (ew_user_id w) (ew_ctl w) payload)"
proof -
  obtain c effs where ctl: "onNetworkMessage J (ew_user_id w) (ew_ctl w) payload = Some (c, effs)" "ctl_inv c"
    using onNetworkMessage_inv assms(2) by (metis window_shows_def)
  let ?w = "fst (controller_signals Q effs (w\<lparr>ew_ctl := c\<rparr>))"
  have "window_shows Q ?w \<and> ew_ctl ?w = c"
    using controller_signals_shows [OF assms(1), of "w\<lparr>ew_ctl := c\<rparr>" "doc_text w" effs] assms(2,3) ctl
      onNetworkMessage_content [OF ctl(1)] by (simp add: window_shows_def event_ok_def)
  then have "window_shows Q (fst (window_message J Q payload ?w))" "ew_ctl (fst (window_message J Q payload ?w)) = c"
    using undisturbed_shows [OF window_message_undisturbed [of ?w J Q payload], of Q] window_message_undisturbed [of ?w J Q payload]
    by (simp_all add: undisturbed_def)
  then show ?thesis
    using that [of "fst (andalso (controller_signals Q effs) (window_message J Q payload) (w\<lparr>ew_ctl := c\<rparr>))"] ctl(1)
    by (simp add: windowOnNetworkMessage_def) (metis fst_andalso prod.collapse)
qed

lemma shows_result: "window_shows Q (fst res) \<Longrightarrow> \<exists>w' out. Some res = Some (w', out) \<and> window_shows Q w'"
  by (cases res) simp

lemma win_step_shows:
  assumes "qt_text Q" "window_shows Q w" "event_ok J Q ev w"
  shows "\<exists>w' out. win_step J Q ev w = Some (w', out) \<and> window_shows Q w'"
proof (cases ev)
  case (UserEdit new p r a anchor pos)
  with shows_result [OF window_edit_shows [OF assms(1,2)]] assms(3) show ?thesis by (simp add: win_step_def)
next
  case (Payload s)
  then obtain w' out where "windowOnNetworkMessage J Q s w = Some (w', out)" "window_shows Q w'"
    using window_message_shows [OF assms(1,2)] assms(3) by blast
  with Payload show ?thesis by (simp add: win_step_def)
next
  case (ShareClicked answer)
  with assms(2) show ?thesis
    by (auto simp: win_step_def editorOnShareClicked_def split: option.splits)
next
  case (ConnectionLost reason)
  have "window_shows Q (fst (editorOnDisconnected reason w))"
    using assms(2) undisturbed_shows [OF closeWithNotice_undisturbed] by (simp add: editorOnDisconnected_def)
  from shows_result [OF this] ConnectionLost show ?thesis by (simp add: win_step_def)
qed (use assms(2) in \<open>auto simp: win_step_def window_shows_def onCursorPositionChanged_def quietly_def closeEvent_def
      onCursorBroadcastTimeout_def Let_def\<close>)

lemma win_run_shows:
  assumes "qt_text Q"
  shows "window_shows Q w \<Longrightarrow> events_ok J Q evs w \<Longrightarrow> \<exists>w' out. win_run J Q evs w = Some (w', out) \<and> window_shows Q w'"
proof (induction evs arbitrary: w)
  case (Cons ev evs)
  obtain w1 out1 where one: "win_step J Q ev w = Some (w1, out1)" "window_shows Q w1"
    using win_step_shows [OF assms Cons.prems(1), of J ev] Cons.prems(2) by auto
  with Cons.IH [OF one(2)] Cons.prems(2) show ?case by auto
qed simp

lemma EditorWindow_shows:
  assumes "utf8 Q (djres_content initial)" "plain Q (fromUtf8 Q (djres_content initial)) = fromUtf8 Q (djres_content initial)"
    and "length (djres_content initial) < 2 ^ 31"
  shows "window_shows Q (EditorWindow Q uid username initial)"
proof -
  have "editor_shows Q (resetContent Q (fromUtf8 Q (djres_content initial)) e) (djres_content initial)" for e
    using assms(1,2) by (simp add: resetContent_def Let_def change_text_def onContentsChange_def editor_shows_def utf8_def)
  then show ?thesis
    by (simp add: EditorWindow_def Let_def window_shows_def onCursorPositionChanged_def applyRole_def to_qbytes_small [OF assms(3)]
        ctl_inv_init) (simp add: OTController_def LocalDocument_def)
qed

section \<open>Properties\<close>

text \<open>
  C5: the window shows the document. A document that arrives as UTF-8 in a text Qt returns
  unchanged is shown in the text field as it is; and whatever happens then, a change by the user
  that Qt reports correctly, a message from the server, a timeout, a lost connection, no step
  fails and the bytes of the text field are the bytes of the local document, as long as the
  operations of others do not cut a character and the text stays below 2 GiB.
\<close>

theorem editor_shows_document:
  assumes "qt_text Q" "utf8 Q (djres_content initial)"
    and "plain Q (fromUtf8 Q (djres_content initial)) = fromUtf8 Q (djres_content initial)"
    and "length (djres_content initial) < 2 ^ 31"
    and "events_ok J Q evs (EditorWindow Q uid username initial)"
  shows "\<exists>w out. win_run J Q evs (EditorWindow Q uid username initial) = Some (w, out)
    \<and> toUtf8 Q (ed_text (ew_editor w)) = ld_content (ctl_doc (ew_ctl w))"
  using win_run_shows [OF assms(1) EditorWindow_shows [OF assms(2-4)] assms(5)]
  by (auto simp: window_shows_def editor_shows_def)

text \<open>
  In the example the document holds an \<open>a\<close> and an \<open>e\<close> with an acute accent, two bytes of UTF-8.
  Another user inserts a \<open>y\<close> in front, then the user types an \<open>x\<close> at the end and the cursor is sent.
\<close>

definition example_join :: doc_join_response_msg where
  "example_join = \<lparr>djres_success = True, djres_docId = 7, djres_title = ''notes'',
     djres_content = toUtf8 unicode_qt [0x61, 0xE9], djres_revision = 4, djres_role = toUtf8 unicode_qt (qlit ''owner''), djres_users = [], djres_error = []\<rparr>"

definition example_broadcast :: operation_broadcast_msg where
  "example_broadcast = \<lparr>ob_docId = 7, ob_userId = 2, ob_username = ''bob'', ob_revision = 5,
     ob_ops = [\<lparr>oe_op = ''insert'', oe_pos = 0, oe_text = toUtf8 unicode_qt [0x79], oe_len = 0\<rparr>]\<rparr>"

definition example_events :: "win_event list" where
  "example_events = [Payload (print (to_json json_text (OperationBroadcastMsg example_broadcast))),
     UserEdit [0x79, 0x61, 0xE9, 0x78] 3 0 1 4 4, CursorTimeout]"

lemma unicode_utf8: "utf16 a \<Longrightarrow> utf8 unicode_qt (toUtf8 unicode_qt a)"
  by (simp add: utf8_def unicode.fromUtf8_toUtf8)

lemma example_texts:
  "utf16 [0x61, 0xE9]" "utf16 [0x79]" "utf16 [0x79, 0x61, 0xE9]"
  "length (toUtf8 unicode_qt [0x61, 0xE9]) = 3" "length (toUtf8 unicode_qt [0x79]) = 1"
  "length (toUtf8 unicode_qt [0x79, 0x61, 0xE9]) = 4" "length (toUtf8 unicode_qt [0x79, 0x61, 0xE9, 0x78]) = 5"
  "plain unicode_qt [0x61, 0xE9] = [0x61, 0xE9]" "plain unicode_qt [0x79] = [0x79]"
  by (simp_all add: high_surrogate_def low_surrogate_def unicode_qt_def enc_cp_def plain_unit_def)

lemma example_message:
  "parse_envelope json_text (print (to_json json_text (OperationBroadcastMsg example_broadcast)))
     = (OperationBroadcast, print (to_json json_text (OperationBroadcastMsg example_broadcast)))"
  "parse_as json_text (from_json_OperationBroadcast json_text)
     (print (to_json json_text (OperationBroadcastMsg example_broadcast))) = Some example_broadcast"
proof -
  let ?s = "print (to_json json_text (OperationBroadcastMsg example_broadcast))"
  have ser: "serialize json_text (OperationBroadcastMsg example_broadcast) = Some ?s"
    by (simp add: serialize_def json_text_serializes)
  show "parse_envelope json_text ?s = (OperationBroadcast, ?s)"
    using json_text.parse_envelope_serialized [OF ser] by simp
  have "j_parse json_text ?s = Some (to_json_OperationBroadcast json_text example_broadcast)"
    using json_text.parse_serialized [OF ser] by simp
  moreover have "from_json_OperationBroadcast json_text (to_json_OperationBroadcast json_text example_broadcast) = Some example_broadcast"
    by (rule json_text.OperationBroadcast_roundtrip)
      (simp_all add: example_broadcast_def canonical_entry_def)
  ultimately show "parse_as json_text (from_json_OperationBroadcast json_text) ?s = Some example_broadcast"
    by (simp add: parse_as_def)
qed

lemma example_start:
  defines "w \<equiv> EditorWindow unicode_qt 1 [] example_join"
  shows "window_shows unicode_qt w" "ew_user_id w = 1" "read_only (ew_editor w) = False"
    "ew_ctl w = OTController (LocalDocument (toUtf8 unicode_qt [0x61, 0xE9]) 4) 7 4"
proof -
  have owner: "fromUtf8 unicode_qt (djres_role example_join) = qlit ''owner''"
    by (simp add: example_join_def unicode.fromUtf8_toUtf8 qlit_def high_surrogate_def low_surrogate_def)
  show "window_shows unicode_qt w" unfolding w_def
    by (rule EditorWindow_shows)
      (use example_texts in \<open>simp_all add: example_join_def unicode_utf8 unicode.fromUtf8_toUtf8\<close>)
  show "ew_user_id w = 1" "read_only (ew_editor w) = False"
    "ew_ctl w = OTController (LocalDocument (toUtf8 unicode_qt [0x61, 0xE9]) 4) 7 4"
    using owner by (simp_all add: w_def EditorWindow_def Let_def applyRole_def with_editor_def
        onCursorPositionChanged_def scheduleCursorBroadcast_def) (simp add: example_join_def)
qed

definition example_op :: operation where
  "example_op = make_insert 0 (toUtf8 unicode_qt [0x79]) 2 5"

lemma example_op_fits:
  "ops_fit unicode_qt (toUtf8 unicode_qt [0x61, 0xE9]) [example_op]"
  "apply_op (toUtf8 unicode_qt [0x61, 0xE9]) example_op = toUtf8 unicode_qt [0x79, 0x61, 0xE9]"
proof -
  have "utf8 unicode_qt []" using unicode_utf8 [of "[]"] by (simp add: unicode.toUtf8_Nil)
  then show "ops_fit unicode_qt (toUtf8 unicode_qt [0x61, 0xE9]) [example_op]"
    using example_texts by (simp add: example_op_def op_fits_def unicode_utf8 unicode.fromUtf8_toUtf8 make_insert_def)
  show "apply_op (toUtf8 unicode_qt [0x61, 0xE9]) example_op = toUtf8 unicode_qt [0x79, 0x61, 0xE9]"
    using example_texts unicode.toUtf8_append [of "[0x79]" "[0x61, 0xE9]"]
    by (simp add: apply_op_effect example_op_def effect_def splice_in_def)
qed

lemma example_broadcast_step:
  "onNetworkMessage json_text 1 (OTController (LocalDocument (toUtf8 unicode_qt [0x61, 0xE9]) 4) 7 4)
     (print (to_json json_text (OperationBroadcastMsg example_broadcast)))
   = Some (OTController (LocalDocument (toUtf8 unicode_qt [0x79, 0x61, 0xE9]) 5) 7 5,
       [RemoteOperationApplied example_op, RevisionChanged 5])"
  using example_op_fits(2) unfolding onNetworkMessage_def example_message
  by (simp add: handleBroadcast_def example_broadcast_def broadcast_entry_def from_entry_def
      example_op_def OTController_def LocalDocument_def ld_apply_def ld_set_revision_def)

lemma example_events_ok: "events_ok json_text unicode_qt example_events (EditorWindow unicode_qt 1 [] example_join)"
proof -
  let ?w = "EditorWindow unicode_qt 1 [] example_join"
    and ?s = "print (to_json json_text (OperationBroadcastMsg example_broadcast))"
  have ok: "event_ok json_text unicode_qt (Payload ?s) ?w"
    using example_start example_broadcast_step example_op_fits(1)
    by (simp add: event_ok_def) (simp add: OTController_def LocalDocument_def)
  obtain w1 out where "windowOnNetworkMessage json_text unicode_qt ?s ?w = Some (w1, out)" and shows1: "window_shows unicode_qt w1"
    and ctl: "Some (ew_ctl w1) = map_option fst (onNetworkMessage json_text (ew_user_id ?w) (ew_ctl ?w) ?s)"
    using window_message_shows [OF unicode.qt_text_axioms example_start(1) ok] by blast
  then have step: "win_step json_text unicode_qt (Payload ?s) ?w = Some (w1, out)" by (simp add: win_step_def)
  have doc: "doc_text w1 = toUtf8 unicode_qt [0x79, 0x61, 0xE9]"
    using ctl unfolding example_start(2,4) example_broadcast_step by (simp add: OTController_def LocalDocument_def)
  then have shown: "ed_text (ew_editor w1) = [0x79, 0x61, 0xE9]"
    using shows1 example_texts(3) unicode.toUtf8_inject [of "ed_text (ew_editor w1)" "[0x79, 0x61, 0xE9]"]
    unfolding window_shows_def editor_shows_def by metis
  have "event_ok json_text unicode_qt (UserEdit [0x79, 0x61, 0xE9, 0x78] 3 0 1 4 4) w1"
    using example_texts by (simp add: event_ok_def shown doc reports_def mid_def high_surrogate_def low_surrogate_def)
  then show ?thesis
    using ok step by (auto simp: example_events_def event_ok_def [of _ _ CursorTimeout] simp del: to_json.simps split: option.splits)
qed

theorem editor_shows_document_witness:
  "\<exists>w out. win_run json_text unicode_qt example_events (EditorWindow unicode_qt 1 [] example_join) = Some (w, out)
    \<and> toUtf8 unicode_qt (ed_text (ew_editor w)) = ld_content (ctl_doc (ew_ctl w))"
  by (rule editor_shows_document [OF unicode.qt_text_axioms _ _ _ example_events_ok])
    (use example_texts in \<open>simp_all add: example_join_def unicode_utf8 unicode.fromUtf8_toUtf8\<close>)

section \<open>Texts that Qt changes\<close>

text \<open>
  Where Qt returns another text than it was given, the widget and the document part. A text document
  returns a space for a non-breaking space: one byte where the document has two. The first edit
  after opening a document with one is placed right; the second, typed behind it, is inserted in
  front of it.
\<close>

lemma nbsp_shifts_edits:
  defines "e0 \<equiv> resetContent unicode_qt [0x61, 0xA0, 0x62] EditorWidget"
  defines "edit1 \<equiv> user_edit unicode_qt [0x61, 0x20, 0x62, 0x78] 3 0 1 4 4 e0"
  defines "edit2 \<equiv> user_edit unicode_qt [0x61, 0x20, 0x62, 0x78, 0x79] 4 0 1 5 5 (fst edit1)"
  shows "ed_text (fst edit2) = [0x61, 0x20, 0x62, 0x78, 0x79]"
    and "apply_ops (snd edit1 @ snd edit2) (toUtf8 unicode_qt [0x61, 0xA0, 0x62]) = toUtf8 unicode_qt [0x61, 0xA0, 0x62, 0x79, 0x78]"
proof -
  have e0: "last_known_text e0 = [0x61, 0xA0, 0x62]" "applying_remote e0 = False" "ed_user_id e0 = 0" "ed_revision e0 = 0"
    by (simp_all add: e0_def resetContent_def Let_def change_text_def onContentsChange_def EditorWidget_def)
  let ?s = "toUtf8 unicode_qt [0x61, 0xA0, 0x62]"
  have size: "length ?s = 4" "length (toUtf8 unicode_qt [0x61, 0x20, 0x62, 0x78]) = 4"
    "length (toUtf8 unicode_qt [0x78]) = 1" "length (toUtf8 unicode_qt [0x79]) = 1"
    by (simp_all add: unicode_qt_def high_surrogate_def low_surrogate_def enc_cp_def)
  have wf: "utf16 [0x61, 0xA0, 0x62]" "utf16 [0x79, 0x78]" "utf16 [0x78]" "utf16 [0x79]"
    by (simp_all add: high_surrogate_def low_surrogate_def)
  show "ed_text (fst edit2) = [0x61, 0x20, 0x62, 0x78, 0x79]"
    by (simp add: edit2_def user_edit_def onContentsChange_def Let_def)
  have "snd edit1 = [make_insert 4 (toUtf8 unicode_qt [0x78]) 0 0]"
    "fst edit1 = e0\<lparr>ed_text := [0x61, 0x20, 0x62, 0x78], ed_anchor := 4, ed_position := 4, last_known_text := [0x61, 0x20, 0x62, 0x78]\<rparr>"
    using size by (simp_all add: edit1_def user_edit_def onContentsChange_def Let_def e0 mid_def utf16_to_utf8_offset_def size32_def)
  moreover from this have "snd edit2 = [make_insert 4 (toUtf8 unicode_qt [0x79]) 0 0]"
    using size by (simp add: edit2_def user_edit_def onContentsChange_def Let_def e0 mid_def utf16_to_utf8_offset_def size32_def)
  ultimately have "apply_ops (snd edit1 @ snd edit2) ?s = ?s @ toUtf8 unicode_qt [0x79] @ toUtf8 unicode_qt [0x78]"
    using size by (simp add: apply_op_effect effect_def splice_in_def)
  also have "\<dots> = toUtf8 unicode_qt [0x61, 0xA0, 0x62, 0x79, 0x78]"
    using wf unicode.toUtf8_append [of "[0x79]" "[0x78]"] unicode.toUtf8_append [of "[0x61, 0xA0, 0x62]" "[0x79, 0x78]"] by simp
  finally show "apply_ops (snd edit1 @ snd edit2) ?s = toUtf8 unicode_qt [0x61, 0xA0, 0x62, 0x79, 0x78]" .
qed

end
