(* ===== verification/Client_App.thy ===== *)
theory Client_App
  imports Client_Documents_Props Editor_Window_Props
begin

text \<open>
  The whole client: \<^verbatim>\<open>client/src/main.cpp\<close> with the signals that the windows are connected to, in the
  \<^verbatim>\<open>wireSignals\<close> functions of \<^verbatim>\<open>connection_dialog.cpp\<close>, \<^verbatim>\<open>document_list_window.cpp\<close> and
  \<^verbatim>\<open>editor_window.cpp\<close>. An event is a signal of the network manager, of a widget or of a timer; the
  slots connected to it run in the order of the connections. A modal message box counts as
  answered at once, and a window that is closed is gone with the next event.
\<close>

section \<open>Slots\<close>

text \<open>
  The signals of the network manager. The windows get them through \<^verbatim>\<open>connected\<close>, \<^verbatim>\<open>disconnected\<close>,
  \<^verbatim>\<open>errorOccurred\<close> and \<^verbatim>\<open>messageReceived\<close>; the list and the editors are connected to two of them.
\<close>

datatype network_event =
  NetConnected
  | NetDisconnected qstring
  | NetError qstring
  | NetMessage string

text \<open>The fields and buttons of the dialog can be used while they are not locked.\<close>

datatype dialog_event =
  DialogTyped qstring qstring qstring qstring
  | LoginClicked
  | RegisterClicked

definition dialog_widget :: "qt_input \<Rightarrow> dialog_event \<Rightarrow> connection_dialog \<Rightarrow> connection_dialog \<times> dialog_effect list" where
  "dialog_widget I ev d =
     (if \<not> inputs_enabled d then (d, [])
      else
        (case ev of
           DialogTyped h p u pw \<Rightarrow> (d\<lparr>host_edit := h, port_edit := p, username_edit := u, password_edit := pw\<rparr>, [])
         | LoginClicked \<Rightarrow> onLoginClicked I d
         | RegisterClicked \<Rightarrow> onRegisterClicked I d))"

definition dialog_network ::
  "'j json_api \<Rightarrow> qt \<Rightarrow> qt_input \<Rightarrow> network_event \<Rightarrow> connection_dialog \<Rightarrow> connection_dialog \<times> dialog_effect list" where
  "dialog_network J Q I ev d =
     (case ev of
        NetConnected \<Rightarrow> onConnected Q I d
      | NetDisconnected reason \<Rightarrow> onDisconnected reason d
      | NetError msg \<Rightarrow> onErrorOccurred msg d
      | NetMessage payload \<Rightarrow> dialogOnMessage J Q I payload d)"

text \<open>With what the user enters in a box: a title or a name with whether it was confirmed, or yes or no.\<close>

datatype list_event =
  ItemChosen "nat option"
  | NewClicked qstring bool
  | OpenClicked
  | DeleteClicked bool
  | ListShareClicked qstring bool
  | RefreshClicked
  | ItemDoubleClicked

definition list_widget :: "qt \<Rightarrow> qt_input \<Rightarrow> list_event \<Rightarrow> list_action" where
  "list_widget Q I ev w =
     (case ev of
        ItemChosen i \<Rightarrow> (w\<lparr>current_item := i\<rparr>, [])
      | NewClicked answer ok \<Rightarrow> onNewClicked Q (promptForText I answer ok) w
      | OpenClicked \<Rightarrow> onOpenClicked w
      | DeleteClicked yes \<Rightarrow> onDeleteClicked yes w
      | ListShareClicked answer ok \<Rightarrow> listOnShareClicked Q (promptForText I answer ok) w
      | RefreshClicked \<Rightarrow> refresh w
      | ItemDoubleClicked \<Rightarrow> onOpenClicked w)"

definition list_network :: "'j json_api \<Rightarrow> qt \<Rightarrow> network_event \<Rightarrow> list_action" where
  "list_network J Q ev w =
     (case ev of
        NetMessage payload \<Rightarrow> onMessageReceived J Q payload w
      | NetDisconnected reason \<Rightarrow> listOnDisconnected reason w
      | _ \<Rightarrow> (w, []))"

text \<open>The events of an editor window that come from the network, and the others.\<close>

definition editor_network :: "network_event \<Rightarrow> win_event option" where
  "editor_network ev =
     (case ev of NetMessage payload \<Rightarrow> Some (Payload payload) | NetDisconnected reason \<Rightarrow> Some (ConnectionLost reason) | _ \<Rightarrow> None)"

definition from_widget :: "win_event \<Rightarrow> bool" where
  "from_widget ev = (case ev of Payload _ \<Rightarrow> False | ConnectionLost _ \<Rightarrow> False | _ \<Rightarrow> True)"

section \<open>The program\<close>

datatype client_phase = SigningIn | Working | Ended

record client =
  cl_phase :: client_phase
  cl_dialog :: connection_dialog
  cl_identity :: "u32 \<times> qstring"
  cl_app :: client_app

text \<open>What the user does to the editor windows comes with the number of the window.\<close>

datatype client_event =
  DialogEvent dialog_event
  | DialogClosed
  | ListEvent list_event
  | ListClosed
  | EditorEvent nat win_event
  | NetworkEvent network_event

datatype client_effect =
  OfDialog dialog_effect
  | OfList list_effect
  | OfEditor win_effect

definition client_start :: "settings \<Rightarrow> client" where
  "client_start s = \<lparr>cl_phase = SigningIn, cl_dialog = ConnectionDialog s, cl_identity = (0, []),
     cl_app = \<lparr>app_list = fst DocumentListWindow, app_list_shown = False, app_editors = []\<rparr>\<rparr>"

fun taken_identity :: "dialog_effect list \<Rightarrow> u32 \<times> qstring \<Rightarrow> u32 \<times> qstring" where
  "taken_identity [] i = i"
| "taken_identity (SetIdentity u n # es) i = taken_identity es (u, n)"
| "taken_identity (_ # es) i = taken_identity es i"

text \<open>\<^verbatim>\<open>dialog.exec()\<close> returns when the dialog is accepted, and the list of documents is made and shown.\<close>

definition run_dialog :: "(connection_dialog \<Rightarrow> connection_dialog \<times> dialog_effect list) \<Rightarrow> client \<Rightarrow> client \<times> client_effect list" where
  "run_dialog f c =
     (let (d, out) = f (cl_dialog c); c = c\<lparr>cl_dialog := d, cl_identity := taken_identity out (cl_identity c)\<rparr>
      in if cl_phase c = SigningIn \<and> accepted d then
           (let (w, out') = DocumentListWindow
            in (c\<lparr>cl_phase := Working, cl_app := \<lparr>app_list = w, app_list_shown = True, app_editors = []\<rparr>\<rparr>,
                map OfDialog out @ map OfList out'))
         else (c, map OfDialog out))"

text \<open>\<^verbatim>\<open>documentJoined\<close> opens an editor; closing the list destroys it, which ends the program.\<close>

definition open_joined :: "qt \<Rightarrow> u32 \<times> qstring \<Rightarrow> list_effect list \<Rightarrow> client_app \<Rightarrow> client_app" where
  "open_joined Q i out a =
     fold (\<lambda>e a. case e of DocumentJoined resp \<Rightarrow> openEditor Q (fst i) (snd i) resp a | _ \<Rightarrow> a) out a"

definition run_list :: "qt \<Rightarrow> list_action \<Rightarrow> client \<Rightarrow> client \<times> client_effect list" where
  "run_list Q f c =
     (let (w, out) = f (app_list (cl_app c))
      in (c\<lparr>cl_phase := (if CloseList \<in> set out then Ended else cl_phase c),
            cl_app := open_joined Q (cl_identity c) out ((cl_app c)\<lparr>app_list := w\<rparr>)\<rparr>,
          map OfList out))"

text \<open>An editor that has left its document is closed, and the list is shown and asks for news.\<close>

definition run_editor ::
  "'j json_api \<Rightarrow> qt \<Rightarrow> win_event \<Rightarrow> editor_window \<Rightarrow> client_app \<Rightarrow> (client_app \<times> client_effect list) option" where
  "run_editor J Q ev w a =
     (case win_step J Q ev w of
        None \<Rightarrow> None
      | Some (w', out) \<Rightarrow>
          if LeftDocument \<in> set out then
            (let (a, out') = on_left_document a in Some (a, map OfEditor out @ map OfList out'))
          else Some (a\<lparr>app_editors := app_editors a @ [w']\<rparr>, map OfEditor out))"

text \<open>A signal of the network manager reaches all editors, in the order in which they were made.\<close>

fun run_editors ::
  "'j json_api \<Rightarrow> qt \<Rightarrow> win_event \<Rightarrow> editor_window list \<Rightarrow> client_app \<Rightarrow> (client_app \<times> client_effect list) option" where
  "run_editors J Q ev [] a = Some (a, [])"
| "run_editors J Q ev (w # ws) a =
     (case run_editor J Q ev w a of
        None \<Rightarrow> None
      | Some (a1, out1) \<Rightarrow>
          (case run_editors J Q ev ws a1 of
             None \<Rightarrow> None
           | Some (a2, out2) \<Rightarrow> Some (a2, out1 @ out2)))"

text \<open>
  The dialog outlives its \<^verbatim>\<open>exec\<close> and stays connected. An editor made while a signal is delivered
  does not get this signal.
\<close>

definition network_signal :: "'j json_api \<Rightarrow> qt \<Rightarrow> qt_input \<Rightarrow> network_event \<Rightarrow> client \<Rightarrow> (client \<times> client_effect list) option" where
  "network_signal J Q I ev c =
     (let (c1, out1) = run_dialog (dialog_network J Q I ev) c
      in if cl_phase c \<noteq> Working then Some (c1, out1)
         else
           (let (c2, out2) = run_list Q (list_network J Q ev) c1;
                n = length (app_editors (cl_app c)); a = cl_app c2
            in case editor_network ev of
                 None \<Rightarrow> Some (c2, out1 @ out2)
               | Some wev \<Rightarrow>
                   (case run_editors J Q wev (take n (app_editors a)) (a\<lparr>app_editors := []\<rparr>) of
                      None \<Rightarrow> None
                    | Some (a', out3) \<Rightarrow>
                        Some (c2\<lparr>cl_app := a'\<lparr>app_editors := app_editors a' @ drop n (app_editors a)\<rparr>\<rparr>,
                              out1 @ out2 @ out3))))"

definition client_step :: "'j json_api \<Rightarrow> qt \<Rightarrow> qt_input \<Rightarrow> client_event \<Rightarrow> client \<Rightarrow> (client \<times> client_effect list) option" where
  "client_step J Q I ev c =
     (case ev of
        NetworkEvent e \<Rightarrow> if cl_phase c = Ended then Some (c, []) else network_signal J Q I e c
      | DialogEvent e \<Rightarrow> Some (if cl_phase c = SigningIn then run_dialog (dialog_widget I e) c else (c, []))
      | DialogClosed \<Rightarrow> Some (if cl_phase c = SigningIn then c\<lparr>cl_phase := Ended\<rparr> else c, [])
      | ListEvent e \<Rightarrow> Some (if cl_phase c = Working then run_list Q (list_widget Q I e) c else (c, []))
      | ListClosed \<Rightarrow> Some (if cl_phase c = Working then c\<lparr>cl_phase := Ended\<rparr> else c, [])
      | EditorEvent i e \<Rightarrow>
          (if cl_phase c = Working \<and> from_widget e \<and> i < length (app_editors (cl_app c)) then
             (let a = cl_app c; ws = app_editors a
              in case run_editor J Q e (ws ! i) (a\<lparr>app_editors := take i ws\<rparr>) of
                   None \<Rightarrow> None
                 | Some (a', out) \<Rightarrow>
                     Some (c\<lparr>cl_app := a'\<lparr>app_editors := app_editors a' @ drop (Suc i) ws\<rparr>\<rparr>, out))
           else Some (c, [])))"

fun client_run :: "'j json_api \<Rightarrow> qt \<Rightarrow> qt_input \<Rightarrow> client_event list \<Rightarrow> client \<Rightarrow> (client \<times> client_effect list) option" where
  "client_run J Q I [] c = Some (c, [])"
| "client_run J Q I (ev # evs) c =
     (case client_step J Q I ev c of
        None \<Rightarrow> None
      | Some (c1, out1) \<Rightarrow>
          (case client_run J Q I evs c1 of
             None \<Rightarrow> None
           | Some (c2, out2) \<Rightarrow> Some (c2, out1 @ out2)))"

section \<open>Editor windows keep their controller sound\<close>

text \<open>A window keeps its user, and its controller.\<close>

definition same_window :: "editor_window \<Rightarrow> editor_window \<Rightarrow> bool" where
  "same_window w w' = (ew_user_id w' = ew_user_id w \<and> ew_ctl w' = ew_ctl w)"

lemma same_window_frames [simp]:
  "ew_user_id (with_editor f w) = ew_user_id w" "ew_user_id (with_panel g w) = ew_user_id w"
  "ew_user_id (set_online ids w) = ew_user_id w" "ew_user_id (scheduleCursorBroadcast w) = ew_user_id w"
  "ew_user_id (change_cursors Q h w) = ew_user_id w" "ew_user_id (applyRole Q r w) = ew_user_id w"
  "ew_user_id (fst (closeWithNotice ttl body w)) = ew_user_id w"
  by (simp_all add: with_editor_def with_panel_def set_online_def scheduleCursorBroadcast_def change_cursors_def
      onRemoteCursorsChanged_def applyRole_def closeWithNotice_def closeEvent_def andalso_def Let_def split: prod.splits)

lemma window_message_user: "ew_user_id (fst (window_message J Q payload w)) = ew_user_id w"
  by (cases "fst (parse_envelope J payload)")
    (simp_all add: window_message_def if_parsed_def handleUserJoined_def handleUserLeft_def handleCursorBroadcast_def
      handleServerShutdown_def handleDocDeleted_def handleRoleChanged_def Let_def split: option.splits)

lemma controller_signals_same: "same_window w (fst (controller_signals Q effs w))"
proof (induction effs arbitrary: w)
  case (Cons eff effs)
  have "same_window w (fst (controller_signal Q eff w))"
    by (cases eff) (simp_all add: controller_signal_def same_window_def onRevisionChanged_def onRemoteOperationApplied_def onFatalError_def)
  with Cons.IH [of "fst (controller_signal Q eff w)"] show ?case by (simp add: same_window_def)
qed (simp add: same_window_def)

definition window_inv :: "u32 \<Rightarrow> editor_window \<Rightarrow> bool" where
  "window_inv u w = (ew_user_id w = u \<and> ctl_inv (ew_ctl w))"

lemma window_inv_init: "window_inv u (EditorWindow Q u uname initial)"
  by (simp add: window_inv_def EditorWindow_def Let_def onCursorPositionChanged_def applyRole_def ctl_inv_init with_editor_def
      scheduleCursorBroadcast_def)

lemma win_step_inv:
  assumes "window_inv u w"
  shows "\<exists>w' out. win_step J Q ev w = Some (w', out) \<and> window_inv u w'"
proof (cases ev)
  case (UserEdit new p r a anchor pos)
  have "window_inv u (fst (window_edit Q new p r a anchor pos w))"
  proof -
    obtain e ops where edit: "user_edit Q new p r a anchor pos (ew_editor w) = (e, ops)" by fastforce
    obtain c effs where ctl: "onLocalOperations (ew_user_id w) (ew_ctl w) ops = (c, effs)" by fastforce
    have "ctl_inv c" using onLocalOperations_content [OF _ ctl] assms by (simp add: window_inv_def)
    with controller_signals_same [of "w\<lparr>ew_editor := e, ew_ctl := c\<rparr>" Q effs] show ?thesis
      using assms edit ctl by (simp add: window_edit_def Let_def window_inv_def same_window_def)
  qed
  with UserEdit show ?thesis by (cases "window_edit Q new p r a anchor pos w") (simp add: win_step_def)
next
  case (Payload s)
  obtain c effs where ctl: "onNetworkMessage J (ew_user_id w) (ew_ctl w) s = Some (c, effs)" "ctl_inv c"
    using onNetworkMessage_inv assms by (metis window_inv_def)
  let ?w = "fst (controller_signals Q effs (w\<lparr>ew_ctl := c\<rparr>))"
  have "window_inv u (fst (andalso (controller_signals Q effs) (window_message J Q s) (w\<lparr>ew_ctl := c\<rparr>)))"
    using controller_signals_same [of "w\<lparr>ew_ctl := c\<rparr>" Q effs] window_message_user [of J Q s ?w]
      window_message_undisturbed [of ?w J Q s] ctl(2) assms
    by (simp add: window_inv_def same_window_def undisturbed_def)
  with Payload ctl(1) show ?thesis
    by (cases "andalso (controller_signals Q effs) (window_message J Q s) (w\<lparr>ew_ctl := c\<rparr>)")
      (simp add: win_step_def windowOnNetworkMessage_def)
next
  case (ConnectionLost reason)
  have "window_inv u (fst (editorOnDisconnected reason w))"
    using assms closeWithNotice_undisturbed by (simp add: editorOnDisconnected_def window_inv_def undisturbed_def)
  with ConnectionLost show ?thesis by (cases "editorOnDisconnected reason w") (simp add: win_step_def)
qed (use assms in \<open>auto simp: win_step_def window_inv_def onCursorPositionChanged_def quietly_def closeEvent_def
      onCursorBroadcastTimeout_def editorOnShareClicked_def Let_def split: option.splits\<close>)

section \<open>The invariant of the client\<close>

text \<open>
  Before signing in there are no windows but the dialog; afterwards the dialog waits for nothing
  and is silent, and the editors belong to the signed-in user.
\<close>

definition client_inv :: "client \<Rightarrow> bool" where
  "client_inv c =
     (list_all (window_inv (fst (cl_identity c))) (app_editors (cl_app c))
      \<and> (case cl_phase c of
            SigningIn \<Rightarrow> \<not> accepted (cl_dialog c) \<and> app_editors (cl_app c) = []
          | Working \<Rightarrow> pending_action (cl_dialog c) = []
          | Ended \<Rightarrow> True))"

lemma client_inv_start: "client_inv (client_start s)"
  by (simp add: client_inv_def client_start_def ConnectionDialog_def loadSettings_def)

lemma dialog_silent: "pending_action d = [] \<Longrightarrow> dialog_network J Q I ev d = (d, [])"
  by (simp add: dialog_network_def onConnected_def onDisconnected_def onErrorOccurred_def dialogOnMessage_def
      split: network_event.splits)

lemma dialog_accepts:
  assumes "\<not> accepted d" "dialog_network J Q I ev d = (d', out)" "accepted d'"
  shows "pending_action d' = [] \<and> (\<exists>payload auth. ev = NetMessage payload \<and> parse_auth_response J payload = Some auth
    \<and> ares_success auth \<and> out = [SetIdentity (ares_userId auth) (username I d)])"
  using assms
  by (auto simp: dialog_network_def onConnected_def onDisconnected_def onErrorOccurred_def dialogOnMessage_def reportFailure_def
      setInputsEnabled_def persistSettings_def split: network_event.splits if_splits option.splits)

lemma dialog_widget_accepts: "accepted (fst (dialog_widget I ev d)) = accepted d"
  by (simp add: dialog_widget_def onLoginClicked_def onRegisterClicked_def startAuth_def reportFailure_def setInputsEnabled_def
      Let_def split: dialog_event.splits)

lemma open_joined_inv:
  "list_all (window_inv (fst i)) (app_editors a) \<Longrightarrow> list_all (window_inv (fst i)) (app_editors (open_joined Q i out a))"
  unfolding open_joined_def
proof (induction out arbitrary: a)
  case (Cons e out)
  then show ?case by (cases e) (simp_all add: openEditor_def window_inv_init)
qed simp

lemma run_editor_inv:
  assumes "window_inv u w" "list_all (window_inv u) (app_editors a)"
  shows "\<exists>a' out. run_editor J Q ev w a = Some (a', out) \<and> list_all (window_inv u) (app_editors a')"
proof -
  obtain w' out where "win_step J Q ev w = Some (w', out)" "window_inv u w'" using win_step_inv [OF assms(1)] by blast
  with assms(2) show ?thesis by (simp add: run_editor_def on_left_document_def refresh_def Let_def)
qed

lemma run_editors_inv:
  "list_all (window_inv u) ws \<Longrightarrow> list_all (window_inv u) (app_editors a) \<Longrightarrow>
   \<exists>a' out. run_editors J Q ev ws a = Some (a', out) \<and> list_all (window_inv u) (app_editors a')"
proof (induction ws arbitrary: a)
  case (Cons w ws)
  obtain a1 out1 where one: "run_editor J Q ev w a = Some (a1, out1)" "list_all (window_inv u) (app_editors a1)"
    using run_editor_inv [of u w a J Q ev] Cons.prems by auto
  obtain a2 out2 where "run_editors J Q ev ws a1 = Some (a2, out2)" "list_all (window_inv u) (app_editors a2)"
    using Cons.IH [OF _ one(2)] Cons.prems(1) by auto
  with one show ?case by simp
qed simp

lemma list_all_take_drop: "list_all P xs \<Longrightarrow> list_all P (take n xs) \<and> list_all P (drop n xs)"
  by (auto simp: list_all_iff dest: in_set_takeD in_set_dropD)

lemma network_signal_inv:
  assumes "client_inv c" "cl_phase c \<noteq> Ended"
  shows "\<exists>c' out. network_signal J Q I ev c = Some (c', out) \<and> client_inv c'"
proof (cases "cl_phase c")
  case SigningIn
  then have c: "\<not> accepted (cl_dialog c)" "app_editors (cl_app c) = []" using assms(1) by (simp_all add: client_inv_def)
  obtain d out where d: "dialog_network J Q I ev (cl_dialog c) = (d, out)" by fastforce
  obtain w out' where w: "DocumentListWindow = (w, out')" by fastforce
  show ?thesis
    using dialog_accepts [OF c(1) d] SigningIn c d
    by (cases "accepted d") (auto simp: network_signal_def run_dialog_def Let_def client_inv_def w)
next
  case Working
  let ?u = "fst (cl_identity c)" and ?n = "length (app_editors (cl_app c))"
  have c: "pending_action (cl_dialog c) = []" "list_all (window_inv ?u) (app_editors (cl_app c))"
    using assms(1) Working by (simp_all add: client_inv_def)
  have d: "run_dialog (dialog_network J Q I ev) c = (c, [])"
    using c(1) Working by (simp add: run_dialog_def dialog_silent)
  obtain c2 out2 where c2: "run_list Q (list_network J Q ev) c = (c2, out2)" by fastforce
  have list: "cl_dialog c2 = cl_dialog c" "cl_identity c2 = cl_identity c" "cl_phase c2 \<in> {Working, Ended}"
    "list_all (window_inv ?u) (app_editors (cl_app c2))"
    using c2 Working c(2) by (auto simp: run_list_def Let_def intro!: open_joined_inv split: prod.splits)
  show ?thesis
  proof (cases "editor_network ev")
    case None
    with d c2 list c(1) Working show ?thesis by (auto simp: network_signal_def client_inv_def)
  next
    case (Some wev)
    let ?a = "cl_app c2"
    obtain a' out3 where "run_editors J Q wev (take ?n (app_editors ?a)) (?a\<lparr>app_editors := []\<rparr>) = Some (a', out3)"
      "list_all (window_inv ?u) (app_editors a')"
      using run_editors_inv [of ?u "take ?n (app_editors ?a)" "?a\<lparr>app_editors := []\<rparr>" J Q wev] list_all_take_drop [OF list(4)] by auto
    with d c2 list c(1) Working Some list_all_take_drop [OF list(4)] show ?thesis
      by (auto simp: network_signal_def client_inv_def Let_def)
  qed
qed (use assms in simp)

lemma client_step_inv:
  assumes "client_inv c"
  shows "\<exists>c' out. client_step J Q I ev c = Some (c', out) \<and> client_inv c'"
proof (cases ev)
  case (NetworkEvent e)
  with network_signal_inv [OF assms] assms show ?thesis by (auto simp: client_step_def)
next
  case (DialogEvent e)
  have "client_inv (fst (run_dialog (dialog_widget I e) c))" if "cl_phase c = SigningIn"
    using assms that dialog_widget_accepts [of I e "cl_dialog c"]
    by (auto simp: run_dialog_def Let_def client_inv_def split: prod.splits)
  with DialogEvent assms show ?thesis by (simp add: client_step_def) (metis prod.collapse)
next
  case (ListEvent e)
  have "client_inv (fst (run_list Q (list_widget Q I e) c))" if "cl_phase c = Working"
    using assms that by (auto simp: run_list_def Let_def client_inv_def intro!: open_joined_inv split: prod.splits)
  with ListEvent assms show ?thesis by (simp add: client_step_def) (metis prod.collapse)
next
  case (EditorEvent i e)
  let ?u = "fst (cl_identity c)" and ?ws = "app_editors (cl_app c)"
  show ?thesis
  proof (cases "cl_phase c = Working \<and> from_widget e \<and> i < length ?ws")
    case True
    then have inv: "window_inv ?u (?ws ! i)" "list_all (window_inv ?u) ?ws" "pending_action (cl_dialog c) = []"
      using assms by (auto simp: client_inv_def list_all_length)
    obtain a' out where "run_editor J Q e (?ws ! i) (cl_app c\<lparr>app_editors := take i ?ws\<rparr>) = Some (a', out)"
      "list_all (window_inv ?u) (app_editors a')"
      using run_editor_inv [OF inv(1), of "cl_app c\<lparr>app_editors := take i ?ws\<rparr>" J Q e] list_all_take_drop [OF inv(2)] by auto
    with True EditorEvent inv list_all_take_drop [OF inv(2)] show ?thesis
      by (simp add: client_step_def client_inv_def Let_def)
  next
    case False
    with EditorEvent assms show ?thesis by (auto simp: client_step_def)
  qed
qed (use assms in \<open>auto simp: client_step_def client_inv_def\<close>)

section \<open>What is sent\<close>

fun sent_message :: "client_effect \<Rightarrow> message list" where
  "sent_message (OfDialog (DialogSend m)) = [m]"
| "sent_message (OfList (ListSend m)) = [m]"
| "sent_message (OfEditor (WSend m)) = [m]"
| "sent_message _ = []"

definition sent_messages :: "client_effect list \<Rightarrow> message list" where
  "sent_messages out = concat (map sent_message out)"

definition is_auth :: "message \<Rightarrow> bool" where
  "is_auth m = (message_type_of m = AuthRequest)"

lemma sent_messages_simps [simp]:
  "sent_messages [] = []" "sent_messages (out @ out') = sent_messages out @ sent_messages out'"
  "sent_messages (e # out) = sent_message e @ sent_messages out"
  by (simp_all add: sent_messages_def)

lemma in_sent_messages:
  "m \<in> set (sent_messages (map OfDialog ds)) \<longleftrightarrow> DialogSend m \<in> set ds"
  "m \<in> set (sent_messages (map OfList ls)) \<longleftrightarrow> ListSend m \<in> set ls"
  "m \<in> set (sent_messages (map OfEditor ws)) \<longleftrightarrow> WSend m \<in> set ws"
proof -
  have d: "set (sent_message (OfDialog d)) = {m. d = DialogSend m}" for d by (cases d) auto
  have l: "set (sent_message (OfList l)) = {m. l = ListSend m}" for l by (cases l) auto
  have w: "set (sent_message (OfEditor w)) = {m. w = WSend m}" for w by (cases w) auto
  show "m \<in> set (sent_messages (map OfDialog ds)) \<longleftrightarrow> DialogSend m \<in> set ds" by (induction ds) (auto simp: d)
  show "m \<in> set (sent_messages (map OfList ls)) \<longleftrightarrow> ListSend m \<in> set ls" by (induction ls) (auto simp: l)
  show "m \<in> set (sent_messages (map OfEditor ws)) \<longleftrightarrow> WSend m \<in> set ws" by (induction ws) (auto simp: w)
qed

text \<open>The dialog sends nothing but authentication requests, the other windows none.\<close>

lemma dialog_sends_auth:
  "DialogSend m \<in> set (snd (dialog_widget I wev d)) \<Longrightarrow> is_auth m"
  "DialogSend m \<in> set (snd (dialog_network J Q I ev d)) \<Longrightarrow> is_auth m"
  by (auto simp: dialog_widget_def onLoginClicked_def onRegisterClicked_def startAuth_def reportFailure_def Let_def
      dialog_network_def onConnected_def onDisconnected_def onErrorOccurred_def dialogOnMessage_def is_auth_def
      split: dialog_event.splits network_event.splits if_splits option.splits)

lemma list_sends_no_auth:
  "ListSend m \<in> set (snd (list_widget Q I lev w)) \<Longrightarrow> \<not> is_auth m"
  "ListSend m \<in> set (snd (list_network J Q ev w)) \<Longrightarrow> \<not> is_auth m"
  "ListSend m \<in> set (snd DocumentListWindow) \<Longrightarrow> \<not> is_auth m"
  by (auto simp: list_widget_def list_network_def onNewClicked_def onOpenClicked_def onDeleteClicked_def listOnShareClicked_def
      refresh_def requestJoin_def onMessageReceived_def handleDocListResponse_def handleDocCreateResponse_def
      handleDocJoinResponse_def handleErrorMessage_def listOnDisconnected_def list_andalso_def is_auth_def Let_def
      DocumentListWindow_def split: list_event.splits network_event.splits if_splits option.splits)

definition no_auth :: "ctl_effect \<Rightarrow> bool" where
  "no_auth eff = (\<forall>m. eff = Send m \<longrightarrow> \<not> is_auth m)"

lemma no_auth_simps [simp]:
  "no_auth (sendOp c op)" "no_auth (emitStateLabel c)" "no_auth (RevisionChanged r)" "no_auth (RemoteOperationApplied op)"
  "no_auth (StateChanged l)" "no_auth (FatalError msg)"
  by (simp_all add: no_auth_def sendOp_def emitStateLabel_def is_auth_def)

lemma local_sends_no_auth: "list_all no_auth (snd (onLocalOperations u c ops))"
proof -
  have "list_all no_auth (fst (snd (local_operations u c ops)))"
  proof (induction ops arbitrary: c)
    case (Cons op ops)
    have "list_all no_auth (fst (snd (local_operation u c op)))" by (simp add: local_operation_def Let_def)
    with Cons.IH show ?case by (simp add: split_beta)
  qed simp
  then show ?thesis by (simp add: onLocalOperations_def split_beta)
qed

lemma entries_send_no_auth: "broadcast_entries msg c es = Some (c', out) \<Longrightarrow> list_all no_auth out"
proof (induction es arbitrary: c out)
  case (Cons e es)
  have "broadcast_entry c op = Some (c1, out1) \<Longrightarrow> list_all no_auth out1" for op c1 out1
    by (auto simp: broadcast_entry_def Let_def split: if_splits option.splits prod.splits)
  with Cons show ?case by (fastforce split: bind_splits)
qed simp

lemma network_sends_no_auth: "onNetworkMessage J u c payload = Some (c', out) \<Longrightarrow> list_all no_auth out"
  by (auto simp: onNetworkMessage_def handleAck_def handleBroadcast_def handleError_def Let_def
      split: if_splits option.splits ot_state.splits list.splits bind_splits dest: entries_send_no_auth)

lemma snd_andalso: "snd (andalso f g w) = snd (f w) @ snd (g (fst (f w)))"
  by (simp add: andalso_def split_beta)

lemma closing_sends_no_auth: "WSend m \<in> set (snd (closeEvent w)) \<Longrightarrow> \<not> is_auth m"
  "WSend m \<in> set (snd (closeWithNotice ttl body w)) \<Longrightarrow> \<not> is_auth m"
  by (auto simp: closeEvent_def closeWithNotice_def snd_andalso is_auth_def split: if_splits)

lemma signals_send_no_auth:
  "list_all no_auth effs \<Longrightarrow> WSend m \<in> set (snd (controller_signals Q effs w)) \<Longrightarrow> \<not> is_auth m"
proof (induction effs arbitrary: w)
  case (Cons eff effs)
  have "WSend m \<in> set (snd (controller_signal Q eff w)) \<Longrightarrow> \<not> is_auth m"
    using Cons.prems(1) closing_sends_no_auth
    by (cases eff) (auto simp: controller_signal_def no_auth_def quietly_def onFatalError_def snd_andalso)
  with Cons show ?case by (auto simp: snd_andalso)
qed simp

lemma message_sends_no_auth: "WSend m \<in> set (snd (window_message J Q payload w)) \<Longrightarrow> \<not> is_auth m"
  using closing_sends_no_auth
  by (cases "fst (parse_envelope J payload)")
    (auto simp: window_message_def if_parsed_def handleUserJoined_def handleUserLeft_def handleCursorBroadcast_def
      handleServerShutdown_def handleDocDeleted_def handleRoleChanged_def Let_def split: option.splits if_splits)

lemma win_step_sends_no_auth:
  assumes "win_step J Q ev w = Some (w', out)" "WSend m \<in> set out"
  shows "\<not> is_auth m"
proof (cases ev)
  case (UserEdit new p r a anchor pos)
  then have "WSend m \<in> set (snd (window_edit Q new p r a anchor pos w))" using assms by (simp add: win_step_def)
  then show ?thesis
    by (auto simp: window_edit_def Let_def split_beta split: if_splits dest: signals_send_no_auth [OF local_sends_no_auth])
next
  case (Payload s)
  obtain c effs where ctl: "onNetworkMessage J (ew_user_id w) (ew_ctl w) s = Some (c, effs)"
    and out: "out = snd (andalso (controller_signals Q effs) (window_message J Q s) (w\<lparr>ew_ctl := c\<rparr>))"
    using assms(1) Payload by (auto simp: win_step_def windowOnNetworkMessage_def split: option.splits)
  with assms(2) show ?thesis
    by (auto simp: snd_andalso dest: signals_send_no_auth [OF network_sends_no_auth [OF ctl]] message_sends_no_auth)
next
  case (ConnectionLost reason)
  with assms closing_sends_no_auth(2) show ?thesis
    by (auto simp: win_step_def editorOnDisconnected_def split: if_splits) (metis snd_conv)
qed (use assms closing_sends_no_auth(1) in \<open>auto simp: win_step_def quietly_def closeEvent_def is_auth_def
      onCursorBroadcastTimeout_def editorOnShareClicked_def Let_def split: option.splits if_splits\<close>)

lemma run_editor_sends:
  assumes "run_editor J Q ev w a = Some (a', out)" "m \<in> set (sent_messages out)"
  shows "\<not> is_auth m"
proof -
  obtain w' wout where w: "win_step J Q ev w = Some (w', wout)"
    using assms(1) by (auto simp: run_editor_def split: option.splits)
  with assms have "WSend m \<in> set wout \<or> m = DocListRequestMsg"
    by (auto simp: run_editor_def on_left_document_def refresh_def Let_def in_sent_messages split: if_splits)
  then show ?thesis using win_step_sends_no_auth [OF w] by (auto simp: is_auth_def)
qed

lemma run_editors_send:
  "run_editors J Q ev ws a = Some (a', out) \<Longrightarrow> m \<in> set (sent_messages out) \<Longrightarrow> \<not> is_auth m"
proof (induction ws arbitrary: a out)
  case (Cons w ws)
  obtain a1 out1 out2 where "run_editor J Q ev w a = Some (a1, out1)" "run_editors J Q ev ws a1 = Some (a', out2)" "out = out1 @ out2"
    using Cons.prems(1) by (auto split: option.splits)
  with Cons.IH [of a1 out2] Cons.prems(2) run_editor_sends [of J Q ev w a a1 out1] show ?case by auto
qed simp

text \<open>
  A step sends authentication requests, then others: none of the first after signing in, and none
  of the second before.
\<close>

definition in_order :: "client \<Rightarrow> client \<Rightarrow> client_effect list \<Rightarrow> bool" where
  "in_order c c' out =
     (\<exists>before after. sent_messages out = before @ after \<and> list_all is_auth before \<and> list_all (\<lambda>m. \<not> is_auth m) after
        \<and> (cl_phase c \<noteq> SigningIn \<longrightarrow> before = [] \<and> cl_phase c' \<noteq> SigningIn) \<and> (cl_phase c' = SigningIn \<longrightarrow> after = []))"

lemma in_order_trans:
  assumes "in_order c c1 out1" "in_order c1 c2 out2"
  shows "in_order c c2 (out1 @ out2)"
proof -
  obtain b1 a1 b2 a2 where o: "sent_messages out1 = b1 @ a1" "list_all is_auth b1" "list_all (\<lambda>m. \<not> is_auth m) a1"
    "cl_phase c \<noteq> SigningIn \<longrightarrow> b1 = [] \<and> cl_phase c1 \<noteq> SigningIn" "cl_phase c1 = SigningIn \<longrightarrow> a1 = []"
    "sent_messages out2 = b2 @ a2" "list_all is_auth b2" "list_all (\<lambda>m. \<not> is_auth m) a2"
    "cl_phase c1 \<noteq> SigningIn \<longrightarrow> b2 = [] \<and> cl_phase c2 \<noteq> SigningIn" "cl_phase c2 = SigningIn \<longrightarrow> a2 = []"
    using assms unfolding in_order_def by blast
  have "a1 = [] \<or> b2 = []" using o(5,9) by blast
  then have "sent_messages (out1 @ out2) = (b1 @ b2) @ (a1 @ a2)" using o(1,6) by auto
  moreover have "cl_phase c2 = SigningIn \<longrightarrow> a1 @ a2 = []" using o(5,9,10) by auto
  moreover have "cl_phase c \<noteq> SigningIn \<longrightarrow> b1 @ b2 = [] \<and> cl_phase c2 \<noteq> SigningIn" using o(4,9) by auto
  moreover have "list_all is_auth (b1 @ b2)" "list_all (\<lambda>m. \<not> is_auth m) (a1 @ a2)" using o(2,3,7,8) by auto
  ultimately show ?thesis unfolding in_order_def by blast
qed

lemma in_order_none: "sent_messages out = [] \<Longrightarrow> cl_phase c' = SigningIn \<longrightarrow> cl_phase c = SigningIn \<Longrightarrow> in_order c c' out"
  by (auto simp: in_order_def)

lemma in_order_later:
  "\<forall>m \<in> set (sent_messages out). \<not> is_auth m \<Longrightarrow> cl_phase c' \<noteq> SigningIn \<Longrightarrow> in_order c c' out"
  by (force simp: in_order_def list_all_iff)

lemma in_order_dialog:
  assumes "cl_phase c = SigningIn" "\<And>m. DialogSend m \<in> set (snd (f (cl_dialog c))) \<Longrightarrow> is_auth m"
  shows "in_order c (fst (run_dialog f c)) (snd (run_dialog f c))"
proof -
  have "list_all is_auth (sent_messages (map OfDialog (snd (f (cl_dialog c)))))"
    using assms(2) by (simp add: list_all_iff in_sent_messages)
  moreover have "list_all (\<lambda>m. \<not> is_auth m) (sent_messages (map OfList (snd DocumentListWindow)))"
    using list_sends_no_auth(3) by (auto simp: list_all_iff in_sent_messages)
  ultimately show ?thesis
    using assms(1)
    by (cases "accepted (fst (f (cl_dialog c)))")
      (auto simp: in_order_def run_dialog_def Let_def split_beta)
qed

lemma network_signal_order:
  assumes "client_inv c" "cl_phase c \<noteq> Ended" "network_signal J Q I ev c = Some (c', out)"
  shows "in_order c c' out"
proof (cases "cl_phase c")
  case SigningIn
  have "in_order c (fst (run_dialog (dialog_network J Q I ev) c)) (snd (run_dialog (dialog_network J Q I ev) c))"
    by (rule in_order_dialog [OF SigningIn dialog_sends_auth(2)])
  with SigningIn assms(3) show ?thesis by (simp add: network_signal_def split_beta)
next
  case Working
  have d: "run_dialog (dialog_network J Q I ev) c = (c, [])"
    using assms(1) Working by (simp add: run_dialog_def dialog_silent client_inv_def)
  obtain c2 out2 where c2: "run_list Q (list_network J Q ev) c = (c2, out2)" by fastforce
  then have list: "cl_phase c2 \<noteq> SigningIn" "\<forall>m \<in> set (sent_messages out2). \<not> is_auth m"
    using Working by (auto simp: run_list_def Let_def split_beta in_sent_messages split: if_splits dest: list_sends_no_auth(2))
  show ?thesis
  proof (cases "editor_network ev")
    case None
    with d c2 list assms(3) Working show ?thesis
      by (auto simp: network_signal_def intro!: in_order_later)
  next
    case (Some wev)
    with d c2 assms(3) Working obtain a' out3 ws where
      "run_editors J Q wev ws (cl_app c2\<lparr>app_editors := []\<rparr>) = Some (a', out3)"
      "out = out2 @ out3" "cl_phase c' = cl_phase c2"
      by (auto simp: network_signal_def Let_def split: option.splits)
    with list show ?thesis by (intro in_order_later) (auto dest: run_editors_send)
  qed
qed (use assms in simp)

lemma client_step_order:
  assumes "client_inv c" "client_step J Q I ev c = Some (c', out)"
  shows "in_order c c' out"
proof (cases ev)
  case (NetworkEvent e)
  with assms network_signal_order [OF assms(1)] show ?thesis
    by (auto simp: client_step_def in_order_none split: if_splits)
next
  case (DialogEvent e)
  have "in_order c (fst (run_dialog (dialog_widget I e) c)) (snd (run_dialog (dialog_widget I e) c))" if "cl_phase c = SigningIn"
    by (rule in_order_dialog [OF that dialog_sends_auth(1)])
  with DialogEvent assms(2) show ?thesis by (auto simp: client_step_def in_order_none split: if_splits)
next
  case (ListEvent e)
  with assms(2) list_sends_no_auth(1) show ?thesis
    by (auto simp: client_step_def run_list_def Let_def split_beta in_sent_messages in_order_none intro!: in_order_later split: if_splits)
next
  case (EditorEvent i e)
  with assms(2) show ?thesis
    by (auto simp: client_step_def Let_def in_order_none intro!: in_order_later split: if_splits option.splits dest: run_editor_sends)
qed (use assms(2) in \<open>auto simp: client_step_def intro!: in_order_none split: if_splits\<close>)

section \<open>Properties\<close>

text \<open>The identity of the user comes from the answer that has let the user in.\<close>

definition let_in :: "'j json_api \<Rightarrow> client_event list \<Rightarrow> u32 \<Rightarrow> bool" where
  "let_in J evs u =
     (\<exists>payload auth. NetworkEvent (NetMessage payload) \<in> set evs \<and> parse_auth_response J payload = Some auth
        \<and> ares_success auth \<and> ares_userId auth = u)"

lemma client_step_identity:
  assumes "client_inv c" "client_step J Q I ev c = Some (c', out)" "cl_phase c' = Working"
  shows "(cl_phase c = Working \<and> cl_identity c' = cl_identity c) \<or> let_in J [ev] (fst (cl_identity c'))"
proof (cases "cl_phase c")
  case SigningIn
  then have d0: "\<not> accepted (cl_dialog c)" using assms(1) by (simp add: client_inv_def)
  show ?thesis
  proof (cases ev)
    case (NetworkEvent e)
    obtain d dout where d: "dialog_network J Q I e (cl_dialog c) = (d, dout)" by fastforce
    with assms(2,3) SigningIn NetworkEvent have "accepted d" "cl_identity c' = taken_identity dout (cl_identity c)"
      by (auto simp: client_step_def network_signal_def run_dialog_def Let_def split_beta split: if_splits)
    with dialog_accepts [OF d0 d] NetworkEvent show ?thesis by (auto simp: let_in_def)
  next
    case (DialogEvent e)
    with assms(2,3) SigningIn d0 dialog_widget_accepts [of I e "cl_dialog c"] show ?thesis
      by (auto simp: client_step_def run_dialog_def Let_def split_beta split: if_splits)
  qed (use assms(2,3) SigningIn in \<open>auto simp: client_step_def split: if_splits\<close>)
next
  case Working
  then have d: "run_dialog (dialog_network J Q I e) c = (c, [])" for e
    using assms(1) by (simp add: run_dialog_def dialog_silent client_inv_def)
  have "cl_identity c' = cl_identity c"
  proof (cases ev)
    case (NetworkEvent e)
    with assms(2) d Working show ?thesis
      by (auto simp: client_step_def network_signal_def run_list_def Let_def split_beta split: option.splits if_splits)
  next
    case (ListEvent e)
    with assms(2) Working show ?thesis
      by (auto simp: client_step_def run_list_def Let_def split_beta)
  next
    case (EditorEvent i e)
    with assms(2) show ?thesis by (auto simp: client_step_def Let_def split: option.splits if_splits)
  qed (use assms(2) Working in \<open>auto simp: client_step_def split: if_splits\<close>)
  with Working show ?thesis by simp
next
  case Ended
  with assms(2,3) show ?thesis by (auto simp: client_step_def Let_def split: client_event.splits)
qed

lemma client_run_safe:
  "client_inv c \<Longrightarrow> \<exists>c' out. client_run J Q I evs c = Some (c', out) \<and> client_inv c' \<and> in_order c c' out
     \<and> (cl_phase c' = Working \<longrightarrow>
          (cl_phase c = Working \<and> cl_identity c' = cl_identity c) \<or> let_in J evs (fst (cl_identity c')))"
proof (induction evs arbitrary: c)
  case Nil
  then show ?case by (simp add: in_order_none)
next
  case (Cons ev evs)
  obtain c1 out1 where one: "client_step J Q I ev c = Some (c1, out1)" "client_inv c1"
    using client_step_inv [OF Cons.prems] by blast
  obtain c2 out2 where rest: "client_run J Q I evs c1 = Some (c2, out2)" "client_inv c2" "in_order c1 c2 out2"
    "cl_phase c2 = Working \<longrightarrow> (cl_phase c1 = Working \<and> cl_identity c2 = cl_identity c1) \<or> let_in J evs (fst (cl_identity c2))"
    using Cons.IH [OF one(2)] by blast
  have "in_order c c2 (out1 @ out2)"
    by (rule in_order_trans [OF client_step_order [OF Cons.prems one(1)] rest(3)])
  moreover have "let_in J (ev # evs) u" if "let_in J [ev] u \<or> let_in J evs u" for u
    using that by (auto simp: let_in_def)
  ultimately show ?case
    using one rest client_step_identity [OF Cons.prems one(1)] by auto
qed

text \<open>
  C19: the client is safe in any run. Whatever the user does and whatever comes from the network, no
  window reads an empty optional; the messages the client sends are first requests to sign in and
  then others, and none of the others before it is signed in; then its identity is the one in an
  answer of the server that reported success, and every editor window has been opened with it.
\<close>

theorem client_runs_safely:
  "\<exists>c out. client_run J Q I evs (client_start s) = Some (c, out)
    \<and> (\<exists>before after. sent_messages out = before @ after \<and> list_all is_auth before \<and> list_all (\<lambda>m. \<not> is_auth m) after
        \<and> (cl_phase c = SigningIn \<longrightarrow> after = []))
    \<and> (cl_phase c = Working \<longrightarrow> let_in J evs (fst (cl_identity c)))
    \<and> list_all (\<lambda>w. ew_user_id w = fst (cl_identity c) \<and> ctl_inv (ew_ctl w)) (app_editors (cl_app c))"
proof -
  obtain c out where run: "client_run J Q I evs (client_start s) = Some (c, out)" "client_inv c"
    "in_order (client_start s) c out"
    "cl_phase c = Working \<longrightarrow> cl_phase (client_start s) = Working \<and> cl_identity c = cl_identity (client_start s)
       \<or> let_in J evs (fst (cl_identity c))"
    using client_run_safe [OF client_inv_start] by blast
  have "list_all (\<lambda>w. ew_user_id w = fst (cl_identity c) \<and> ctl_inv (ew_ctl w)) (app_editors (cl_app c))"
    using run(2) by (simp add: client_inv_def window_inv_def list_all_iff)
  with run show ?thesis by (auto simp: in_order_def client_start_def)
qed

text \<open>Eve signs in, and the list of documents appears.\<close>

definition example_input :: qt_input where
  "example_input = \<lparr>trimmed = (\<lambda>s. s), toUInt = (\<lambda>_. 9000)\<rparr>"

abbreviation eve_answer :: string where
  "eve_answer \<equiv> print (to_json json_text (AuthResponseMsg \<lparr>ares_success = True, ares_userId = 5, ares_error = []\<rparr>))"

definition eve_events :: "client_event list" where
  "eve_events = [DialogEvent (DialogTyped (qlit ''host'') (qlit ''9000'') (qlit ''eve'') (qlit ''pw'')), DialogEvent LoginClicked,
     NetworkEvent NetConnected, NetworkEvent (NetMessage eve_answer)]"

theorem client_runs_safely_witness:
  "\<exists>c out. client_run json_text unicode_qt example_input eve_events (client_start default_settings) = Some (c, out)
    \<and> cl_phase c = Working \<and> let_in json_text eve_events (fst (cl_identity c))"
proof -
  have s: "serialize json_text (AuthResponseMsg \<lparr>ares_success = True, ares_userId = 5, ares_error = []\<rparr>) = Some eve_answer"
    using example_json(2) by simp
  have "fst (parse_envelope json_text eve_answer) = AuthResponse"
    "parse_auth_response json_text eve_answer = Some \<lparr>ares_success = True, ares_userId = 5, ares_error = []\<rparr>"
    using json_text.parse_envelope_serialized [OF s] json_text.parse_serialized [OF s]
      json_text.AuthResponse_roundtrip [of "\<lparr>ares_success = True, ares_userId = 5, ares_error = []\<rparr>"]
    by (simp_all add: parse_auth_response_def parse_as_def)
  then have "\<exists>c out. client_run json_text unicode_qt example_input eve_events (client_start default_settings) = Some (c, out)
      \<and> cl_phase c = Working"
    by (simp add: eve_events_def client_step_def network_signal_def run_dialog_def dialog_widget_def dialog_network_def
        client_start_def ConnectionDialog_def loadSettings_def onLoginClicked_def startAuth_def example_input_def host_def port_def
        username_def setInputsEnabled_def onConnected_def dialogOnMessage_def persistSettings_def qlit_def DocumentListWindow_def
        refresh_def default_settings_def Let_def)
  then show ?thesis
    using client_runs_safely [where J = json_text and Q = unicode_qt and I = example_input and evs = eve_events and s = default_settings]
    by auto
qed

end
