(* ===== verification/Collab_Opening.thy ===== *)
theory Collab_Opening
  imports Collab_Transport_Props Client_App
begin

text \<open>
  From signing in to an open document: the dialog and the list of documents of the client together
  with the server's handlers. A sign-in leaves both sides with the same user, and opening a
  document leaves client, connection and document session in the state from which
  \<^verbatim>\<open>Collab_Transport\<close> starts.
\<close>

section \<open>Signing in\<close>

lemma send_msg_sent:
  assumes "serialize (json E) m = Some q"
  shows "\<not> snd (send_msg E sv k m)" "sent (fst (send_msg E sv k m)) = sent sv @ [(k, m)]"
    "conn (fst (send_msg E sv k m)) k = fst (send (conn sv k) q)"
  using assms by (simp_all add: send_msg_def)

text \<open>The answer to a request of the dialog.\<close>

lemma handle_auth_answer:
  assumes "json_library (json E)" "serialize (json E) (AuthRequestMsg req) = Some p"
    and "areq_action req \<in> {''login'', ''register''}" "\<And>a. serialize (json E) (AuthResponseMsg a) \<noteq> None"
  shows "\<exists>a sv'. handle_message E sv k p = (sv', False) \<and> sent sv' = sent sv @ [(k, AuthResponseMsg a)]
    \<and> canonical (AuthResponseMsg a)
    \<and> (if ares_success a
       then authenticated (conn sv' k) \<and> cs_userId (conn sv' k) = ares_userId a
         \<and> cs_username (conn sv' k) = areq_username req
         \<and> find_user_id (auth sv') (areq_username req) = Some (ares_userId a)
       else authenticated (conn sv' k) = authenticated (conn sv k) \<and> cs_userId (conn sv' k) = cs_userId (conn sv k)
         \<and> auth sv' = auth sv)"
proof -
  have req: "from_json_AuthRequest (json E) (to_json (json E) (AuthRequestMsg req)) = Some req"
    using json_values.AuthRequest_roundtrip [OF json_library.axioms(1) [OF assms(1)]] by simp
  let ?res = "if areq_action req = ''register''
    then register_user (digest E) (rnd E) (auth sv) (areq_username req) (areq_password req)
    else (auth sv, login (digest E) (auth sv) (areq_username req) (areq_password req))"
  obtain a' result where res: "?res = (a', result)" by fastforce
  have found: "find_user_id a' (areq_username req) = Some (auth_userId result)" if "auth_success result"
  proof (cases "areq_action req = ''register''")
    case True
    with res that login_after_register(4) [of "digest E" "rnd E" "auth sv" "areq_username req" "areq_password req"]
    show ?thesis by simp
  next
    case False
    with res that show ?thesis by (auto simp: login_def find_user_id_def split: option.splits if_splits)
  qed
  have kept: "a' = auth sv" if "\<not> auth_success result"
    using res that by (auto simp: register_user_def Let_def split: if_splits)
  define a where "a = \<lparr>ares_success = auth_success result, ares_userId = (if auth_success result then auth_userId result else 0),
    ares_error = (if auth_success result then [] else if auth_error result = ''duplicate_username'' then ''username_taken''
      else auth_error result)\<rparr>"
  define sv0 where "sv0 = (if auth_success result
    then put_conn (sv\<lparr>auth := a'\<rparr>) k (set_auth (conn sv k) (auth_userId result) (areq_username req)
      (generate_color (fused E) (auth_userId result)))
    else sv\<lparr>auth := a'\<rparr>)"
  obtain q where q: "serialize (json E) (AuthResponseMsg a) = Some q" using assms(4) by blast
  note sent = send_msg_sent [where E = E, OF q, of sv0 k]
  have "handle_auth_request E sv k (to_json (json E) (AuthRequestMsg req)) = send_msg E sv0 k (AuthResponseMsg a)"
    using req res assms(3) by (auto simp: handle_auth_request_def Let_def a_def sv0_def split: prod.splits)
  then have "handle_message E sv k p = (fst (send_msg E sv0 k (AuthResponseMsg a)), False)"
    using handle_message_request [OF assms(1,2)] sent(1) by (simp add: dispatch_def split_beta)
  moreover have "sent sv0 = sent sv" "auth sv0 = a'" by (simp_all add: sv0_def)
  moreover have "if ares_success a
      then authenticated (conn sv0 k) \<and> cs_userId (conn sv0 k) = ares_userId a \<and> cs_username (conn sv0 k) = areq_username req
        \<and> find_user_id a' (areq_username req) = Some (ares_userId a)
      else authenticated (conn sv0 k) = authenticated (conn sv k) \<and> cs_userId (conn sv0 k) = cs_userId (conn sv k) \<and> a' = auth sv"
    using found kept by (simp add: a_def sv0_def set_auth_def)
  moreover have "canonical (AuthResponseMsg a)" by (simp add: a_def)
  ultimately show ?thesis
    using sent(2) by (intro exI [of _ a] exI [of _ "fst (send_msg E sv0 k (AuthResponseMsg a))"]) simp
qed

section \<open>Opening a document\<close>

text \<open>What the server answers when it lets user \<open>u\<close> into document \<open>D\<close>.\<close>

definition join_response :: "document_manager \<Rightarrow> u32 \<Rightarrow> u32 \<Rightarrow> document_session \<Rightarrow> doc_join_response_msg" where
  "join_response m D u ds =
     (let d = deref m (ds_docref ds)
      in \<lparr>djres_success = True, djres_docId = D, djres_title = title d, djres_content = get_content d,
          djres_revision = revision d, djres_role = role_to_string m D u,
          djres_users = map (\<lambda>cu. \<lparr>ui_userId = cu_userId cu, ui_username = cu_username cu, ui_color = cu_color cu\<rparr>) (connected_users ds),
          djres_error = []\<rparr>)"

lemma join_request_effect:
  assumes "json_library (json E)" "serialize (json E) (DocJoinRequestMsg \<lparr>djreq_docId = D\<rparr>) = Some p"
    and "authenticated (conn sv k)" "can_read (access (dm sv)) D (cs_userId (conn sv k))"
    and "get_document (dm sv) D = (m1, Some (ds_docref ds))" "get_or_create_session m1 D = (m2, Some ds)"
    and "serialize (json E) (DocJoinResponseMsg (join_response m2 D (cs_userId (conn sv k)) ds)) = Some q"
  shows "\<exists>cmd sv1. handle_message E sv k p = (sv1, False) \<and> cmd_type cmd = JoinCmd \<and> cmd_userId cmd = cs_userId (conn sv k)
    \<and> cmd_session cmd = Some k \<and> dm sv1 = enqueue_to m2 D cmd
    \<and> conn sv1 k = fst (send (set_current_doc (conn sv k) D) q)
    \<and> sent sv1 = sent sv @ [(k, DocJoinResponseMsg (join_response m2 D (cs_userId (conn sv k)) ds))]"
proof -
  have j: "from_json_DocJoinRequest (json E) (to_json (json E) (DocJoinRequestMsg \<lparr>djreq_docId = D\<rparr>)) = Some \<lparr>djreq_docId = D\<rparr>"
    using json_values.DocJoinRequest_roundtrip [OF json_library.axioms(1) [OF assms(1)]] by simp
  let ?cmd = "(DocCommand JoinCmd)\<lparr>cmd_userId := cs_userId (conn sv k), cmd_username := cs_username (conn sv k),
    cmd_color := cs_color (conn sv k), cmd_session := Some k\<rparr>"
  let ?m = "DocJoinResponseMsg (join_response m2 D (cs_userId (conn sv k)) ds)"
  let ?sv = "fst (send_msg E (put_conn (sv\<lparr>dm := m2\<rparr>) k (set_current_doc (conn sv k) D)) k ?m)"
  have "dispatch E sv k DocJoinRequest (to_json (json E) (DocJoinRequestMsg \<lparr>djreq_docId = D\<rparr>)) =
      (?sv\<lparr>dm := enqueue_to (dm ?sv) D ?cmd\<rparr>, False)"
    using j assms(4-7)
    by (simp add: dispatch_def handle_doc_join_def Let_def join_response_def andthen_def send_msg_def set_current_doc_def)
  then show ?thesis
    using handle_message_request [OF assms(1,2), of sv k] assms(3,7)
    by (auto simp: send_msg_def DocCommand_def split: option.splits intro!: exI [of _ ?cmd])
qed

text \<open>The session puts the user into its table, and tells the others.\<close>

lemma join_processed:
  assumes "alive k" "cmd_type cmd = JoinCmd" "cmd_session cmd = Some k" "um_wf (users_online ds)"
    and "\<forall>v user. um_find (users_online ds) v = Some user \<and> cu_session user = Some k \<longrightarrow> v = cmd_userId cmd"
    and "process_command alive (ds, d) cmd = ((ds', d'), out)"
  shows "command_queue ds' = command_queue ds" "ds_docref ds' = ds_docref ds" "um_wf (users_online ds')"
    "only_user ds' (cmd_userId cmd) k" "to_conn k out = []" "doc_id d' = doc_id d" "represents d' = represents d"
    "content d' = content d" "revision d' = revision d"
proof -
  show "command_queue ds' = command_queue ds" "ds_docref ds' = ds_docref ds" and wf: "um_wf (users_online ds')"
    and only: "only_user ds' (cmd_userId cmd) k" and "doc_id d' = doc_id d" "represents d' = represents d"
    "content d' = content d" "revision d' = revision d"
    using assms(2-6)
    by (auto simp: process_command_def handle_join_def Let_def umap only_user_def subscribe_def represents_def fun_eq_iff
        split: if_splits)
  show "to_conn k out = []"
    using to_conn_broadcast [of alive, OF assms(1) wf only] assms(2,6)
    by (auto simp: process_command_def handle_join_def Let_def)
qed

text \<open>The controller of a new editor window.\<close>

lemma EditorWindow_ctl:
  "ew_ctl (EditorWindow Q u uname initial) = OTController (LocalDocument (djres_content initial) (djres_revision initial))
     (djres_docId initial) (djres_revision initial)"
  by (simp add: EditorWindow_def Let_def onCursorPositionChanged_def applyRole_def scheduleCursorBroadcast_def with_editor_def)

text \<open>The connection has nothing to do: no part of a frame is read, and nothing is being written.\<close>

definition idle_conn :: "client_session \<Rightarrow> bool" where
  "idle_conn s = (authenticated s \<and> \<not> disconnected s \<and> reading s = ReadHeader [] \<and> write_queue s = [] \<and> \<not> writing s)"

section \<open>Properties\<close>



text \<open>Eve registers, and opens the document she owns, in which nobody is.\<close>

definition example_dialog :: connection_dialog where
  "example_dialog = (ConnectionDialog default_settings)
     \<lparr>username_edit := [0x65], password_edit := [0x70], pending_action := qlit ''register'', inputs_enabled := False\<rparr>"


definition opening_server :: server where
  "opening_server = editing_server\<lparr>conns := [(1, set_auth (start_session (ClientSession 1)) 5 ''eve'' ''#000000'')]\<rparr>"

abbreviation opening_answer :: doc_join_response_msg where
  "opening_answer \<equiv> \<lparr>djres_success = True, djres_docId = 1, djres_title = ''notes'', djres_content = [], djres_revision = 0,
     djres_role = ''owner'', djres_users = [], djres_error = []\<rparr>"

lemma opening_server_docs:
  "dm_inv (dm opening_server)" "get_document (dm opening_server) 1 = (dm opening_server, Some 0)"
  "get_or_create_session (dm opening_server) 1 = (dm opening_server, Some (DocumentSession 0))"
  "deref (dm opening_server) 0 = Document 1 ''notes''" "access (dm opening_server) = grant [] 1 5 Owner"
proof -
  have "dm_inv (fst (get_or_create_session (fst (create_document (\<lambda>_. True) (DocumentManager [] ''data'' [] []) ''notes'' 5)) 1))"
    by (intro get_or_create_session_inv create_document_inv dm_inv_init)
      (simp_all add: um_wf_def DocumentManager_def create_directories_def)
  then show "dm_inv (dm opening_server)" by (simp add: opening_server_def editing_server_def)
qed (simp_all add: opening_server_def editing_server_def get_document_def get_or_create_session_def create_document_def
    save_meta_def DocumentManager_def create_directories_def Let_def umap deref_def)

lemma opening_server_conn:
  "idle_conn (conn opening_server 1)" "cs_userId (conn opening_server 1) = 5"
  by (simp_all add: opening_server_def conn_def um_find_def idle_conn_def set_auth_def start_session_def do_read_header_def
      ClientSession_def)

lemma opening_answer: "join_response (dm opening_server) 1 5 (DocumentSession 0) = opening_answer"
  by (simp add: join_response_def opening_server_docs Let_def Document_def get_content_def role_to_string_def DocumentSession_def
      connected_users_def) (simp add: acl_laws)


end
