(* ===== verification/Collab_Limits.thy ===== *)
theory Collab_Limits
  imports Collab_Transport_Props
begin

text \<open>
  Where the assumptions of \<^verbatim>\<open>Collab_System\<close> end: a user who is connected twice, and a user whose
  rights are taken away while the document is open.
\<close>

section \<open>One user on two connections\<close>

text \<open>
  The table of a document session has one connection per user. Joining a second time replaces the
  first connection, which is told nothing any more.
\<close>

lemma second_join_replaces:
  assumes "um_wf (users_online ds)" "only_user ds u k1" "cmd_type cmd = JoinCmd" "cmd_userId cmd = u" "cmd_session cmd = Some k2"
    and "k2 \<noteq> k1" "\<And>v. \<not> connected ds v k2" "process_command alive (ds, d) cmd = ((ds', d'), out)"
  shows "only_user ds' u k2" "\<not> connected ds' v k1"
proof -
  have k1: "um_find (users_online ds) w = Some user \<Longrightarrow> cu_session user = Some k1 \<longleftrightarrow> w = u" for w user
    using assms(2) by (simp add: only_user_def)
  have k2: "um_find (users_online ds) w = Some user \<Longrightarrow> cu_session user \<noteq> Some k2" for w user
    using assms(7) by (auto simp: connected_def)
  show "only_user ds' u k2" "\<not> connected ds' v k1"
    using assms k1 k2
    by (auto simp: process_command_def handle_join_def Let_def only_user_def connected_def umap split: if_splits)
qed

text \<open>
  An edit of the first connection is then acknowledged to the second, which has not made it and is
  not sent it. The second client goes to the new revision without the edit: it counts as
  synchronized and shows another text than the server.
\<close>

lemma second_window_diverges:
  assumes "json_library J" "alive k2" "um_wf (users_online ds)" "only_user ds u k2" "\<And>v. \<not> connected ds v k1" 
    and "cmd_type cmd = OperationCmd" "cmd_userId cmd = u" "ot_success (snd (apply_with_ot d (cmd_operation cmd)))"
    and "process_command alive (ds, d) cmd = ((ds', d'), out)"
    and "ctl_state c = Synchronized" "ctl_doc_id c = doc_id d" "ld_content (ctl_doc c) = content d" "content d' \<noteq> content d"
    and "serialize J (OperationAckMsg \<lparr>ack_docId = doc_id d, ack_revision = revision d'\<rparr>) = Some p"
  shows "to_conn k1 out = [] \<and> to_conn k2 out = [OperationAckMsg \<lparr>ack_docId = doc_id d, ack_revision = revision d'\<rparr>]
    \<and> (\<exists>c' effs. onNetworkMessage J u c p = Some (c', effs) \<and> ctl_state c' = Synchronized \<and> ctl_revision c' = revision d'
        \<and> ld_content (ctl_doc c') \<noteq> content d')"
proof -
  obtain d1 r where ot: "apply_with_ot d (cmd_operation cmd) = (d1, r)" by fastforce
  then have id1: "doc_id d1 = doc_id d" by (metis apply_with_ot_frame(1) fst_conv)
  have res: "d' = d1" "ds' = ds" and out: "out = send_to_user alive ds u (OperationAckMsg \<lparr>ack_docId = doc_id d, ack_revision = revision d1\<rparr>)
      @ broadcast alive ds (OperationBroadcastMsg \<lparr>ob_docId = doc_id d, ob_userId = u, ob_username = cmd_username cmd,
          ob_revision = revision d1, ob_ops = [operation_entry (transformed_op r)]\<rparr>) u"
    using assms(6-9) ot id1 by (auto simp: process_command_def handle_operation_cmd_def)
  have "(k1, m) \<notin> set out" for m
    using assms(3,5) by (auto simp: out in_send_to_user in_broadcast)
  then have "to_conn k1 out = []" by (auto simp: to_conn_def filter_empty_conv)
  moreover have "to_conn k2 out = [OperationAckMsg \<lparr>ack_docId = doc_id d, ack_revision = revision d'\<rparr>]"
    using to_conn_send [where alive = alive, OF assms(2,4)] to_conn_broadcast [where alive = alive, OF assms(2,3,4)]
    by (simp add: out res)
  moreover have "parse_envelope J p = (OperationAck, p)"
    "parse_as J (from_json_OperationAck J) p = Some \<lparr>ack_docId = doc_id d, ack_revision = revision d'\<rparr>"
    using json_library.parse_envelope_serialized [OF assms(1,14)] json_library.parse_serialized [OF assms(1,14)]
      json_values.OperationAck_roundtrip [OF json_library.axioms(1) [OF assms(1)]]
    by (simp_all add: parse_as_def)
  ultimately show ?thesis
    using assms(10-13)
    by (auto simp: onNetworkMessage_def handleAck_def Let_def ld_set_revision_def)
qed

section \<open>Rights taken away\<close>

text \<open>
  When the owner takes all rights from a user who has the document open, the user stays in the
  table of the session: every later edit of another user is still sent to them.
\<close>

lemma revoked_user_still_listens:
  assumes "from_json_DocShareRequest (json E) j = Some \<lparr>dsreq_docId = D, dsreq_targetUsername = name, dsreq_role = ''none''\<rparr>"
    and "can_share (access (dm sv)) D (cs_userId (conn sv i))" "find_user_id (auth sv) name = Some u" "u \<noteq> cs_userId (conn sv i)"
    and "um_wf (access (dm sv))" "get_session (dm sv) D = Some ds" "connected ds u k" "alive k" "um_wf (users_online ds)"
    and "sv' = fst (handle_doc_share E sv i j)"
  shows "\<not> can_read (access (dm sv')) D u \<and> get_session (dm sv') D = Some ds
    \<and> (\<forall>m v. v \<noteq> u \<longrightarrow> (k, m) \<in> set (broadcast alive ds m v))"
proof -
  have "dm sv' = (dm sv)\<lparr>access := revoke (access (dm sv)) D u\<rparr>"
    using assms(1-4,10) by (auto simp: handle_doc_share_def andthen_def Let_def split: option.splits)
  then show ?thesis
    using assms(5-9) by (auto simp: permissions acl_laws get_session_def in_broadcast intro!: exI [of _ u])
qed

end
