(* ===== verification/Collab_Mpsc.thy ===== *)
theory Collab_Mpsc
  imports Collab_Fifo
begin

text \<open>
  The lock-free queue between the threads, \<^verbatim>\<open>core/include/collab/mpsc_queue.h\<close>: many producers, one
  consumer, a linked list with a sentinel, and hazard pointers that keep a node from being freed
  while a producer may still look at it.

  Every access to shared memory is one step, and the steps of the threads interleave in any order
  (a sequentially consistent memory). Nodes live in a heap of optional cells; \<^verbatim>\<open>delete\<close> empties a
  cell, \<^verbatim>\<open>new\<close> may return any empty cell, also one used before, and looking into an empty cell is a
  fault. The template parameter \<^verbatim>\<open>MaxProducers\<close> is \<open>N\<close>. Running out of hazard slots aborts the
  program. Two logs of the values, in the order they enter and leave the list, are not part of
  the program.
\<close>

section \<open>State\<close>

record 'a node =
  nd_data :: "'a option"
  nd_next :: "nat option"

text \<open>Where a producer is in \<^verbatim>\<open>enqueue\<close>; the argument is its local \<^verbatim>\<open>t\<close>, then \<^verbatim>\<open>t_next\<close>.\<close>

datatype prod_pc =
  PIdle
  | PLoadTail
  | PStoreHazard nat
  | PCheckTail nat
  | PLoadNext nat
  | PHelpTail nat nat
  | PLink nat
  | PSwingTail nat
  | PClear

text \<open>\<open>p_slot\<close> is the entry for this queue in the thread's \<^verbatim>\<open>slot_cache_\<close>.\<close>

record producer =
  p_pc :: prod_pc
  p_node :: nat
  p_slot :: "nat option"

text \<open>Where the consumer is in \<^verbatim>\<open>try_dequeue\<close> and in \<^verbatim>\<open>try_reclaim_\<close>.\<close>

datatype cons_pc =
  CIdle
  | CLoadTail nat nat
  | CHelpTail nat nat
  | CTake nat nat
  | CReclaim
  | CScan nat nat "nat list"
  | CFree "nat list" "nat list" "nat list"

record 'a mpsc =
  mq_heap :: "nat \<Rightarrow> 'a node option"
  mq_tail :: nat
  slots_used :: nat
  hazards :: "nat \<Rightarrow> nat option"
  mq_head :: nat
  retired :: "nat list"
  prods :: "nat \<Rightarrow> producer"
  consumer :: cons_pc
  enq_log :: "'a list"
  deq_log :: "'a list"

datatype 'a mq_result = Next "'a mpsc" | Aborted | Fault

section \<open>Steps\<close>

text \<open>The constructor, at the address of the sentinel; threads may bring cached slots along.\<close>

definition MPSCQueue :: "nat \<Rightarrow> (nat \<Rightarrow> nat option) \<Rightarrow> 'a mpsc" where
  "MPSCQueue sentinel cache =
     \<lparr>mq_heap = [sentinel \<mapsto> \<lparr>nd_data = None, nd_next = None\<rparr>], mq_tail = sentinel, slots_used = 0,
      hazards = (\<lambda>_. None), mq_head = sentinel, retired = [],
      prods = (\<lambda>p. \<lparr>p_pc = PIdle, p_node = 0, p_slot = cache p\<rparr>), consumer = CIdle,
      enq_log = [], deq_log = []\<rparr>"

definition goto :: "nat \<Rightarrow> prod_pc \<Rightarrow> 'a mpsc \<Rightarrow> 'a mpsc" where
  "goto p pc q = q\<lparr>prods := (prods q)(p := (prods q p)\<lparr>p_pc := pc\<rparr>)\<rparr>"

text \<open>
  The beginning of \<^verbatim>\<open>enqueue\<close>: the new node, at the empty cell \<open>a\<close>, and \<^verbatim>\<open>acquire_slot_\<close>.
\<close>

definition start_enqueue :: "nat \<Rightarrow> nat \<Rightarrow> nat \<Rightarrow> 'a \<Rightarrow> 'a mpsc \<Rightarrow> 'a mq_result" where
  "start_enqueue N p a x q =
     (let q = q\<lparr>mq_heap := (mq_heap q)(a \<mapsto> \<lparr>nd_data = Some x, nd_next = None\<rparr>)\<rparr>
      in case p_slot (prods q p) of
           Some s \<Rightarrow> Next (q\<lparr>prods := (prods q)(p := \<lparr>p_pc = PLoadTail, p_node = a, p_slot = Some s\<rparr>)\<rparr>)
         | None \<Rightarrow>
             (let s = slots_used q; q = q\<lparr>slots_used := s + 1\<rparr>
              in if N \<le> s then Aborted
                 else Next (q\<lparr>prods := (prods q)(p := \<lparr>p_pc = PLoadTail, p_node = a, p_slot = Some s\<rparr>)\<rparr>)))"

definition slot_of :: "'a mpsc \<Rightarrow> nat \<Rightarrow> nat" where
  "slot_of q p = (case p_slot (prods q p) of Some s \<Rightarrow> s | None \<Rightarrow> 0)"

definition set_hazard :: "nat \<Rightarrow> nat option \<Rightarrow> 'a mpsc \<Rightarrow> 'a mpsc" where
  "set_hazard s h q = q\<lparr>hazards := (hazards q)(s := h)\<rparr>"

definition cas_tail :: "nat \<Rightarrow> nat \<Rightarrow> 'a mpsc \<Rightarrow> 'a mpsc" where
  "cas_tail expected desired q = (if mq_tail q = expected then q\<lparr>mq_tail := desired\<rparr> else q)"

text \<open>The next step of producer \<open>p\<close> inside \<^verbatim>\<open>enqueue\<close>.\<close>

definition producer_step :: "nat \<Rightarrow> 'a mpsc \<Rightarrow> 'a mq_result" where
  "producer_step p q =
     (case p_pc (prods q p) of
        PIdle \<Rightarrow> Next q
      | PLoadTail \<Rightarrow> Next (goto p (PStoreHazard (mq_tail q)) q)
      | PStoreHazard t \<Rightarrow> Next (goto p (PCheckTail t) (set_hazard (slot_of q p) (Some t) q))
      | PCheckTail t \<Rightarrow> Next (goto p (if t = mq_tail q then PLoadNext t else PLoadTail) q)
      | PLoadNext t \<Rightarrow>
          (case mq_heap q t of
             None \<Rightarrow> Fault
           | Some nd \<Rightarrow> Next (goto p (case nd_next nd of Some t_next \<Rightarrow> PHelpTail t t_next | None \<Rightarrow> PLink t) q))
      | PHelpTail t t_next \<Rightarrow> Next (goto p PLoadTail (cas_tail t t_next q))
      | PLink t \<Rightarrow>
          (case mq_heap q t of
             None \<Rightarrow> Fault
           | Some nd \<Rightarrow>
               if nd_next nd = None then
                 Next (goto p (PSwingTail t) (q\<lparr>
                   mq_heap := (mq_heap q)(t \<mapsto> nd\<lparr>nd_next := Some (p_node (prods q p))\<rparr>),
                   enq_log := enq_log q @ (case mq_heap q (p_node (prods q p)) of
                      Some new \<Rightarrow> (case nd_data new of Some x \<Rightarrow> [x] | None \<Rightarrow> []) | None \<Rightarrow> [])\<rparr>))
               else Next (goto p PLoadTail q))
      | PSwingTail t \<Rightarrow> Next (goto p PClear (cas_tail t (p_node (prods q p)) q))
      | PClear \<Rightarrow> Next (goto p PIdle (set_hazard (slot_of q p) None q)))"

text \<open>
  The next step of the consumer. \<open>CTake\<close> moves the value out of the next node, makes that node the
  new sentinel and retires the old one; the loop of \<^verbatim>\<open>try_reclaim_\<close> reads the hazard slots one by
  one and then frees the retired nodes that were not found there.
\<close>

definition consumer_step :: "nat \<Rightarrow> 'a mpsc \<Rightarrow> 'a mq_result" where
  "consumer_step N q =
     (case consumer q of
        CIdle \<Rightarrow>
          (case mq_heap q (mq_head q) of
             None \<Rightarrow> Fault
           | Some nd \<Rightarrow>
               (case nd_next nd of
                  None \<Rightarrow> Next q
                | Some nx \<Rightarrow> Next (q\<lparr>consumer := CLoadTail (mq_head q) nx\<rparr>)))
      | CLoadTail h nx \<Rightarrow> Next (q\<lparr>consumer := (if mq_tail q = h then CHelpTail h nx else CTake h nx)\<rparr>)
      | CHelpTail h nx \<Rightarrow> Next ((cas_tail h nx q)\<lparr>consumer := CTake h nx\<rparr>)
      | CTake h nx \<Rightarrow>
          (case mq_heap q nx of
             None \<Rightarrow> Fault
           | Some nd \<Rightarrow>
               Next (q\<lparr>deq_log := deq_log q @ (case nd_data nd of Some x \<Rightarrow> [x] | None \<Rightarrow> []),
                       mq_heap := (mq_heap q)(nx \<mapsto> nd\<lparr>nd_data := None\<rparr>), mq_head := nx,
                       retired := h # retired q,
                       consumer := (if 2 * N \<le> length (h # retired q) then CReclaim else CIdle)\<rparr>))
      | CReclaim \<Rightarrow> Next (q\<lparr>consumer := CScan (min (slots_used q) N) 0 []\<rparr>)
      | CScan used i snapshot \<Rightarrow>
          if i < used then
            Next (q\<lparr>consumer := CScan used (i + 1)
              (case hazards q i of Some p \<Rightarrow> snapshot @ [p] | None \<Rightarrow> snapshot)\<rparr>)
          else Next (q\<lparr>consumer := CFree (retired q) [] snapshot, retired := []\<rparr>)
      | CFree cur survivors snapshot \<Rightarrow>
          (case cur of
             [] \<Rightarrow> Next (q\<lparr>retired := survivors, consumer := CIdle\<rparr>)
           | c # cs \<Rightarrow>
               if mq_heap q c = None then Fault
               else if c \<in> set snapshot then Next (q\<lparr>consumer := CFree cs (c # survivors) snapshot\<rparr>)
               else Next (q\<lparr>mq_heap := (mq_heap q)(c := None), consumer := CFree cs survivors snapshot\<rparr>)))"

text \<open>A run: threads begin to enqueue values, and producers and the consumer take steps.\<close>

inductive mq_step :: "nat \<Rightarrow> 'a mpsc \<Rightarrow> 'a mq_result \<Rightarrow> bool" for N where
  begin_enqueue: "p_pc (prods q p) = PIdle \<Longrightarrow> mq_heap q a = None \<Longrightarrow> mq_step N q (start_enqueue N p a x q)"
| producer: "mq_step N q (producer_step p q)"
| consume: "mq_step N q (consumer_step N q)"

inductive mq_reach :: "nat \<Rightarrow> 'a mpsc \<Rightarrow> 'a mpsc \<Rightarrow> bool" for N q0 where
  mq_start: "mq_reach N q0 q0"
| mq_next: "mq_reach N q0 q \<Longrightarrow> mq_step N q (Next q') \<Longrightarrow> mq_reach N q0 q'"

section \<open>The invariant\<close>

definition succ_of :: "(nat \<Rightarrow> 'a node option) \<Rightarrow> nat \<Rightarrow> nat option" where
  "succ_of H a = (case H a of Some nd \<Rightarrow> nd_next nd | None \<Rightarrow> None)"

text \<open>The list from the sentinel to the last node.\<close>

fun linked :: "(nat \<Rightarrow> 'a node option) \<Rightarrow> nat list \<Rightarrow> bool" where
  "linked H [] = False"
| "linked H [a] = (H a \<noteq> None \<and> succ_of H a = None)"
| "linked H (a # b # as) = (H a \<noteq> None \<and> succ_of H a = Some b \<and> linked H (b # as))"

text \<open>Retired nodes, also while they are being freed.\<close>

fun in_limbo :: "cons_pc \<Rightarrow> nat list \<Rightarrow> nat list" where
  "in_limbo (CFree cur survivors _) rs = cur @ survivors @ rs"
| "in_limbo _ rs = rs"

definition limbo :: "'a mpsc \<Rightarrow> nat list" where
  "limbo q = in_limbo (consumer q) (retired q)"

text \<open>The node a producer looks at under the protection of its hazard slot.\<close>

definition guarded :: "prod_pc \<Rightarrow> nat option" where
  "guarded pc = (case pc of PLoadNext t \<Rightarrow> Some t | PHelpTail t _ \<Rightarrow> Some t | PLink t \<Rightarrow> Some t
     | PSwingTail t \<Rightarrow> Some t | _ \<Rightarrow> None)"

definition watched :: "prod_pc \<Rightarrow> nat option" where
  "watched pc = (case pc of PCheckTail t \<Rightarrow> Some t | _ \<Rightarrow> guarded pc)"

text \<open>The producer's node is not yet in the list.\<close>

definition owning :: "prod_pc \<Rightarrow> bool" where
  "owning pc = (pc \<noteq> PIdle \<and> pc \<noteq> PClear \<and> (\<forall>t. pc \<noteq> PSwingTail t))"

text \<open>A scan in progress will find, or has found, node \<open>t\<close> in slot \<open>s\<close>.\<close>

fun scanned :: "cons_pc \<Rightarrow> nat \<Rightarrow> nat \<Rightarrow> bool" where
  "scanned (CScan used i snapshot) s t = (i \<le> s \<and> s < used \<or> t \<in> set snapshot)"
| "scanned (CFree _ _ snapshot) s t = (t \<in> set snapshot)"
| "scanned _ s t = True"

definition prod_ok :: "'a mpsc \<Rightarrow> nat list \<Rightarrow> nat \<Rightarrow> bool" where
  "prod_ok q chain p =
     (let pr = prods q p; pc = p_pc pr; H = mq_heap q
      in (\<forall>s. p_slot pr = Some s \<longrightarrow> s < slots_used q)
         \<and> (pc \<noteq> PIdle \<longrightarrow> p_slot pr \<noteq> None)
         \<and> (owning pc \<longrightarrow> (\<exists>x. H (p_node pr) = Some \<lparr>nd_data = Some x, nd_next = None\<rparr>)
              \<and> p_node pr \<notin> set chain \<and> p_node pr \<notin> set (limbo q))
         \<and> (\<forall>t. watched pc = Some t \<longrightarrow> hazards q (slot_of q p) = Some t)
         \<and> (\<forall>t. guarded pc = Some t \<longrightarrow>
              (t \<in> set chain \<or> t \<in> set (limbo q) \<and> scanned (consumer q) (slot_of q p) t))
         \<and> (\<forall>t n. pc = PHelpTail t n \<longrightarrow> succ_of H t = Some n)
         \<and> (\<forall>t. pc = PSwingTail t \<longrightarrow> succ_of H t = Some (p_node pr)))"

definition threads_ok :: "'a mpsc \<Rightarrow> bool" where
  "threads_ok q =
     (\<forall>p r. p \<noteq> r \<longrightarrow>
        (p_slot (prods q p) \<noteq> None \<longrightarrow> p_slot (prods q p) \<noteq> p_slot (prods q r))
        \<and> (owning (p_pc (prods q p)) \<and> owning (p_pc (prods q r)) \<longrightarrow> p_node (prods q p) \<noteq> p_node (prods q r)))"

definition list_ok :: "'a mpsc \<Rightarrow> nat list \<Rightarrow> bool" where
  "list_ok q chain =
     (linked (mq_heap q) chain \<and> hd chain = mq_head q \<and> mq_tail q \<in> set chain
      \<and> distinct (chain @ limbo q)
      \<and> (\<forall>t \<in> set (limbo q). mq_heap q t \<noteq> None \<and> succ_of (mq_heap q) t \<noteq> None))"

fun cons_at :: "cons_pc \<Rightarrow> nat \<Rightarrow> nat \<Rightarrow> (nat \<Rightarrow> nat option) \<Rightarrow> nat list \<Rightarrow> bool" where
  "cons_at (CLoadTail h nx) hp tp nxt rs = (h = hp \<and> nxt h = Some nx)"
| "cons_at (CHelpTail h nx) hp tp nxt rs = (h = hp \<and> nxt h = Some nx)"
| "cons_at (CTake h nx) hp tp nxt rs = (h = hp \<and> nxt h = Some nx \<and> tp \<noteq> h)"
| "cons_at (CFree _ _ _) hp tp nxt rs = (rs = [])"
| "cons_at _ hp tp nxt rs = True"

definition cons_ok :: "'a mpsc \<Rightarrow> bool" where
  "cons_ok q = cons_at (consumer q) (mq_head q) (mq_tail q) (succ_of (mq_heap q)) (retired q)"

text \<open>The values in the list are those that entered and have not left, in order.\<close>

definition values_ok :: "'a mpsc \<Rightarrow> nat list \<Rightarrow> bool" where
  "values_ok q chain = (\<exists>vs. enq_log q = deq_log q @ vs
     \<and> map (\<lambda>a. map_option nd_data (mq_heap q a)) (tl chain) = map (\<lambda>x. Some (Some x)) vs)"

definition mq_inv :: "nat \<Rightarrow> 'a mpsc \<Rightarrow> nat list \<Rightarrow> bool" where
  "mq_inv N q chain =
     (slots_used q \<le> N \<and> list_ok q chain \<and> cons_ok q \<and> values_ok q chain \<and> threads_ok q \<and> (\<forall>p. prod_ok q chain p))"

subsection \<open>Facts about the list\<close>

lemma succ_of_upd [simp]: "succ_of (H(a := c)) b = (if b = a then (case c of Some nd \<Rightarrow> nd_next nd | None \<Rightarrow> None) else succ_of H b)"
  by (simp add: succ_of_def)

lemma linked_cong:
  "(\<And>a. a \<in> set xs \<Longrightarrow> (H' a = None) = (H a = None) \<and> succ_of H' a = succ_of H a) \<Longrightarrow> linked H' xs = linked H xs"
  by (induction H xs rule: linked.induct) auto

lemma linked_nonempty: "linked H xs \<Longrightarrow> xs \<noteq> []"
  by auto

lemma linked_allocated: "linked H xs \<Longrightarrow> a \<in> set xs \<Longrightarrow> H a \<noteq> None"
  by (induction H xs rule: linked.induct) auto

lemma linked_succ: "linked H xs \<Longrightarrow> a \<in> set xs \<Longrightarrow> succ_of H a = Some b \<Longrightarrow> b \<in> set (tl xs)"
  by (induction H xs rule: linked.induct) auto

lemma linked_last: "linked H xs \<Longrightarrow> a \<in> set xs \<Longrightarrow> succ_of H a = None \<Longrightarrow> a = last xs"
  by (induction H xs rule: linked.induct) auto

lemma linked_snoc:
  "linked H xs \<Longrightarrow> distinct xs \<Longrightarrow> n \<notin> set xs \<Longrightarrow> H n \<noteq> None \<Longrightarrow> succ_of H n = None \<Longrightarrow> H (last xs) = Some nd \<Longrightarrow>
   linked (H(last xs \<mapsto> nd\<lparr>nd_next := Some n\<rparr>)) (xs @ [n])"
proof (induction H xs rule: linked.induct)
  case (3 H a b as)
  let ?H = "H(last (b # as) \<mapsto> nd\<lparr>nd_next := Some n\<rparr>)"
  have "linked ?H ((b # as) @ [n])" using 3 by (simp del: fun_upd_apply)
  moreover have "a \<noteq> last (b # as)" using 3(3) by (metis distinct.simps(2) last_in_set list.discI)
  moreover have "last (a # b # as) = last (b # as)" by simp
  moreover from calculation(2) have "?H a = H a" by simp
  ultimately show ?case using 3(2) by (simp only: linked.simps append_Cons succ_of_upd if_False) simp
qed auto

lemma linked_head:
  "linked H xs \<Longrightarrow> succ_of H (hd xs) = Some b \<Longrightarrow> \<exists>ys. xs = hd xs # b # ys \<and> linked H (b # ys)"
  by (cases "(H, xs)" rule: linked.cases) auto

subsection \<open>Steps that leave the heap alone\<close>

lemma goto_simps [simp]:
  "mq_heap (goto p pc q) = mq_heap q" "mq_tail (goto p pc q) = mq_tail q" "slots_used (goto p pc q) = slots_used q"
  "hazards (goto p pc q) = hazards q" "mq_head (goto p pc q) = mq_head q" "retired (goto p pc q) = retired q"
  "consumer (goto p pc q) = consumer q" "enq_log (goto p pc q) = enq_log q" "deq_log (goto p pc q) = deq_log q"
  "prods (goto p pc q) = (prods q)(p := (prods q p)\<lparr>p_pc := pc\<rparr>)" "limbo (goto p pc q) = limbo q"
  "slot_of (goto p pc q) r = slot_of q r"
  by (simp_all add: goto_def limbo_def slot_of_def)

lemma set_hazard_simps [simp]:
  "mq_heap (set_hazard s h q) = mq_heap q" "mq_tail (set_hazard s h q) = mq_tail q" "slots_used (set_hazard s h q) = slots_used q"
  "hazards (set_hazard s h q) = (hazards q)(s := h)" "mq_head (set_hazard s h q) = mq_head q" "retired (set_hazard s h q) = retired q"
  "consumer (set_hazard s h q) = consumer q" "enq_log (set_hazard s h q) = enq_log q" "deq_log (set_hazard s h q) = deq_log q"
  "prods (set_hazard s h q) = prods q" "limbo (set_hazard s h q) = limbo q" "slot_of (set_hazard s h q) r = slot_of q r"
  by (simp_all add: set_hazard_def limbo_def slot_of_def)

lemma cas_tail_simps [simp]:
  "mq_heap (cas_tail t n q) = mq_heap q" "mq_tail (cas_tail t n q) = (if mq_tail q = t then n else mq_tail q)"
  "slots_used (cas_tail t n q) = slots_used q" "hazards (cas_tail t n q) = hazards q" "mq_head (cas_tail t n q) = mq_head q"
  "retired (cas_tail t n q) = retired q" "consumer (cas_tail t n q) = consumer q" "enq_log (cas_tail t n q) = enq_log q"
  "deq_log (cas_tail t n q) = deq_log q" "prods (cas_tail t n q) = prods q" "limbo (cas_tail t n q) = limbo q"
  "slot_of (cas_tail t n q) r = slot_of q r"
  by (simp_all add: cas_tail_def limbo_def slot_of_def)

lemma pc_simps [simp]:
  "guarded PIdle = None" "guarded PLoadTail = None" "guarded (PStoreHazard t) = None" "guarded (PCheckTail t) = None"
  "guarded (PLoadNext t) = Some t" "guarded (PHelpTail t n) = Some t" "guarded (PLink t) = Some t"
  "guarded (PSwingTail t) = Some t" "guarded PClear = None"
  "watched PIdle = None" "watched PLoadTail = None" "watched (PStoreHazard t) = None" "watched (PCheckTail t) = Some t"
  "watched (PLoadNext t) = Some t" "watched (PHelpTail t n) = Some t" "watched (PLink t) = Some t"
  "watched (PSwingTail t) = Some t" "watched PClear = None"
  "\<not> owning PIdle" "owning PLoadTail" "owning (PStoreHazard t)" "owning (PCheckTail t)" "owning (PLoadNext t)"
  "owning (PHelpTail t n)" "owning (PLink t)" "\<not> owning (PSwingTail t)" "\<not> owning PClear"
  by (simp_all add: guarded_def watched_def owning_def)

lemma prod_ok_goto_other: "r \<noteq> p \<Longrightarrow> prod_ok (goto p pc q) chain r = prod_ok q chain r"
  by (simp add: prod_ok_def)

lemma goto_inv:
  assumes "mq_inv N q chain" "owning pc \<Longrightarrow> owning (p_pc (prods q p))" "prod_ok (goto p pc q) chain p"
  shows "mq_inv N (goto p pc q) chain"
proof -
  have "prod_ok (goto p pc q) chain r" for r
    using assms(1,3) prod_ok_goto_other [of r p pc q chain] by (cases "r = p") (simp_all add: mq_inv_def)
  moreover have "threads_ok (goto p pc q)"
    using assms(1,2) by (auto simp: mq_inv_def threads_ok_def)
  ultimately show ?thesis
    using assms(1) by (simp add: mq_inv_def list_ok_def cons_ok_def values_ok_def)
qed

lemma set_hazard_inv:
  assumes "mq_inv N q chain" "p_slot (prods q p) = Some s" "watched (p_pc (prods q p)) = None"
  shows "mq_inv N (set_hazard s h q) chain"
proof -
  have "prod_ok (set_hazard s h q) chain r" for r
  proof (cases "r = p")
    case True
    then show ?thesis using assms by (simp add: mq_inv_def prod_ok_def Let_def)
  next
    case False
    have ok: "prod_ok q chain r" using assms(1) by (simp add: mq_inv_def)
    have "p_slot (prods q r) \<noteq> Some s"
      using assms(1,2) False unfolding mq_inv_def threads_ok_def by (metis option.distinct(1))
    then have "slot_of q r \<noteq> s \<or> watched (p_pc (prods q r)) = None"
      using ok by (auto simp: prod_ok_def Let_def slot_of_def split: option.splits)
    then show ?thesis using ok by (auto simp: prod_ok_def Let_def)
  qed
  then show ?thesis using assms(1) by (simp add: mq_inv_def list_ok_def cons_ok_def values_ok_def threads_ok_def)
qed

lemma cas_tail_inv:
  assumes "mq_inv N q chain" "t \<in> set chain \<Longrightarrow> succ_of (mq_heap q) t = Some n"
  shows "mq_inv N (cas_tail t n q) chain"
proof -
  have ok: "linked (mq_heap q) chain" "hd chain = mq_head q" "mq_tail q \<in> set chain" "distinct chain"
    using assms(1) by (simp_all add: mq_inv_def list_ok_def)
  have n: "n \<in> set (tl chain)" if "mq_tail q = t" using linked_succ [OF ok(1,3)] assms(2) ok(3) that by blast
  then have "mq_tail (cas_tail t n q) \<in> set chain" using ok(3) by (cases chain) auto
  moreover have "n \<noteq> mq_head q" if "mq_tail q = t"
    using n [OF that] ok(1,2,4) by (cases chain) auto
  then have "cons_ok (cas_tail t n q)"
    using assms(1) by (cases "consumer q") (auto simp: mq_inv_def cons_ok_def)
  ultimately show ?thesis
    using assms(1) by (simp add: mq_inv_def list_ok_def values_ok_def threads_ok_def prod_ok_def)
qed

lemma pc_facts:
  assumes "mq_inv N q chain" "p_pc (prods q p) \<noteq> PIdle"
  obtains s where "p_slot (prods q p) = Some s" "slot_of q p = s" "s < slots_used q" "prod_ok q chain p"
proof -
  have ok: "prod_ok q chain p" using assms(1) by (simp add: mq_inv_def)
  then obtain s where "p_slot (prods q p) = Some s" using assms(2) by (auto simp: prod_ok_def Let_def)
  with ok that show ?thesis by (auto simp: slot_of_def prod_ok_def Let_def)
qed

subsection \<open>The producers\<close>

lemma load_tail_inv:
  assumes "mq_inv N q chain" "p_pc (prods q p) = PLoadTail"
  shows "mq_inv N (goto p (PStoreHazard t) q) chain"
proof (rule goto_inv [OF assms(1)])
  show "prod_ok (goto p (PStoreHazard t) q) chain p"
    using assms by (simp add: mq_inv_def prod_ok_def Let_def)
qed (simp add: assms(2))

lemma store_hazard_inv:
  assumes "mq_inv N q chain" "p_pc (prods q p) = PStoreHazard t"
  shows "mq_inv N (goto p (PCheckTail t) (set_hazard (slot_of q p) (Some t) q)) chain"
proof -
  obtain s where s: "p_slot (prods q p) = Some s" "slot_of q p = s" "prod_ok q chain p"
    using pc_facts [OF assms(1), of p] assms(2) by auto
  have inv: "mq_inv N (set_hazard s (Some t) q) chain"
    by (rule set_hazard_inv [OF assms(1) s(1)]) (simp add: assms(2))
  show ?thesis unfolding s(2)
  proof (rule goto_inv [OF inv])
    show "prod_ok (goto p (PCheckTail t) (set_hazard s (Some t) q)) chain p"
      using s assms(2) by (simp add: prod_ok_def Let_def)
  qed (simp add: assms(2))
qed

lemma check_tail_inv:
  assumes "mq_inv N q chain" "p_pc (prods q p) = PCheckTail t"
  shows "mq_inv N (goto p (if t = mq_tail q then PLoadNext t else PLoadTail) q) chain"
proof (rule goto_inv [OF assms(1)])
  have "prod_ok q chain p" "mq_tail q \<in> set chain" using assms(1) by (simp_all add: mq_inv_def list_ok_def)
  then show "prod_ok (goto p (if t = mq_tail q then PLoadNext t else PLoadTail) q) chain p"
    using assms(2) by (simp add: prod_ok_def Let_def)
qed (simp add: assms(2))

lemma guarded_allocated:
  assumes "mq_inv N q chain" "guarded (p_pc (prods q p)) = Some t"
  shows "mq_heap q t \<noteq> None" "t \<in> set chain \<or> t \<in> set (limbo q) \<and> scanned (consumer q) (slot_of q p) t"
proof -
  have "prod_ok q chain p" using assms(1) by (simp add: mq_inv_def)
  then show in_list: "t \<in> set chain \<or> t \<in> set (limbo q) \<and> scanned (consumer q) (slot_of q p) t"
    using assms(2) by (simp add: prod_ok_def Let_def)
  moreover have "list_ok q chain" using assms(1) by (simp add: mq_inv_def)
  ultimately show "mq_heap q t \<noteq> None" unfolding list_ok_def using linked_allocated by fastforce
qed

lemma load_next_inv:
  assumes "mq_inv N q chain" "p_pc (prods q p) = PLoadNext t" "mq_heap q t = Some nd"
  shows "mq_inv N (goto p (case nd_next nd of Some n \<Rightarrow> PHelpTail t n | None \<Rightarrow> PLink t) q) chain"
proof (rule goto_inv [OF assms(1)])
  have "prod_ok q chain p" using assms(1) by (simp add: mq_inv_def)
  then show "prod_ok (goto p (case nd_next nd of Some n \<Rightarrow> PHelpTail t n | None \<Rightarrow> PLink t) q) chain p"
    using assms(2,3) by (simp add: prod_ok_def Let_def succ_of_def split: option.splits)
qed (simp add: assms(2))

lemma help_tail_inv:
  assumes "mq_inv N q chain" "p_pc (prods q p) = PHelpTail t n"
  shows "mq_inv N (goto p PLoadTail (cas_tail t n q)) chain"
proof -
  have ok: "prod_ok q chain p" using assms(1) by (simp add: mq_inv_def)
  have inv: "mq_inv N (cas_tail t n q) chain"
    by (rule cas_tail_inv [OF assms(1)]) (use ok assms(2) in \<open>simp add: prod_ok_def Let_def\<close>)
  show ?thesis
    by (rule goto_inv [OF inv]) (use ok assms(2) in \<open>simp_all add: prod_ok_def Let_def\<close>)
qed

lemma swing_tail_inv:
  assumes "mq_inv N q chain" "p_pc (prods q p) = PSwingTail t"
  shows "mq_inv N (goto p PClear (cas_tail t (p_node (prods q p)) q)) chain"
proof -
  have ok: "prod_ok q chain p" using assms(1) by (simp add: mq_inv_def)
  have inv: "mq_inv N (cas_tail t (p_node (prods q p)) q) chain"
    by (rule cas_tail_inv [OF assms(1)]) (use ok assms(2) in \<open>simp add: prod_ok_def Let_def\<close>)
  show ?thesis
    by (rule goto_inv [OF inv]) (use ok assms(2) in \<open>simp_all add: prod_ok_def Let_def\<close>)
qed

lemma clear_inv:
  assumes "mq_inv N q chain" "p_pc (prods q p) = PClear"
  shows "mq_inv N (goto p PIdle (set_hazard (slot_of q p) None q)) chain"
proof -
  obtain s where s: "p_slot (prods q p) = Some s" "slot_of q p = s" "prod_ok q chain p"
    using pc_facts [OF assms(1), of p] assms(2) by auto
  have inv: "mq_inv N (set_hazard s None q) chain"
    by (rule set_hazard_inv [OF assms(1) s(1)]) (simp add: assms(2))
  show ?thesis unfolding s(2)
    by (rule goto_inv [OF inv]) (use s assms(2) in \<open>simp_all add: prod_ok_def Let_def\<close>)
qed

text \<open>Linking the new node behind the last one, the moment a value enters the queue.\<close>

lemma link_inv:
  assumes inv: "mq_inv N q chain" and pc: "p_pc (prods q p) = PLink t"
    and t: "mq_heap q t = Some nd" "nd_next nd = None" and n: "n = p_node (prods q p)" "mq_heap q n = Some new"
    and q': "q' = goto p (PSwingTail t) (q\<lparr>mq_heap := (mq_heap q)(t \<mapsto> nd\<lparr>nd_next := Some n\<rparr>),
          enq_log := enq_log q @ (case nd_data new of Some x \<Rightarrow> [x] | None \<Rightarrow> [])\<rparr>)"
  shows "mq_inv N q' (chain @ [n]) \<and> (\<exists>x. nd_data new = Some x)"
proof -
  let ?H = "mq_heap q" and ?H' = "(mq_heap q)(t \<mapsto> nd\<lparr>nd_next := Some n\<rparr>)"
  have ok: "list_ok q chain" "cons_ok q" "values_ok q chain" "threads_ok q" and pok: "\<And>r. prod_ok q chain r"
    using inv by (simp_all add: mq_inv_def)
  have lst: "linked ?H chain" "distinct (chain @ limbo q)" "\<forall>a \<in> set (limbo q). succ_of ?H a \<noteq> None"
    using ok(1) by (simp_all add: list_ok_def)
  have succ_t: "succ_of ?H t = None" using t by (simp add: succ_of_def)
  then have "t \<notin> set (limbo q)" using lst(3) by auto
  then have t_in: "t \<in> set chain" using guarded_allocated(2) [OF inv, of p t] pc by simp
  then have last: "t = last chain" using linked_last [OF lst(1) _ succ_t] by simp
  obtain x where x: "new = \<lparr>nd_data = Some x, nd_next = None\<rparr>" and n_out: "n \<notin> set chain" "n \<notin> set (limbo q)"
    using pok [of p] pc n by (auto simp: prod_ok_def Let_def)
  then have "n \<noteq> t" using t_in by auto
  have succ': "succ_of ?H' a = succ_of ?H a" if "succ_of ?H a \<noteq> None" for a using that succ_t by auto
  have lim: "limbo q' = limbo q" by (simp add: q' limbo_def)
  have list': "list_ok q' (chain @ [n])"
  proof -
    have "linked ?H' (chain @ [n])"
      using linked_snoc [OF lst(1) _ n_out(1)] lst(2) n(2) x t(1) last by (simp add: succ_of_def)
    moreover have "hd (chain @ [n]) = hd chain" using linked_nonempty [OF lst(1)] by simp
    moreover have "\<forall>a \<in> set (limbo q). ?H' a \<noteq> None \<and> succ_of ?H' a \<noteq> None"
      using ok(1) succ' by (simp add: list_ok_def)
    ultimately show ?thesis
      using ok(1) n_out by (simp add: list_ok_def lim) (simp add: q')
  qed
  have cons': "cons_ok q'"
    using ok(2) succ' by (cases "consumer q") (auto simp: cons_ok_def q')
  have vals': "values_ok q' (chain @ [n])"
  proof -
    obtain vs where vs: "enq_log q = deq_log q @ vs"
      "map (\<lambda>a. map_option nd_data (?H a)) (tl chain) = map (\<lambda>x. Some (Some x)) vs"
      using ok(3) by (auto simp: values_ok_def)
    have "map_option nd_data (?H' a) = map_option nd_data (?H a)" for a using t(1) by simp
    moreover have "tl (chain @ [n]) = tl chain @ [n]" using linked_nonempty [OF lst(1)] by (cases chain) simp_all
    ultimately show ?thesis
      using vs n(2) x unfolding values_ok_def by (intro exI [of _ "vs @ [x]"]) (simp add: q' del: map_eq_conv)
  qed
  have thr': "threads_ok q'" using ok(4) by (auto simp: threads_ok_def q')
  have prod': "prod_ok q' (chain @ [n]) r" for r
  proof (cases "r = p")
    case True
    then show ?thesis using pok [of p] pc t_in n(1) by (simp add: prod_ok_def Let_def lim) (simp add: q' slot_of_def)
  next
    case False
    then have pr: "prods q' r = prods q r" "slot_of q' r = slot_of q r" by (simp_all add: q' slot_of_def)
    have "p_node (prods q r) \<noteq> n \<and> p_node (prods q r) \<noteq> t" if "owning (p_pc (prods q r))"
      using ok(4) False n(1) pc that t_in pok [of r] by (fastforce simp: threads_ok_def prod_ok_def Let_def)
    then show ?thesis
      using pok [of r] succ' by (simp add: prod_ok_def Let_def lim pr) (simp add: q')
  qed
  show ?thesis
    using inv list' cons' vals' thr' prod' x by (simp add: mq_inv_def) (simp add: q')
qed

text \<open>A new node, outside everything else.\<close>

lemma begin_inv:
  assumes inv: "mq_inv N q chain" and pc: "p_pc (prods q p) = PIdle" and a: "mq_heap q a = None"
    and s: "p_slot (prods q p) = Some s \<and> u = slots_used q
      \<or> p_slot (prods q p) = None \<and> s = slots_used q \<and> s < N \<and> u = s + 1"
    and q': "q' = q\<lparr>mq_heap := (mq_heap q)(a \<mapsto> \<lparr>nd_data = Some x, nd_next = None\<rparr>), slots_used := u,
          prods := (prods q)(p := \<lparr>p_pc = PLoadTail, p_node = a, p_slot = Some s\<rparr>)\<rparr>"
  shows "mq_inv N q' chain"
proof -
  let ?H = "mq_heap q" and ?H' = "(mq_heap q)(a \<mapsto> \<lparr>nd_data = Some x, nd_next = None\<rparr>)"
  have ok: "list_ok q chain" "cons_ok q" "values_ok q chain" "threads_ok q" "slots_used q \<le> N" and pok: "\<And>r. prod_ok q chain r"
    using inv by (simp_all add: mq_inv_def)
  have lst: "linked ?H chain" "\<forall>b \<in> set (limbo q). ?H b \<noteq> None" using ok(1) by (simp_all add: list_ok_def)
  have out: "a \<notin> set chain" "a \<notin> set (limbo q)" using linked_allocated [OF lst(1), of a] lst(2) a by blast+
  have succ': "succ_of ?H' b = succ_of ?H b" for b using a by (simp add: succ_of_def)
  have lim: "limbo q' = limbo q" by (simp add: q' limbo_def)
  have u: "slots_used q \<le> u" "u \<le> N" using s ok(5) by auto
  have "linked ?H' chain" using lst(1) out(1) by (subst linked_cong [of chain _ ?H]) (auto simp: succ')
  then have list': "list_ok q' chain"
    using ok(1) out by (auto simp: list_ok_def lim) (auto simp: q' succ')
  have cons': "cons_ok q'" using ok(2) by (simp add: cons_ok_def q' succ' [abs_def] del: fun_upd_apply succ_of_upd)
  have "map (\<lambda>b. map_option nd_data (?H' b)) (tl chain) = map (\<lambda>b. map_option nd_data (?H b)) (tl chain)"
    using out(1) by (cases chain) auto
  then have vals': "values_ok q' chain" using ok(3) by (simp add: values_ok_def q' del: fun_upd_apply map_eq_conv)
  have free: "p_slot (prods q r) \<noteq> Some s" if "r \<noteq> p" for r
    using s
  proof
    assume "p_slot (prods q p) = Some s \<and> u = slots_used q"
    then show ?thesis using ok(4) that unfolding threads_ok_def by (metis option.distinct(1))
  next
    assume "p_slot (prods q p) = None \<and> s = slots_used q \<and> s < N \<and> u = s + 1"
    then show ?thesis using pok [of r] by (auto simp: prod_ok_def Let_def)
  qed
  have owned: "p_node (prods q r) \<noteq> a" if "owning (p_pc (prods q r))" for r
    using pok [of r] that a by (auto simp: prod_ok_def Let_def)
  have thr': "threads_ok q'"
    unfolding threads_ok_def
  proof (intro allI impI)
    fix r t :: nat
    assume "r \<noteq> t"
    then have "(p_slot (prods q r) \<noteq> None \<longrightarrow> p_slot (prods q r) \<noteq> p_slot (prods q t))
      \<and> (owning (p_pc (prods q r)) \<and> owning (p_pc (prods q t)) \<longrightarrow> p_node (prods q r) \<noteq> p_node (prods q t))"
      using ok(4) unfolding threads_ok_def by blast
    with \<open>r \<noteq> t\<close> show "(p_slot (prods q' r) \<noteq> None \<longrightarrow> p_slot (prods q' r) \<noteq> p_slot (prods q' t))
      \<and> (owning (p_pc (prods q' r)) \<and> owning (p_pc (prods q' t)) \<longrightarrow> p_node (prods q' r) \<noteq> p_node (prods q' t))"
      using free [of r] free [of t] owned [of r] owned [of t]
      by (cases "r = p"; cases "t = p") (auto simp: q')
  qed
  have prod': "prod_ok q' chain r" for r
  proof (cases "r = p")
    case True
    have "\<forall>s. p_slot (prods q p) = Some s \<longrightarrow> s < slots_used q" using pok [of p] by (simp add: prod_ok_def Let_def)
    then have "s < u" using s by auto
    with True show ?thesis using out unfolding prod_ok_def Let_def lim by (simp add: q')
  next
    case False
    then have pr: "prods q' r = prods q r" "slot_of q' r = slot_of q r" by (simp_all add: q' slot_of_def)
    show ?thesis
      using pok [of r] owned [of r] u(1) unfolding prod_ok_def Let_def lim pr
      by (auto simp: q' succ' simp del: succ_of_upd intro: less_le_trans)
  qed
  show ?thesis
    using u(2) list' cons' vals' thr' prod' by (simp add: mq_inv_def) (simp add: q')
qed

subsection \<open>The consumer\<close>

lemma consumer_pc_inv:
  assumes "mq_inv N q chain" "q' = q\<lparr>consumer := pc, retired := rs\<rparr>"
    and "set (in_limbo pc rs) = set (limbo q)" "distinct (in_limbo pc rs)"
    and "cons_at pc (mq_head q) (mq_tail q) (succ_of (mq_heap q)) rs"
    and "\<And>p t. guarded (p_pc (prods q p)) = Some t \<Longrightarrow> hazards q (slot_of q p) = Some t \<Longrightarrow> slot_of q p < slots_used q \<Longrightarrow>
          t \<in> set (limbo q) \<Longrightarrow> scanned (consumer q) (slot_of q p) t \<Longrightarrow> scanned pc (slot_of q p) t"
  shows "mq_inv N q' chain"
proof -
  have lim: "limbo q' = in_limbo pc rs" by (simp add: assms(2) limbo_def)
  have prod': "prod_ok q' chain r" for r
  proof -
    have ok: "prod_ok q chain r" using assms(1) by (simp add: mq_inv_def)
    have pr: "prods q' r = prods q r" "slot_of q' r = slot_of q r" by (simp_all add: assms(2) slot_of_def)
    have watch: "hazards q (slot_of q r) = Some t \<and> slot_of q r < slots_used q" if "guarded (p_pc (prods q r)) = Some t" for t
    proof -
      have pc: "p_pc (prods q r) \<noteq> PIdle" "watched (p_pc (prods q r)) = Some t"
        using that by (auto simp: watched_def split: prod_pc.splits)
      obtain s where "slot_of q r = s" "s < slots_used q" using pc_facts [OF assms(1) pc(1)] by blast
      with pc(2) ok show ?thesis by (simp add: prod_ok_def Let_def)
    qed
    show ?thesis
      using ok watch assms(6) [of r] unfolding prod_ok_def Let_def pr lim assms(3) by (auto simp: assms(2))
  qed
  have "set chain \<inter> set (limbo q) = {}" using assms(1) by (simp add: mq_inv_def list_ok_def)
  then have "list_ok q' chain"
    using assms(1,3,4) by (auto simp: mq_inv_def list_ok_def lim) (auto simp: assms(2))
  moreover have "cons_ok q'" using assms(5) by (simp add: cons_ok_def assms(2))
  ultimately show ?thesis
    using assms(1) prod' by (simp add: mq_inv_def values_ok_def threads_ok_def assms(2))
qed

text \<open>The oldest value leaves the queue.\<close>

lemma take_inv:
  assumes inv: "mq_inv N q chain" and pc: "consumer q = CTake h nx" and nx: "mq_heap q nx = Some nd"
    and pc': "pc' = CIdle \<or> pc' = CReclaim"
    and q': "q' = q\<lparr>deq_log := deq_log q @ (case nd_data nd of Some x \<Rightarrow> [x] | None \<Rightarrow> []),
          mq_heap := (mq_heap q)(nx \<mapsto> nd\<lparr>nd_data := None\<rparr>), mq_head := nx, retired := h # retired q, consumer := pc'\<rparr>"
  shows "mq_inv N q' (tl chain) \<and> (\<exists>x. nd_data nd = Some x)"
proof -
  let ?H = "mq_heap q" and ?H' = "(mq_heap q)(nx \<mapsto> nd\<lparr>nd_data := None\<rparr>)"
  have ok: "list_ok q chain" "values_ok q chain" "threads_ok q" and pok: "\<And>r. prod_ok q chain r"
    and c: "h = mq_head q" "succ_of ?H h = Some nx" "mq_tail q \<noteq> h"
    using inv pc by (auto simp: mq_inv_def cons_ok_def)
  have lst: "linked ?H chain" "hd chain = h" "distinct (chain @ limbo q)" "mq_tail q \<in> set chain"
    using ok(1) c(1) by (simp_all add: list_ok_def)
  obtain rest where ch: "chain = h # nx # rest" "linked ?H (nx # rest)"
    using linked_head [OF lst(1)] lst(2) c(2) by auto
  have lim: "limbo q = retired q" "limbo q' = h # limbo q" using pc pc' by (auto simp: limbo_def q')
  have succ': "succ_of ?H' b = succ_of ?H b" for b using nx by (simp add: succ_of_def)
  have some': "(?H' b = None) = (?H b = None)" for b using nx by simp
  have h: "?H h \<noteq> None" using linked_allocated [OF lst(1)] ch(1) by simp
  have "linked ?H' (nx # rest)" using ch(2) linked_cong [of "nx # rest" ?H' ?H] succ' some' by blast
  then have list': "list_ok q' (nx # rest)"
    using ok(1) lst(3,4) c(2,3) h ch(1) unfolding list_ok_def lim by (auto simp: q' succ' some' simp del: succ_of_upd fun_upd_apply)
  obtain vs where vs: "enq_log q = deq_log q @ vs" "map (\<lambda>a. map_option nd_data (?H a)) (nx # rest) = map (\<lambda>x. Some (Some x)) vs"
    using ok(2) ch(1) by (auto simp: values_ok_def)
  then obtain x vs' where x: "vs = x # vs'" "nd_data nd = Some x" using nx by (cases vs) auto
  have "nx \<notin> set rest" using lst(3) ch(1) by auto
  then have "map (\<lambda>a. map_option nd_data (?H' a)) rest = map (\<lambda>a. map_option nd_data (?H a)) rest" by auto
  then have vals': "values_ok q' (nx # rest)"
    using vs x unfolding values_ok_def by (intro exI [of _ vs']) (simp add: q' del: fun_upd_apply map_eq_conv)
  have prod': "prod_ok q' (nx # rest) r" for r
  proof -
    have pr: "prods q' r = prods q r" "slot_of q' r = slot_of q r" by (simp_all add: q' slot_of_def)
    have sc: "scanned (consumer q') s t" for s t using pc' by (auto simp: q')
    have node: "p_node (prods q r) \<noteq> nx" if "owning (p_pc (prods q r))"
      using pok [of r] that ch(1) by (auto simp: prod_ok_def Let_def)
    show ?thesis
      using pok [of r] sc node ch(1) unfolding prod_ok_def Let_def pr lim
      by (auto simp: q' succ' simp del: succ_of_upd)
  qed
  have "cons_ok q'" using pc' by (auto simp: cons_ok_def q')
  then show ?thesis
    using inv list' vals' prod' ok(3) x ch(1) by (simp add: mq_inv_def threads_ok_def) (simp add: q')
qed

text \<open>Freeing a retired node no producer looks at.\<close>

lemma free_inv:
  assumes inv: "mq_inv N q chain" and pc: "consumer q = CFree (c # cs) survivors snapshot" and c: "c \<notin> set snapshot"
    and q': "q' = q\<lparr>mq_heap := (mq_heap q)(c := None), consumer := CFree cs survivors snapshot\<rparr>"
  shows "mq_inv N q' chain"
proof -
  let ?H = "mq_heap q" and ?H' = "(mq_heap q)(c := None)"
  have ok: "list_ok q chain" "cons_ok q" "values_ok q chain" "threads_ok q" and pok: "\<And>r. prod_ok q chain r"
    using inv by (simp_all add: mq_inv_def)
  have r: "retired q = []" using ok(2) pc by (simp add: cons_ok_def)
  have lim: "limbo q = c # cs @ survivors" "limbo q' = cs @ survivors" by (simp_all add: limbo_def pc r q')
  have out: "c \<notin> set chain" "c \<notin> set (cs @ survivors)" using ok(1) by (auto simp: list_ok_def lim)
  have same: "?H' b = ?H b" "succ_of ?H' b = succ_of ?H b" if "b \<noteq> c" for b using that by simp_all
  have "linked ?H' chain" using ok(1) out(1) linked_cong [of chain ?H' ?H] same by (fastforce simp: list_ok_def)
  then have list': "list_ok q' chain"
    using ok(1) out unfolding list_ok_def lim by (auto simp: q')
  have "map (\<lambda>b. map_option nd_data (?H' b)) (tl chain) = map (\<lambda>b. map_option nd_data (?H b)) (tl chain)"
    using out(1) by (cases chain) auto
  then have vals': "values_ok q' chain" using ok(3) by (simp add: values_ok_def q' del: fun_upd_apply map_eq_conv)
  have prod': "prod_ok q' chain r" for r
  proof -
    have pr: "prods q' r = prods q r" "slot_of q' r = slot_of q r" by (simp_all add: q' slot_of_def)
    have node: "p_node (prods q r) \<noteq> c" if "owning (p_pc (prods q r))"
      using pok [of r] that by (auto simp: prod_ok_def Let_def lim)
    have t: "t \<noteq> c" if "guarded (p_pc (prods q r)) = Some t" for t
      using guarded_allocated(2) [OF inv that] out(1) c by (auto simp: pc)
    have stays: "t \<noteq> c" if "p_pc (prods q r) = PHelpTail t n \<or> p_pc (prods q r) = PSwingTail t" for t n
      by (rule t) (use that in auto)
    show ?thesis
      using pok [of r] node t stays unfolding prod_ok_def Let_def pr lim by (auto simp: q' pc)
  qed
  have "cons_ok q'" by (simp add: cons_ok_def q' r)
  then show ?thesis
    using inv list' vals' prod' ok(4) by (simp add: mq_inv_def threads_ok_def) (simp add: q')
qed

lemma consumer_step_inv:
  assumes inv: "mq_inv N q chain"
  shows "\<exists>q' chain'. consumer_step N q = Next q' \<and> mq_inv N q' chain'"
proof -
  have ok: "list_ok q chain" "cons_ok q" using inv by (simp_all add: mq_inv_def)
  have lst: "linked (mq_heap q) chain" "hd chain = mq_head q" "distinct (limbo q)" using ok(1) by (simp_all add: list_ok_def)
  have pc_only: "mq_inv N (q\<lparr>consumer := pc\<rparr>) chain"
    if "limbo q = retired q" "in_limbo pc (retired q) = retired q"
      "cons_at pc (mq_head q) (mq_tail q) (succ_of (mq_heap q)) (retired q)" "\<And>s t. s < slots_used q \<Longrightarrow> scanned pc s t" for pc
    by (rule consumer_pc_inv [OF inv, where pc = pc and rs = "retired q"]) (use that lst(3) in simp_all)
  show ?thesis
  proof (cases "consumer q")
    case CIdle
    have "mq_head q \<in> set chain" using lst linked_nonempty [OF lst(1)] by (metis hd_in_set)
    then obtain nd where nd: "mq_heap q (mq_head q) = Some nd" using linked_allocated [OF lst(1)] by blast
    show ?thesis
    proof (cases "nd_next nd")
      case None
      then show ?thesis using CIdle nd inv by (auto simp: consumer_step_def)
    next
      case (Some nx)
      have "mq_inv N (q\<lparr>consumer := CLoadTail (mq_head q) nx\<rparr>) chain"
        by (rule pc_only) (simp_all add: CIdle limbo_def succ_of_def nd Some)
      then show ?thesis using CIdle nd Some by (auto simp: consumer_step_def)
    qed
  next
    case (CLoadTail h nx)
    have "mq_inv N (q\<lparr>consumer := (if mq_tail q = h then CHelpTail h nx else CTake h nx)\<rparr>) chain"
      by (rule pc_only) (use ok(2) in \<open>auto simp: CLoadTail limbo_def cons_ok_def\<close>)
    then show ?thesis using CLoadTail by (auto simp: consumer_step_def)
  next
    case (CHelpTail h nx)
    then have c: "h = mq_head q" "succ_of (mq_heap q) h = Some nx" using ok(2) by (auto simp: cons_ok_def)
    have inv1: "mq_inv N (cas_tail h nx q) chain" by (rule cas_tail_inv [OF inv c(2)])
    have "nx \<noteq> h"
      using linked_head [OF lst(1)] lst(2) c ok(1) by (auto simp: list_ok_def)
    then have "mq_inv N ((cas_tail h nx q)\<lparr>consumer := CTake h nx\<rparr>) chain"
      by (intro consumer_pc_inv [OF inv1, where pc = "CTake h nx" and rs = "retired q"])
        (use lst(3) c CHelpTail in \<open>simp_all add: limbo_def\<close>)
    then show ?thesis using CHelpTail by (auto simp: consumer_step_def)
  next
    case (CTake h nx)
    then have "succ_of (mq_heap q) (hd chain) = Some nx" using ok(2) lst(2) by (auto simp: cons_ok_def)
    then obtain nd where nd: "mq_heap q nx = Some nd" using linked_head [OF lst(1)] linked_allocated by fastforce
    let ?pc = "if 2 * N \<le> length (h # retired q) then CReclaim else CIdle"
    from take_inv [OF inv CTake nd, of ?pc] show ?thesis using CTake nd by (auto simp: consumer_step_def)
  next
    case CReclaim
    have "mq_inv N (q\<lparr>consumer := CScan (min (slots_used q) N) 0 []\<rparr>) chain"
      by (rule pc_only) (use inv in \<open>simp_all add: CReclaim limbo_def mq_inv_def\<close>)
    then show ?thesis using CReclaim by (auto simp: consumer_step_def)
  next
    case (CScan used i snapshot)
    show ?thesis
    proof (cases "i < used")
      case True
      let ?pc = "CScan used (i + 1) (case hazards q i of Some p \<Rightarrow> snapshot @ [p] | None \<Rightarrow> snapshot)"
      have "mq_inv N (q\<lparr>consumer := ?pc\<rparr>) chain"
      proof (rule consumer_pc_inv [OF inv, where pc = ?pc and rs = "retired q"])
        fix p t
        assume "hazards q (slot_of q p) = Some t" "scanned (consumer q) (slot_of q p) t"
        then show "scanned ?pc (slot_of q p) t"
          by (cases "slot_of q p = i") (auto simp: CScan split: option.splits)
      qed (use lst(3) in \<open>simp_all add: CScan limbo_def\<close>)
      then show ?thesis using CScan True by (auto simp: consumer_step_def)
    next
      case False
      have "mq_inv N (q\<lparr>consumer := CFree (retired q) [] snapshot, retired := []\<rparr>) chain"
        by (rule consumer_pc_inv [OF inv, where pc = "CFree (retired q) [] snapshot" and rs = "[]"])
          (use lst(3) False in \<open>auto simp: CScan limbo_def\<close>)
      then show ?thesis using CScan False by (auto simp: consumer_step_def)
    qed
  next
    case (CFree cur survivors snapshot)
    have r: "retired q = []" using ok(2) CFree by (simp add: cons_ok_def)
    show ?thesis
    proof (cases cur)
      case Nil
      have "mq_inv N (q\<lparr>retired := survivors, consumer := CIdle\<rparr>) chain"
        by (rule consumer_pc_inv [OF inv, where pc = CIdle and rs = survivors])
          (use lst(3) in \<open>simp_all add: CFree limbo_def Nil r\<close>)
      then show ?thesis using CFree Nil by (auto simp: consumer_step_def)
    next
      case (Cons c cs)
      have c: "mq_heap q c \<noteq> None" using ok(1) by (simp add: list_ok_def limbo_def CFree Cons)
      show ?thesis
      proof (cases "c \<in> set snapshot")
        case True
        have "mq_inv N (q\<lparr>consumer := CFree cs (c # survivors) snapshot\<rparr>) chain"
          by (rule consumer_pc_inv [OF inv, where pc = "CFree cs (c # survivors) snapshot" and rs = "retired q"])
            (use lst(3) in \<open>auto simp: CFree limbo_def Cons r\<close>)
        then show ?thesis using CFree Cons True c by (auto simp: consumer_step_def)
      next
        case False
        from free_inv [OF inv CFree [unfolded Cons] False refl] show ?thesis
          using CFree Cons False c by (auto simp: consumer_step_def)
      qed
    qed
  qed
qed

subsection \<open>Runs\<close>

lemma producer_step_inv:
  assumes inv: "mq_inv N q chain"
  shows "\<exists>q' chain'. producer_step p q = Next q' \<and> mq_inv N q' chain'"
proof (cases "p_pc (prods q p)")
  case PIdle
  then show ?thesis using inv by (auto simp: producer_step_def)
next
  case PLoadTail
  with load_tail_inv [OF inv PLoadTail] show ?thesis by (auto simp: producer_step_def)
next
  case (PStoreHazard t)
  with store_hazard_inv [OF inv PStoreHazard] show ?thesis by (auto simp: producer_step_def)
next
  case (PCheckTail t)
  with check_tail_inv [OF inv PCheckTail] show ?thesis by (auto simp: producer_step_def simp del: if_split)
next
  case (PLoadNext t)
  then obtain nd where "mq_heap q t = Some nd" using guarded_allocated(1) [OF inv, of p t] by auto
  with load_next_inv [OF inv PLoadNext this] PLoadNext show ?thesis by (auto simp: producer_step_def)
next
  case (PHelpTail t n)
  with help_tail_inv [OF inv PHelpTail] show ?thesis by (auto simp: producer_step_def)
next
  case (PLink t)
  then obtain nd where t: "mq_heap q t = Some nd" using guarded_allocated(1) [OF inv, of p t] by auto
  have "prod_ok q chain p" using inv by (simp add: mq_inv_def)
  then obtain new where new: "mq_heap q (p_node (prods q p)) = Some new" using PLink by (auto simp: prod_ok_def Let_def)
  show ?thesis
  proof (cases "nd_next nd")
    case None
    from link_inv [OF inv PLink t None refl new refl] show ?thesis using PLink t None new by (auto simp: producer_step_def)
  next
    case (Some n)
    have "mq_inv N (goto p PLoadTail q) chain"
      by (rule goto_inv [OF inv]) (use \<open>prod_ok q chain p\<close> PLink in \<open>simp_all add: prod_ok_def Let_def\<close>)
    then show ?thesis using PLink t Some by (auto simp: producer_step_def)
  qed
next
  case (PSwingTail t)
  with swing_tail_inv [OF inv PSwingTail] show ?thesis by (auto simp: producer_step_def)
next
  case PClear
  with clear_inv [OF inv PClear] show ?thesis by (auto simp: producer_step_def)
qed

lemma start_enqueue_inv:
  assumes inv: "mq_inv N q chain" and "p_pc (prods q p) = PIdle" "mq_heap q a = None"
  shows "start_enqueue N p a x q = Aborted \<or> (\<exists>q'. start_enqueue N p a x q = Next q' \<and> mq_inv N q' chain
    \<and> enq_log q' = enq_log q \<and> deq_log q' = deq_log q)"
proof (cases "p_slot (prods q p)")
  case None
  then show ?thesis
    using begin_inv [OF assms, of "slots_used q" "slots_used q + 1" _ x]
    by (cases "N \<le> slots_used q") (auto simp: start_enqueue_def Let_def)
next
  case (Some s)
  then show ?thesis
    using begin_inv [OF assms, of s "slots_used q" _ x] by (auto simp: start_enqueue_def Let_def)
qed

lemma mq_step_inv:
  assumes "mq_inv N q chain" "mq_step N q r"
  shows "r \<noteq> Fault \<and> (\<forall>q'. r = Next q' \<longrightarrow> (\<exists>chain'. mq_inv N q' chain'))"
  using assms(2)
proof cases
  case (begin_enqueue p a x)
  with start_enqueue_inv [OF assms(1) begin_enqueue(2,3), of x] show ?thesis by auto
next
  case (producer p)
  with producer_step_inv [OF assms(1), of p] show ?thesis by auto
next
  case consume
  with consumer_step_inv [OF assms(1)] show ?thesis by auto
qed

lemma MPSCQueue_inv: "mq_inv N (MPSCQueue sentinel (\<lambda>_. None)) [sentinel]"
  by (simp add: mq_inv_def MPSCQueue_def list_ok_def cons_ok_def values_ok_def threads_ok_def prod_ok_def limbo_def
      succ_of_def Let_def)

lemma mq_reach_inv: "mq_reach N (MPSCQueue sentinel (\<lambda>_. None)) q \<Longrightarrow> \<exists>chain. mq_inv N q chain"
proof (induction rule: mq_reach.induct)
  case mq_start
  then show ?case using MPSCQueue_inv by blast
next
  case (mq_next q q')
  then show ?case using mq_step_inv by blast
qed

text \<open>The values that have entered and not yet left.\<close>

definition waiting :: "'a mpsc \<Rightarrow> 'a list" where
  "waiting q = drop (length (deq_log q)) (enq_log q)"

lemma waiting_inv: "mq_inv N q chain \<Longrightarrow> enq_log q = deq_log q @ waiting q \<and> length (waiting q) = length chain - 1"
  by (auto simp: mq_inv_def values_ok_def waiting_def dest: arg_cong [of _ _ length])

lemma producer_step_log:
  assumes "mq_inv N q chain" "producer_step p q = Next q'"
  shows "deq_log q' = deq_log q \<and> (enq_log q' = enq_log q \<or> (\<exists>x. p_pc (prods q p) \<noteq> PIdle
    \<and> mq_heap q (p_node (prods q p)) = Some \<lparr>nd_data = Some x, nd_next = None\<rparr> \<and> enq_log q' = enq_log q @ [x]))"
proof -
  have ok: "prod_ok q chain p" using assms(1) by (simp add: mq_inv_def)
  then show ?thesis
    using assms(2) by (cases "p_pc (prods q p)")
      (auto simp: producer_step_def prod_ok_def Let_def split: option.splits if_splits)
qed

lemma consumer_step_log:
  assumes "mq_inv N q chain" "consumer_step N q = Next q'"
  shows "enq_log q' = enq_log q \<and> (deq_log q' = deq_log q \<or> (\<exists>x. deq_log q' = deq_log q @ [x]))"
proof (cases "consumer q")
  case (CTake h nx)
  obtain nd where nd: "mq_heap q nx = Some nd" using assms(2) CTake by (auto simp: consumer_step_def split: option.splits)
  obtain x where "nd_data nd = Some x" using take_inv [OF assms(1) CTake nd, of CIdle, OF _ refl] by auto
  then show ?thesis using assms(2) CTake nd by (auto simp: consumer_step_def)
qed (use assms(2) in \<open>auto simp: consumer_step_def split: option.splits if_splits list.splits\<close>)

section \<open>Properties\<close>

text \<open>
  C37: the queue is safe and first in, first out. In every interleaving of any number of producers
  with the consumer, from a queue for which no thread has a cached slot, no step looks into a
  freed node; each step leaves the waiting values alone, or appends the value of the producer
  that takes the step, or removes the oldest one; and a consumer that starts to dequeue finds
  nothing exactly when nothing is waiting.
\<close>

theorem mpsc_queue_is_safe_fifo:
  assumes "mq_reach N (MPSCQueue sentinel (\<lambda>_. None)) q" "mq_step N q r"
  shows "r \<noteq> Fault
    \<and> (\<forall>q'. r = Next q' \<longrightarrow> waiting q' = waiting q
        \<or> (\<exists>p x. mq_heap q (p_node (prods q p)) = Some \<lparr>nd_data = Some x, nd_next = None\<rparr>
             \<and> waiting q' = fifo_enqueue x (waiting q))
        \<or> (\<exists>x. fifo_try_dequeue (waiting q) = (Some x, waiting q') \<and> deq_log q' = deq_log q @ [x]))
    \<and> (consumer q = CIdle \<longrightarrow> (consumer_step N q = Next q \<longleftrightarrow> waiting q = []))"
proof -
  obtain chain where inv: "mq_inv N q chain" using mq_reach_inv [OF assms(1)] by blast
  note step = mq_step_inv [OF inv assms(2)]
  have log: "enq_log q = deq_log q @ waiting q" "length (waiting q) = length chain - 1" using waiting_inv [OF inv] by auto
  have "waiting q' = waiting q
        \<or> (\<exists>p x. mq_heap q (p_node (prods q p)) = Some \<lparr>nd_data = Some x, nd_next = None\<rparr>
             \<and> waiting q' = fifo_enqueue x (waiting q))
        \<or> (\<exists>x. fifo_try_dequeue (waiting q) = (Some x, waiting q') \<and> deq_log q' = deq_log q @ [x])" if r: "r = Next q'" for q'
  proof -
    have log': "enq_log q' = deq_log q' @ waiting q'" using step r waiting_inv by blast
    from assms(2) [unfolded r] show ?thesis
    proof cases
      case (begin_enqueue p a x)
      then show ?thesis using start_enqueue_inv [OF inv begin_enqueue(2,3), of x] by (auto simp: waiting_def)
    next
      case (producer p)
      then have "producer_step p q = Next q'" by simp
      from producer_step_log [OF inv this] log log' show ?thesis by (auto simp: fifo_enqueue_def)
    next
      case consume
      then have "consumer_step N q = Next q'" by simp
      from consumer_step_log [OF inv this] log(1) log' show ?thesis
        by (cases "waiting q") (auto simp: fifo_try_dequeue_def)
    qed
  qed
  moreover have "consumer_step N q = Next q \<longleftrightarrow> waiting q = []" if idle: "consumer q = CIdle"
  proof -
    have lst: "linked (mq_heap q) chain" "hd chain = mq_head q" using inv by (simp_all add: mq_inv_def list_ok_def)
    have "mq_head q \<in> set chain" using lst linked_nonempty [OF lst(1)] by (metis hd_in_set)
    then obtain nd where nd: "mq_heap q (mq_head q) = Some nd" using linked_allocated [OF lst(1)] by blast
    have "waiting q = [] \<longleftrightarrow> nd_next nd = None"
      using log(2) lst nd by (cases "(mq_heap q, chain)" rule: linked.cases) (auto simp: succ_of_def)
    moreover have "q\<lparr>consumer := CLoadTail h nx\<rparr> \<noteq> q" for h nx
    proof
      assume "q\<lparr>consumer := CLoadTail h nx\<rparr> = q"
      then have "consumer q = CLoadTail h nx" by (metis mpsc.select_convs(8) mpsc.surjective mpsc.update_convs(8))
      with idle show False by simp
    qed
    ultimately show ?thesis using idle nd by (auto simp: consumer_step_def split: option.splits)
  qed
  ultimately show ?thesis using step by blast
qed

text \<open>Schedules, to follow a run.\<close>

datatype 'a action = Begin nat nat 'a | Produce nat | Consume

fun run_schedule :: "nat \<Rightarrow> 'a mpsc \<Rightarrow> 'a action list \<Rightarrow> 'a mpsc option" where
  "run_schedule N q [] = Some q"
| "run_schedule N q (act # acts) =
     (case (case act of
         Begin p a x \<Rightarrow> if p_pc (prods q p) = PIdle \<and> mq_heap q a = None then start_enqueue N p a x q else Aborted
       | Produce p \<Rightarrow> producer_step p q
       | Consume \<Rightarrow> consumer_step N q) of
       Next q' \<Rightarrow> run_schedule N q' acts
     | _ \<Rightarrow> None)"

lemma run_schedule_reach: "mq_reach N q0 q \<Longrightarrow> run_schedule N q acts = Some q' \<Longrightarrow> mq_reach N q0 q'"
proof (induction acts arbitrary: q)
  case (Cons act acts)
  let ?r = "case act of Begin p a x \<Rightarrow> if p_pc (prods q p) = PIdle \<and> mq_heap q a = None then start_enqueue N p a x q else Aborted
       | Produce p \<Rightarrow> producer_step p q | Consume \<Rightarrow> consumer_step N q"
  obtain q1 where q1: "?r = Next q1" "run_schedule N q1 acts = Some q'"
    using Cons.prems(2) by (auto split: mq_result.splits)
  have "mq_step N q (Next q1)"
  proof (cases act)
    case (Begin p a x)
    then have "p_pc (prods q p) = PIdle" "mq_heap q a = None" "start_enqueue N p a x q = Next q1"
      using q1(1) by (auto split: if_splits)
    then show ?thesis by (metis begin_enqueue)
  next
    case (Produce p)
    then show ?thesis using q1(1) by (auto simp flip: q1(1) intro: producer)
  next
    case Consume
    then show ?thesis using q1(1) by (auto simp flip: q1(1) intro: consume)
  qed
  then have "mq_reach N q0 q1" using Cons.prems(1) mq_next by blast
  from Cons.IH [OF this q1(2)] show ?case .
qed simp

definition enqueue_actions :: "nat \<Rightarrow> nat \<Rightarrow> 'a \<Rightarrow> 'a action list" where
  "enqueue_actions p a x = Begin p a x # replicate 7 (Produce p)"

theorem mpsc_queue_is_safe_fifo_witness:
  "\<exists>q q'. run_schedule 2 (MPSCQueue 0 (\<lambda>_. None)) (enqueue_actions 0 1 ''a'' @ enqueue_actions 1 2 ''b'' @ [Consume, Consume]) = Some q
     \<and> waiting q = [''a'', ''b''] \<and> consumer_step 2 q = Next q' \<and> waiting q' = [''b'']"
proof -
  let ?acts = "enqueue_actions 0 1 ''a'' @ enqueue_actions 1 2 ''b'' @ [Consume, Consume]"
  have w: "map_option waiting (run_schedule 2 (MPSCQueue 0 (\<lambda>_. None)) ?acts) = Some [''a'', ''b'']"
    "map_option waiting (run_schedule 2 (MPSCQueue 0 (\<lambda>_. None)) (?acts @ [Consume])) = Some [''b'']" by code_simp+
  then obtain q where q: "run_schedule 2 (MPSCQueue 0 (\<lambda>_. None)) ?acts = Some q" "waiting q = [''a'', ''b'']" by auto
  have reach: "mq_reach 2 (MPSCQueue 0 (\<lambda>_. None)) q" by (rule run_schedule_reach [OF mq_start q(1)])
  have "run_schedule N q0 (as @ [Consume]) = (case run_schedule N q0 as of None \<Rightarrow> None
      | Some q \<Rightarrow> case consumer_step N q of Next q' \<Rightarrow> Some q' | _ \<Rightarrow> None)" for N as and q0 :: "string mpsc"
    by (induction as arbitrary: q0) (auto split: mq_result.splits)
  from this [of 2 "MPSCQueue 0 (\<lambda>_. None)" ?acts] obtain q' where q': "consumer_step 2 q = Next q'" "waiting q' = [''b'']"
    using w(2) unfolding q(1) by (auto split: mq_result.splits)
  from mpsc_queue_is_safe_fifo [OF reach consume] q(2) q' show ?thesis using q(1) by auto
qed

text \<open>
  A stale slot breaks the protection. The slot cache of a thread is keyed by the address of
  the queue and is never cleared, so a thread can hold a slot for a queue that has been destroyed
  when a new one is built at the same address. Such a thread shares the slot with the thread that
  acquires it in the new queue, and a run leads it into a freed node.
\<close>

lemma stale_slot_use_after_free:
  "\<exists>q :: nat mpsc. mq_reach 1 (MPSCQueue 0 (\<lambda>p. if p = 0 then Some 0 else None)) q \<and> mq_step 1 q Fault"
proof -
  let ?q0 = "MPSCQueue 0 (\<lambda>p. if p = 0 then Some 0 else None) :: nat mpsc"
  let ?acts = "Begin 0 1 7 # replicate 3 (Produce 0) @ enqueue_actions 1 2 8 @ enqueue_actions 1 3 9 @ replicate 12 Consume"
  have run: "map_option f r = Some True \<Longrightarrow> \<exists>q. r = Some q \<and> f q" for f and r :: "nat mpsc option"
    by (cases r) auto
  have "map_option (\<lambda>q. case producer_step 0 q of Fault \<Rightarrow> True | _ \<Rightarrow> False) (run_schedule 1 ?q0 ?acts) = Some True"
    by code_simp
  from run [OF this] obtain q where q: "run_schedule 1 ?q0 ?acts = Some q" "case producer_step 0 q of Fault \<Rightarrow> True | _ \<Rightarrow> False"
    by blast
  then have fault: "producer_step 0 q = Fault" by (cases "producer_step 0 q") simp_all
  have "mq_reach 1 ?q0 q" by (rule run_schedule_reach [OF mq_start q(1)])
  moreover have "mq_step 1 q Fault" using producer [of 1 q 0] fault by simp
  ultimately show ?thesis by blast
qed

end
