(* ===== verification/Mpsc_Destroy.thy ===== *)
theory Mpsc_Destroy
  imports Collab_Mpsc
begin

text \<open>
  The destructor of the queue between the threads, \<^verbatim>\<open>~MPSCQueue\<close> of
  \<^verbatim>\<open>core/include/collab/mpsc_queue.h\<close>, which a single thread runs when no other uses the queue any
  more. The loop that empties the queue is a partial function, so that its termination is a
  result; a second invariant of the runs says that every allocated node belongs to the queue or
  to a producer that has not linked it yet.
\<close>

section \<open>The destructor\<close>

text \<open>\<^verbatim>\<open>while (try_dequeue()) {}\<close>, in the steps of the consumer; an idle consumer that stays idle has found nothing.\<close>

partial_function (option) drain_queue :: "nat \<Rightarrow> 'a mpsc \<Rightarrow> 'a mq_result option" where
  [code]: "drain_queue N q =
     (case consumer_step N q of
        Next q' \<Rightarrow> if consumer q = CIdle \<and> consumer q' = CIdle then Some (Next q') else drain_queue N q'
      | r \<Rightarrow> Some r)"

text \<open>Deleting the nodes of a list; a node that is not allocated is a fault.\<close>

fun delete_all :: "nat list \<Rightarrow> (nat \<Rightarrow> 'a node option) \<Rightarrow> (nat \<Rightarrow> 'a node option) option" where
  "delete_all [] H = Some H"
| "delete_all (c # cs) H = (if H c = None then None else delete_all cs (H(c := None)))"

definition destroy_MPSCQueue :: "nat \<Rightarrow> 'a mpsc \<Rightarrow> 'a mq_result option" where
  "destroy_MPSCQueue N q =
     (case drain_queue N q of
        Some (Next q') \<Rightarrow>
          (case delete_all (retired q') (mq_heap q') of
             None \<Rightarrow> Some Fault
           | Some H \<Rightarrow>
               (case delete_all [mq_head q'] H of
                  None \<Rightarrow> Some Fault
                | Some H \<Rightarrow> Some (Next (q'\<lparr>mq_heap := H\<rparr>))))
      | r \<Rightarrow> r)"

section \<open>Every node has an owner\<close>

definition no_leak :: "'a mpsc \<Rightarrow> nat list \<Rightarrow> bool" where
  "no_leak q chain =
     (\<forall>a. mq_heap q a \<noteq> None \<longrightarrow> a \<in> set chain \<or> a \<in> set (limbo q)
        \<or> (\<exists>p. owning (p_pc (prods q p)) \<and> p_node (prods q p) = a))"

lemma linked_unique: "linked H xs \<Longrightarrow> linked H ys \<Longrightarrow> hd xs = hd ys \<Longrightarrow> xs = ys"
proof (induction H xs arbitrary: ys rule: linked.induct)
  case (2 H a)
  then show ?case by (cases "(H, ys)" rule: linked.cases) auto
next
  case (3 H a b as)
  then obtain zs where "ys = a # b # zs" "linked H (b # zs)" by (cases "(H, ys)" rule: linked.cases) auto
  with 3(1) [of "b # zs"] 3(2) show ?case by simp
qed simp

lemma same_chain:
  assumes "mq_inv N q chain" "mq_inv N q' chain'" "mq_heap q' = mq_heap q" "mq_head q' = mq_head q"
  shows "chain' = chain"
  using linked_unique [of "mq_heap q" chain' chain] assms by (simp add: mq_inv_def list_ok_def)

lemma start_enqueue_no_leak:
  assumes "no_leak q chain" "p_pc (prods q p) = PIdle" "start_enqueue N p a x q = Next q'"
  shows "no_leak q' chain"
proof -
  have heap: "mq_heap q' = (mq_heap q)(a \<mapsto> \<lparr>nd_data = Some x, nd_next = None\<rparr>)" "limbo q' = limbo q"
    and p: "p_node (prods q' p) = a" "owning (p_pc (prods q' p))" and r: "\<And>r. r \<noteq> p \<Longrightarrow> prods q' r = prods q r"
    using assms(3) by (auto simp: start_enqueue_def Let_def limbo_def split: option.splits if_splits)
  have "prods q' r = prods q r" if "owning (p_pc (prods q r))" for r using that assms(2) r by (cases "r = p") auto
  then show ?thesis using assms(1) p unfolding no_leak_def heap by (metis fun_upd_other)
qed

lemma producer_step_no_leak:
  assumes inv: "mq_inv N q chain" and tight: "no_leak q chain" and step: "producer_step p q = Next q'"
  shows "\<exists>chain'. mq_inv N q' chain' \<and> no_leak q' chain'"
proof (cases "\<exists>t nd. p_pc (prods q p) = PLink t \<and> mq_heap q t = Some nd \<and> nd_next nd = None")
  case True
  then obtain t nd where t: "p_pc (prods q p) = PLink t" "mq_heap q t = Some nd" "nd_next nd = None" by blast
  have "prod_ok q chain p" using inv by (simp add: mq_inv_def)
  then obtain new where new: "mq_heap q (p_node (prods q p)) = Some new" using t(1) by (auto simp: prod_ok_def Let_def)
  have q': "q' = goto p (PSwingTail t) (q\<lparr>mq_heap := (mq_heap q)(t \<mapsto> nd\<lparr>nd_next := Some (p_node (prods q p))\<rparr>),
      enq_log := enq_log q @ (case nd_data new of Some x \<Rightarrow> [x] | None \<Rightarrow> [])\<rparr>)"
    using step t new by (simp add: producer_step_def)
  have heap: "mq_heap q' a \<noteq> None \<longleftrightarrow> mq_heap q a \<noteq> None" "limbo q' = limbo q"
    "r \<noteq> p \<Longrightarrow> prods q' r = prods q r" for a r
    using t(2) by (simp_all add: q' limbo_def)
  have "no_leak q' (chain @ [p_node (prods q p)])"
    unfolding no_leak_def
  proof (intro allI impI)
    fix a assume "mq_heap q' a \<noteq> None"
    then consider "a \<in> set chain \<or> a \<in> set (limbo q)" | r where "owning (p_pc (prods q r))" "p_node (prods q r) = a"
      using tight heap(1) unfolding no_leak_def by blast
    then show "a \<in> set (chain @ [p_node (prods q p)]) \<or> a \<in> set (limbo q')
      \<or> (\<exists>r. owning (p_pc (prods q' r)) \<and> p_node (prods q' r) = a)"
      by cases (use heap(2,3) in \<open>auto, metis\<close>)
  qed
  with link_inv [OF inv t refl new q'] show ?thesis by blast
next
  case False
  have same: "mq_heap q' = mq_heap q" "mq_head q' = mq_head q" "limbo q' = limbo q"
    "p_node (prods q' r) = p_node (prods q r)" "owning (p_pc (prods q r)) \<Longrightarrow> owning (p_pc (prods q' r))" for r
    using step False by (auto simp: producer_step_def split: prod_pc.splits option.splits if_splits)
  obtain chain' where inv': "mq_inv N q' chain'" using producer_step_inv [OF inv, of p] step by auto
  have "chain' = chain" by (rule same_chain [OF inv inv' same(1,2)])
  moreover have "no_leak q' chain" using tight same unfolding no_leak_def by metis
  ultimately show ?thesis using inv' by blast
qed

text \<open>
  The rest of a call of \<^verbatim>\<open>try_dequeue\<close> is bounded: a value that leaves shortens the list, and
  between two such steps the consumer moves forward.
\<close>

fun phase :: "cons_pc \<Rightarrow> nat" where
  "phase CReclaim = 7"
| "phase (CScan _ _ _) = 6"
| "phase (CFree _ _ _) = 5"
| "phase CIdle = 4"
| "phase (CLoadTail _ _) = 3"
| "phase (CHelpTail _ _) = 2"
| "phase (CTake _ _) = 1"

fun to_do :: "cons_pc \<Rightarrow> nat" where
  "to_do (CScan used i _) = used - i"
| "to_do (CFree cur _ _) = length cur"
| "to_do _ = 0"

definition dequeue_order :: "('a mpsc \<times> nat list) rel" where
  "dequeue_order = measures [\<lambda>(q, chain). length chain, \<lambda>(q, chain). phase (consumer q), \<lambda>(q, chain). to_do (consumer q)]"

lemma consumer_step_no_leak:
  assumes inv: "mq_inv N q chain" and tight: "no_leak q chain" and step: "consumer_step N q = Next q'"
  shows "\<exists>chain'. mq_inv N q' chain' \<and> no_leak q' chain'
    \<and> (consumer q = CIdle \<and> q' = q \<and> length chain = 1
       \<or> \<not> (consumer q = CIdle \<and> consumer q' = CIdle) \<and> ((q', chain'), (q, chain)) \<in> dequeue_order)"
proof -
  have ok: "list_ok q chain" "cons_ok q" using inv by (simp_all add: mq_inv_def)
  have prods: "prods q' = prods q"
    using step by (auto simp: consumer_step_def cas_tail_def split: cons_pc.splits option.splits list.splits if_splits)
  obtain chain1 where inv1: "mq_inv N q' chain1" using consumer_step_inv [OF inv] step by auto
  consider (take) h nx where "consumer q = CTake h nx"
    | (free) c cs survivors snapshot where "consumer q = CFree (c # cs) survivors snapshot" "c \<notin> set snapshot"
    | (other) "mq_heap q' = mq_heap q" "mq_head q' = mq_head q" "set (limbo q') = set (limbo q)"
        "phase (consumer q') < phase (consumer q)
         \<or> phase (consumer q') = phase (consumer q) \<and> to_do (consumer q') < to_do (consumer q)
         \<or> consumer q = CIdle \<and> q' = q \<and> succ_of (mq_heap q) (mq_head q) = None"
    using step ok(2)
    by (cases "consumer q")
      (auto simp: consumer_step_def limbo_def cons_ok_def succ_of_def split: option.splits list.splits if_splits)
  then show ?thesis
  proof cases
    case take
    then obtain nd where nd: "mq_heap q nx = Some nd" using step by (auto simp: consumer_step_def split: option.splits)
    let ?pc = "if 2 * N \<le> length (h # retired q) then CReclaim else CIdle"
    have "mq_inv N q' (tl chain)" using take_inv [OF inv take nd, of ?pc q'] step take nd by (simp add: consumer_step_def)
    moreover have "h = mq_head q" "hd chain = mq_head q" "chain \<noteq> []"
      using ok take linked_nonempty by (auto simp: list_ok_def cons_ok_def)
    then have ch: "chain = h # tl chain" by (metis list.collapse)
    have "mq_heap q' a \<noteq> None \<longleftrightarrow> mq_heap q a \<noteq> None" "limbo q' = h # limbo q" for a
      using step nd by (auto simp: consumer_step_def take limbo_def split: if_splits)
    then have "no_leak q' (tl chain)"
      using tight prods unfolding no_leak_def by (metis ch list.set_intros set_ConsD)
    moreover have "length (tl chain) < length chain" using ch by (metis length_Cons lessI)
    ultimately show ?thesis using take by (intro exI [of _ "tl chain"]) (simp add: dequeue_order_def)
  next
    case free
    then have q': "q' = q\<lparr>mq_heap := (mq_heap q)(c := None), consumer := CFree cs survivors snapshot\<rparr>"
      using step by (simp add: consumer_step_def split: if_splits)
    have "set (limbo q) = insert c (set (limbo q'))" by (simp add: q' limbo_def free)
    then have "no_leak q' chain" using tight unfolding no_leak_def by (auto simp: q')
    with free_inv [OF inv free q'] show ?thesis
      by (intro exI [of _ chain]) (simp add: q' free dequeue_order_def)
  next
    case other
    have ch: "chain1 = chain" by (rule same_chain [OF inv inv1 other(1,2)])
    have "no_leak q' chain" using tight other(1,3) prods unfolding no_leak_def by metis
    moreover have "length chain = 1" if "succ_of (mq_heap q) (mq_head q) = None"
      using ok(1) that by (cases "(mq_heap q, chain)" rule: linked.cases) (auto simp: list_ok_def)
    ultimately show ?thesis using inv1 other(4) unfolding ch by (auto simp: dequeue_order_def)
  qed
qed

text \<open>Every reachable queue satisfies both invariants.\<close>

lemma mq_step_no_leak:
  assumes inv: "mq_inv N q chain" and tight: "no_leak q chain" and step: "mq_step N q (Next q')"
  shows "\<exists>chain'. mq_inv N q' chain' \<and> no_leak q' chain'"
  using step
proof cases
  case (begin_enqueue p a x)
  then have start: "start_enqueue N p a x q = Next q'" by simp
  from start_enqueue_inv [OF inv begin_enqueue(2,3), of x] start_enqueue_no_leak [OF tight begin_enqueue(2) start] start
  show ?thesis by auto
next
  case (producer p)
  then show ?thesis using producer_step_no_leak [OF inv tight, of p] by simp
next
  case consume
  then show ?thesis using consumer_step_no_leak [OF inv tight] by metis
qed

lemma mq_reach_no_leak:
  "mq_reach N (MPSCQueue sentinel (\<lambda>_. None)) q \<Longrightarrow> \<exists>chain. mq_inv N q chain \<and> no_leak q chain"
proof (induction rule: mq_reach.induct)
  case mq_start
  have "no_leak (MPSCQueue sentinel (\<lambda>_. None) :: 'a mpsc) [sentinel]"
    by (simp add: no_leak_def MPSCQueue_def)
  then show ?case using MPSCQueue_inv by blast
next
  case (mq_next q q')
  then show ?case using mq_step_no_leak by blast
qed

section \<open>Destruction\<close>

lemma drain_queue_returns:
  assumes "mq_inv N q chain" "no_leak q chain"
  shows "\<exists>q'. drain_queue N q = Some (Next q') \<and> mq_inv N q' [mq_head q'] \<and> no_leak q' [mq_head q']
    \<and> consumer q' = CIdle \<and> prods q' = prods q \<and> enq_log q' = enq_log q"
  using assms
proof (induction "(q, chain)" arbitrary: q chain rule: wf_induct_rule [OF wf_measures, of
    "[\<lambda>(q, chain). length chain, \<lambda>(q, chain). phase (consumer q), \<lambda>(q, chain). to_do (consumer q)]"])
  case (1 q chain)
  obtain q' where step: "consumer_step N q = Next q'" using consumer_step_inv [OF 1(2)] by blast
  have same: "prods q' = prods q" "enq_log q' = enq_log q"
    using step by (auto simp: consumer_step_def cas_tail_def split: cons_pc.splits option.splits list.splits if_splits)
  obtain chain' where c: "mq_inv N q' chain'" "no_leak q' chain'"
    "consumer q = CIdle \<and> q' = q \<and> length chain = 1
     \<or> \<not> (consumer q = CIdle \<and> consumer q' = CIdle) \<and> ((q', chain'), (q, chain)) \<in> dequeue_order"
    using consumer_step_no_leak [OF 1(2,3) step] by blast
  from c(3) show ?case
  proof
    assume idle: "consumer q = CIdle \<and> q' = q \<and> length chain = 1"
    then have "chain = [mq_head q]"
      using 1(2) by (cases chain) (auto simp: mq_inv_def list_ok_def)
    then show ?case using idle step 1(2,3) by (subst drain_queue.simps) simp
  next
    assume on: "\<not> (consumer q = CIdle \<and> consumer q' = CIdle) \<and> ((q', chain'), (q, chain)) \<in> dequeue_order"
    from 1(1) [OF _ c(1,2)] on same show ?case
      by (subst drain_queue.simps) (auto simp: step dequeue_order_def)
  qed
qed

lemma delete_all_distinct:
  "distinct cs \<Longrightarrow> \<forall>c \<in> set cs. H c \<noteq> None \<Longrightarrow> delete_all cs H = Some (\<lambda>a. if a \<in> set cs then None else H a)"
proof (induction cs arbitrary: H)
  case (Cons c cs)
  then have "delete_all cs (H(c := None)) = Some (\<lambda>a. if a \<in> set cs then None else (H(c := None)) a)"
    by (intro Cons.IH) auto
  moreover have "H c \<noteq> None" using Cons.prems by simp
  ultimately show ?case by (auto simp: fun_eq_iff)
qed simp

text \<open>
  C40: the destructor neither leaks nor frees twice. Once every producer has left \<^verbatim>\<open>enqueue\<close>, whatever
  interleaving led there, the destructor returns, no delete meets a freed node, afterwards no
  node of the queue is allocated, and every value that entered the queue has left it in order.
\<close>

theorem destructor_frees_every_node:
  assumes "mq_reach N (MPSCQueue sentinel (\<lambda>_. None)) q" "\<forall>p. p_pc (prods q p) = PIdle"
  shows "\<exists>q'. destroy_MPSCQueue N q = Some (Next q') \<and> mq_heap q' = (\<lambda>_. None) \<and> deq_log q' = enq_log q"
proof -
  obtain chain where "mq_inv N q chain" "no_leak q chain" using mq_reach_no_leak [OF assms(1)] by blast
  from drain_queue_returns [OF this] obtain q' where q': "drain_queue N q = Some (Next q')" "mq_inv N q' [mq_head q']"
    "no_leak q' [mq_head q']" "consumer q' = CIdle" "prods q' = prods q" "enq_log q' = enq_log q" by blast
  have lst: "distinct (mq_head q' # retired q')" "\<forall>c \<in> set (mq_head q' # retired q'). mq_heap q' c \<noteq> None"
    using q'(2,4) by (auto simp: mq_inv_def list_ok_def limbo_def)
  define H where "H = (\<lambda>a. if a \<in> set (retired q') then None else mq_heap q' a)"
  have "delete_all (retired q') (mq_heap q') = Some H" unfolding H_def by (rule delete_all_distinct) (use lst in simp_all)
  moreover have "delete_all [mq_head q'] H = Some (H(mq_head q' := None))" using lst by (auto simp: H_def)
  moreover have "mq_heap q' a = None" if "a \<notin> set (mq_head q' # retired q')" for a
    using q'(3,4,5) assms(2) that by (auto simp: no_leak_def limbo_def)
  then have "H(mq_head q' := None) = (\<lambda>_. None)" by (auto simp: H_def)
  moreover have "deq_log q' = enq_log q" using waiting_inv [OF q'(2)] q'(6) by simp
  ultimately show ?thesis by (auto simp: destroy_MPSCQueue_def q'(1))
qed

text \<open>A producer that takes no step in a schedule stays where it is.\<close>

fun acts_of :: "nat \<Rightarrow> 'a action \<Rightarrow> bool" where
  "acts_of p (Begin r _ _) = (r = p)"
| "acts_of p (Produce r) = (r = p)"
| "acts_of p Consume = False"

lemma run_schedule_others:
  "run_schedule N q acts = Some q' \<Longrightarrow> list_all (\<lambda>act. \<not> acts_of p act) acts \<Longrightarrow> prods q' p = prods q p"
proof (induction acts arbitrary: q)
  case (Cons act acts)
  then show ?case
    by (cases act) (auto simp: start_enqueue_def producer_step_def consumer_step_def cas_tail_def set_hazard_def
        Let_def goto_def dest!: Cons.IH
        split: mq_result.splits prod_pc.splits cons_pc.splits option.splits list.splits if_splits)
qed simp

theorem destructor_frees_every_node_witness:
  "\<exists>q q'. run_schedule 2 (MPSCQueue 0 (\<lambda>_. None))
       (enqueue_actions 0 1 ''a'' @ enqueue_actions 1 2 ''b'' @ replicate 3 Consume) = Some q
     \<and> destroy_MPSCQueue 2 q = Some (Next q') \<and> mq_heap q' = (\<lambda>_. None) \<and> deq_log q' = [''a'', ''b'']"
proof -
  let ?acts = "enqueue_actions 0 1 ''a'' @ enqueue_actions 1 2 ''b'' @ replicate 3 Consume"
  let ?run = "run_schedule 2 (MPSCQueue 0 (\<lambda>_. None)) ?acts"
  have "map_option (\<lambda>q. (p_pc (prods q 0) = PIdle \<and> p_pc (prods q 1) = PIdle, enq_log q)) ?run = Some (True, [''a'', ''b''])"
    by code_simp
  then obtain q where q: "?run = Some q" "p_pc (prods q 0) = PIdle" "p_pc (prods q 1) = PIdle" "enq_log q = [''a'', ''b'']"
    by auto
  have "p_pc (prods q p) = PIdle" for p
  proof (cases "p = 0 \<or> p = 1")
    case False
    then have "list_all (\<lambda>act. \<not> acts_of p act) ?acts" by (simp add: enqueue_actions_def list_all_iff)
    from run_schedule_others [OF q(1) this] show ?thesis by (simp add: MPSCQueue_def)
  qed (use q(2,3) in auto)
  with destructor_frees_every_node [OF run_schedule_reach [OF mq_start q(1)]] q show ?thesis by metis
qed

end
