(* ===== verification/Thread_Pool.thy ===== *)
theory Thread_Pool
  imports Collab_Fifo "HOL-Library.Multiset"
begin

text \<open>
  The pool that runs the server's message handlers, \<^verbatim>\<open>core/src/thread_pool.cpp\<close>.

  The queue is guarded by \<^verbatim>\<open>queue_mutex_\<close>, so a submission, taking a task and one evaluation of the
  predicate of \<^verbatim>\<open>wait_idle\<close> are single steps; the two updates of the atomic counter \<^verbatim>\<open>active_tasks_\<close>
  are steps of their own, and the task runs between them. A task is a number; what it does and
  whether it throws, which the worker ignores, is outside the pool. The logs of submitted and
  finished tasks are not part of the program.
\<close>

section \<open>State and steps\<close>

text \<open>Where a worker is: waiting, holding a task it has taken, running it, done with it, returned.\<close>

datatype worker_pc = Waiting | Taken nat | Running nat | Ran nat | Returned

record thread_pool =
  tasks :: "nat list"
  active_tasks :: int
  worker_pcs :: "worker_pc list"
  stop_requests :: "bool list"
  joined :: nat
  notified :: nat
  submitted :: "nat list"
  finished :: "nat list"

definition ThreadPool :: "nat \<Rightarrow> thread_pool" where
  "ThreadPool num_threads =
     \<lparr>tasks = [], active_tasks = 0, worker_pcs = replicate num_threads Waiting,
      stop_requests = replicate num_threads False, joined = 0, notified = 0, submitted = [], finished = []\<rparr>"

definition submit :: "nat \<Rightarrow> thread_pool \<Rightarrow> thread_pool" where
  "submit task p = p\<lparr>tasks := fifo_enqueue task (tasks p), submitted := submitted p @ [task]\<rparr>"

text \<open>The predicate \<^verbatim>\<open>wait_idle\<close> waits for; it returns when an evaluation yields true.\<close>

definition idle :: "thread_pool \<Rightarrow> bool" where
  "idle p = (tasks p = [] \<and> active_tasks p = 0)"

text \<open>
  The destructor of the pool destroys the threads one after the other: each is asked to stop and
  then waited for. A worker that has been asked returns when it finds no task. \<open>joined\<close> counts the
  threads that are destroyed; the destructor has returned when it is the number of workers.
\<close>

definition destroy_step :: "thread_pool \<Rightarrow> thread_pool" where
  "destroy_step p =
     (let w = joined p
      in if length (worker_pcs p) \<le> w then p
         else if \<not> stop_requests p ! w then p\<lparr>stop_requests := (stop_requests p)[w := True]\<rparr>
         else if worker_pcs p ! w = Returned then p\<lparr>joined := Suc w\<rparr>
         else p)"

definition worker_step :: "nat \<Rightarrow> thread_pool \<Rightarrow> thread_pool" where
  "worker_step w p =
     (case worker_pcs p ! w of
        Waiting \<Rightarrow>
          (case fifo_try_dequeue (tasks p) of
             (Some task, rest) \<Rightarrow> p\<lparr>tasks := rest, worker_pcs := (worker_pcs p)[w := Taken task]\<rparr>
           | (None, _) \<Rightarrow> if stop_requests p ! w then p\<lparr>worker_pcs := (worker_pcs p)[w := Returned]\<rparr> else p)
      | Taken task \<Rightarrow> p\<lparr>active_tasks := active_tasks p + 1, worker_pcs := (worker_pcs p)[w := Running task]\<rparr>
      | Running task \<Rightarrow> p\<lparr>finished := finished p @ [task], worker_pcs := (worker_pcs p)[w := Ran task]\<rparr>
      | Ran task \<Rightarrow>
          (let remaining = active_tasks p - 1;
               p = p\<lparr>active_tasks := remaining, worker_pcs := (worker_pcs p)[w := Waiting]\<rparr>
           in if remaining = 0 then p\<lparr>notified := notified p + 1\<rparr> else p)
      | Returned \<Rightarrow> p)"

inductive pool_step :: "thread_pool \<Rightarrow> thread_pool \<Rightarrow> bool" where
  pool_submit: "pool_step p (submit task p)"
| pool_destroy: "pool_step p (destroy_step p)"
| pool_worker: "w < length (worker_pcs p) \<Longrightarrow> pool_step p (worker_step w p)"

section \<open>Accounting\<close>

definition held :: "worker_pc \<Rightarrow> nat multiset" where
  "held pc = (case pc of Taken t \<Rightarrow> {#t#} | Running t \<Rightarrow> {#t#} | _ \<Rightarrow> {#})"

definition counted :: "worker_pc \<Rightarrow> int" where
  "counted pc = (case pc of Running _ \<Rightarrow> 1 | Ran _ \<Rightarrow> 1 | _ \<Rightarrow> 0)"

text \<open>
  Every submitted task is waiting, held by one worker or finished, each as often as it was
  submitted; what was taken out of the queue is what was submitted first; and the counter is the
  number of workers between its two updates.
\<close>

definition pool_inv :: "thread_pool \<Rightarrow> bool" where
  "pool_inv p =
     (mset (submitted p) = mset (tasks p) + (\<Sum>pc \<in># mset (worker_pcs p). held pc) + mset (finished p)
      \<and> (\<exists>taken. submitted p = taken @ tasks p)
      \<and> active_tasks p = (\<Sum>pc \<leftarrow> worker_pcs p. counted pc))"

lemma sum_update:
  fixes f :: "worker_pc \<Rightarrow> 'b :: ab_group_add"
  assumes "w < length xs"
  shows "(\<Sum>x \<leftarrow> xs[w := y]. f x) = (\<Sum>x \<leftarrow> xs. f x) - f (xs ! w) + f y"
  using assms
proof (induction xs arbitrary: w)
  case (Cons x xs)
  then show ?case by (cases w) (simp_all add: algebra_simps)
qed simp

lemma held_update:
  assumes "w < length xs"
  shows "(\<Sum>pc \<in># mset (xs[w := y]). held pc) + held (xs ! w) = (\<Sum>pc \<in># mset xs. held pc) + held y"
  using assms
proof (induction xs arbitrary: w)
  case (Cons x xs)
  then show ?case by (cases w) (simp_all add: algebra_simps)
qed simp

lemma pool_inv_init: "pool_inv (ThreadPool n)"
  by (induction n) (simp_all add: pool_inv_def ThreadPool_def held_def counted_def)

lemma worker_step_inv:
  assumes "pool_inv p" "w < length (worker_pcs p)"
  shows "pool_inv (worker_step w p)"
proof -
  note upd = held_update [OF assms(2)] sum_update [OF assms(2), of counted]
  show ?thesis
  proof (cases "worker_pcs p ! w")
    case Waiting
    show ?thesis
    proof (cases "tasks p")
      case Nil
      with Waiting assms(1) upd(1) [of Returned] upd(2) [of Returned] show ?thesis
        by (simp add: worker_step_def fifo_try_dequeue_def pool_inv_def held_def counted_def)
    next
      case (Cons t ts)
      with Waiting assms(1) upd(1) [of "Taken t"] upd(2) [of "Taken t"] show ?thesis
        by (auto simp: worker_step_def fifo_try_dequeue_def pool_inv_def held_def counted_def)
    qed
  next
    case (Taken t)
    with assms(1) upd(1) [of "Running t"] upd(2) [of "Running t"] show ?thesis
      by (auto simp: worker_step_def pool_inv_def held_def counted_def)
  next
    case (Running t)
    with assms(1) upd(1) [of "Ran t"] upd(2) [of "Ran t"] show ?thesis
      by (auto simp: worker_step_def pool_inv_def held_def counted_def ac_simps)
  next
    case (Ran t)
    with assms(1) upd(1) [of Waiting] upd(2) [of Waiting] show ?thesis
      by (auto simp: worker_step_def pool_inv_def held_def counted_def Let_def)
  next
    case Returned
    with assms(1) show ?thesis by (simp add: worker_step_def)
  qed
qed

lemma pool_step_inv: "pool_step p p' \<Longrightarrow> pool_inv p \<Longrightarrow> pool_inv p'"
  by (induction rule: pool_step.induct)
    (auto simp: pool_inv_def submit_def fifo_enqueue_def destroy_step_def Let_def worker_step_inv [unfolded pool_inv_def] ac_simps)

lemma pool_reachable_inv: "pool_step\<^sup>*\<^sup>* (ThreadPool n) p \<Longrightarrow> pool_inv p"
  by (induction rule: rtranclp_induct) (auto intro: pool_inv_init pool_step_inv)

lemma nothing_counted: "(\<Sum>pc \<leftarrow> pcs. counted pc) = 0 \<Longrightarrow> pc \<in> set pcs \<Longrightarrow> counted pc = 0"
proof -
  assume *: "(\<Sum>pc \<leftarrow> pcs. counted pc) = 0" "pc \<in> set pcs"
  have "\<forall>x \<in> set (map counted pcs). 0 \<le> x" by (auto simp: counted_def split: worker_pc.splits)
  with * show "counted pc = 0" using sum_list_nonneg_eq_0_iff [of "map counted pcs"] by auto
qed

lemma nothing_held: "(\<And>pc. pc \<in> set pcs \<Longrightarrow> held pc = {#}) \<Longrightarrow> (\<Sum>pc \<in># mset pcs. held pc) = {#}"
  by (induction pcs) simp_all

lemma pool_at_rest:
  assumes "pool_inv p" "idle p" "\<forall>t. Taken t \<notin> set (worker_pcs p)"
  shows "mset (finished p) = mset (submitted p)"
proof -
  have "(\<Sum>pc \<leftarrow> worker_pcs p. counted pc) = 0" "tasks p = []" using assms(1,2) by (simp_all add: pool_inv_def idle_def)
  then have "held pc = {#}" if "pc \<in> set (worker_pcs p)" for pc
    using nothing_counted [of "worker_pcs p" pc] that assms(3)
    by (cases pc) (auto simp: held_def counted_def)
  then have "(\<Sum>pc \<in># mset (worker_pcs p). held pc) = {#}" by (rule nothing_held)
  with assms(1) \<open>tasks p = []\<close> show ?thesis by (simp add: pool_inv_def)
qed

section \<open>The destructor\<close>

text \<open>The steps while the pool is destroyed and nobody submits tasks any more.\<close>

inductive closing_step :: "thread_pool \<Rightarrow> thread_pool \<Rightarrow> bool" where
  closing_destroy: "closing_step p (destroy_step p)"
| closing_worker: "w < length (worker_pcs p) \<Longrightarrow> closing_step p (worker_step w p)"

text \<open>A worker returns only when it has been asked to, and then there is no task.\<close>

definition asked_inv :: "thread_pool \<Rightarrow> bool" where
  "asked_inv p = (length (stop_requests p) = length (worker_pcs p) \<and> joined p \<le> length (worker_pcs p)
     \<and> (\<forall>w < length (worker_pcs p). worker_pcs p ! w = Returned \<longrightarrow> stop_requests p ! w)
     \<and> (\<forall>w < joined p. worker_pcs p ! w = Returned))"

definition closing_inv :: "thread_pool \<Rightarrow> bool" where
  "closing_inv p = (pool_inv p \<and> asked_inv p \<and> (Returned \<in> set (worker_pcs p) \<longrightarrow> tasks p = []))"

lemma worker_step_pcs:
  assumes "w < length (worker_pcs p)"
  shows "length (worker_pcs (worker_step w p)) = length (worker_pcs p)"
    "stop_requests (worker_step w p) = stop_requests p" "joined (worker_step w p) = joined p"
    "i < length (worker_pcs p) \<Longrightarrow> worker_pcs (worker_step w p) ! i = Returned
       \<longleftrightarrow> worker_pcs p ! i = Returned \<or> i = w \<and> worker_pcs p ! w = Waiting \<and> tasks p = [] \<and> stop_requests p ! w"
    "tasks (worker_step w p) = [] \<longleftrightarrow> tasks p = [] \<or> worker_pcs p ! w = Waiting \<and> tl (tasks p) = []"
  using assms
  by (auto simp: worker_step_def fifo_try_dequeue_def Let_def nth_list_update split: worker_pc.splits list.splits)

lemma asked_inv_step: "pool_step p p' \<Longrightarrow> asked_inv p \<Longrightarrow> asked_inv p'"
proof (induction rule: pool_step.induct)
  case (pool_submit p task)
  then show ?case by (simp add: asked_inv_def submit_def)
next
  case (pool_destroy p)
  then show ?case by (auto simp: asked_inv_def destroy_step_def Let_def nth_list_update less_Suc_eq)
next
  case (pool_worker w p)
  then show ?case using worker_step_pcs(4) [OF pool_worker.hyps] by (auto simp: asked_inv_def worker_step_pcs)
qed

lemma reachable_asked_inv: "pool_step\<^sup>*\<^sup>* (ThreadPool n) p \<Longrightarrow> asked_inv p \<and> length (worker_pcs p) = n"
proof (induction rule: rtranclp_induct)
  case base
  then show ?case by (simp add: asked_inv_def ThreadPool_def)
next
  case (step p p')
  then have "length (worker_pcs p') = length (worker_pcs p)"
    by (auto simp: submit_def destroy_step_def Let_def worker_step_pcs elim!: pool_step.cases)
  with step show ?case using asked_inv_step by simp
qed

lemma closing_inv_step: "closing_step p p' \<Longrightarrow> closing_inv p \<Longrightarrow> closing_inv p' \<and> submitted p' = submitted p
    \<and> length (worker_pcs p') = length (worker_pcs p)"
proof (induction rule: closing_step.induct)
  case (closing_destroy p)
  then show ?case
    using pool_step_inv [OF pool_destroy] asked_inv_step [OF pool_destroy]
    by (auto simp: closing_inv_def destroy_step_def Let_def)
next
  case (closing_worker w p)
  let ?q = "worker_step w p"
  have "tasks ?q = []" if "Returned \<in> set (worker_pcs ?q)"
  proof -
    from that obtain i where "i < length (worker_pcs p)" "worker_pcs ?q ! i = Returned"
      using worker_step_pcs(1) [OF closing_worker(1)] by (auto simp: in_set_conv_nth)
    moreover from this have "worker_pcs p ! i = Returned \<Longrightarrow> Returned \<in> set (worker_pcs p)" by (metis nth_mem)
    ultimately show ?thesis
      using closing_worker worker_step_pcs(4,5) [OF closing_worker(1)] by (auto simp: closing_inv_def)
  qed
  moreover have "submitted ?q = submitted p"
    by (auto simp: worker_step_def fifo_try_dequeue_def Let_def split: worker_pc.splits list.splits)
  ultimately show ?case
    using closing_worker pool_step_inv [OF pool_worker] asked_inv_step [OF pool_worker] worker_step_pcs(1) [OF closing_worker(1)]
    by (simp add: closing_inv_def)
qed

lemma closing_run_inv: "closing_step\<^sup>*\<^sup>* p p' \<Longrightarrow> closing_inv p \<Longrightarrow> closing_inv p' \<and> submitted p' = submitted p
    \<and> length (worker_pcs p') = length (worker_pcs p)"
  by (induction rule: rtranclp_induct) (auto dest: closing_inv_step)

lemma destroyed_finished:
  assumes "closing_inv p" "joined p = length (worker_pcs p)" "worker_pcs p \<noteq> []"
  shows "mset (finished p) = mset (submitted p)"
proof -
  have ret: "pc = Returned" if "pc \<in> set (worker_pcs p)" for pc
    using that assms(1,2) by (auto simp: closing_inv_def asked_inv_def in_set_conv_nth)
  then have "Returned \<in> set (worker_pcs p)" using assms(3) by (metis list.set_intros(1) neq_Nil_conv)
  then have "tasks p = []" using assms(1) by (simp add: closing_inv_def)
  moreover have "(\<Sum>pc \<in># mset (worker_pcs p). held pc) = {#}"
  proof (rule nothing_held)
    fix pc
    assume "pc \<in> set (worker_pcs p)"
    then have "pc = Returned" by (rule ret)
    then show "held pc = {#}" by (simp add: held_def)
  qed
  ultimately show ?thesis using assms(1) by (simp add: closing_inv_def pool_inv_def)
qed

text \<open>What is left to do until the destructor returns.\<close>

definition pc_work :: "worker_pc \<Rightarrow> nat" where
  "pc_work pc = (case pc of Waiting \<Rightarrow> 1 | Taken _ \<Rightarrow> 4 | Running _ \<Rightarrow> 3 | Ran _ \<Rightarrow> 2 | Returned \<Rightarrow> 0)"

definition closing_work :: "thread_pool \<Rightarrow> nat" where
  "closing_work p = 4 * length (tasks p) + sum_list (map pc_work (worker_pcs p))
     + (length (worker_pcs p) - joined p) + length (filter Not (stop_requests p))"

lemma work_update:
  "w < length pcs \<Longrightarrow> sum_list (map pc_work (pcs[w := pc])) + pc_work (pcs ! w) = sum_list (map pc_work pcs) + pc_work pc"
proof (induction pcs arbitrary: w)
  case (Cons x xs)
  then show ?case by (cases w) (simp_all add: algebra_simps)
qed simp

lemma filter_asked: "w < length bs \<Longrightarrow> \<not> bs ! w \<Longrightarrow> length (filter Not (bs[w := True])) < length (filter Not bs)"
proof (induction bs arbitrary: w)
  case (Cons b bs)
  then show ?case by (cases w) auto
qed simp

lemma closing_progress:
  assumes "asked_inv p" "joined p < length (worker_pcs p)"
  shows "\<exists>p'. closing_step p p' \<and> closing_work p' < closing_work p"
proof -
  let ?w = "joined p"
  have len: "length (stop_requests p) = length (worker_pcs p)" using assms(1) by (simp add: asked_inv_def)
  note upd = work_update [OF assms(2)]
  show ?thesis
  proof (cases "stop_requests p ! ?w")
    case False
    then have "closing_work (destroy_step p) < closing_work p"
      using assms(2) filter_asked [of ?w "stop_requests p"] len
      by (simp add: destroy_step_def Let_def closing_work_def)
    then show ?thesis using closing_destroy by blast
  next
    case asked: True
    show ?thesis
    proof (cases "worker_pcs p ! ?w = Returned")
      case True
      then have "closing_work (destroy_step p) < closing_work p"
        using assms(2) asked by (simp add: destroy_step_def Let_def closing_work_def)
      then show ?thesis using closing_destroy by blast
    next
      case False
      have "closing_work (worker_step ?w p) < closing_work p"
      proof (cases "worker_pcs p ! ?w")
        case Waiting
        then show ?thesis
          using asked upd [of Returned] upd [of "Taken (hd (tasks p))"]
          by (cases "tasks p") (simp_all add: worker_step_def fifo_try_dequeue_def closing_work_def pc_work_def)
      next
        case (Taken t)
        then show ?thesis using upd [of "Running t"] by (simp add: worker_step_def closing_work_def pc_work_def)
      next
        case (Running t)
        then show ?thesis using upd [of "Ran t"] by (simp add: worker_step_def closing_work_def pc_work_def)
      next
        case (Ran t)
        then show ?thesis using upd [of Waiting] by (simp add: worker_step_def closing_work_def pc_work_def Let_def)
      next
        case Returned
        with False show ?thesis by simp
      qed
      then show ?thesis using closing_worker [OF assms(2)] by blast
    qed
  qed
qed

lemma destructor_returns:
  assumes "closing_inv p"
  shows "\<exists>p'. closing_step\<^sup>*\<^sup>* p p' \<and> joined p' = length (worker_pcs p')"
  using assms
proof (induction "closing_work p" arbitrary: p rule: less_induct)
  case less
  show ?case
  proof (cases "joined p < length (worker_pcs p)")
    case True
    then obtain p1 where "closing_step p p1" "closing_work p1 < closing_work p"
      using closing_progress less.prems by (auto simp: closing_inv_def)
    with less closing_inv_step show ?thesis by (meson converse_rtranclp_into_rtranclp)
  next
    case False
    then show ?thesis using less.prems by (auto simp: closing_inv_def asked_inv_def)
  qed
qed

section \<open>Properties\<close>

lemma destroying_starts: "asked_inv p \<Longrightarrow> pool_inv p \<Longrightarrow> True \<notin> set (stop_requests p) \<Longrightarrow> closing_inv p"
  unfolding closing_inv_def asked_inv_def by (metis in_set_conv_nth)

text \<open>
  C38: the pool runs every task once. In every interleaving of submissions, steps of the workers
  and of the destructor, the submitted tasks are exactly those waiting, those a worker holds and
  those finished, none lost or run twice; tasks are taken in the order of submission; the counter
  is the number of workers between its updates; and when the pool is idle and no worker holds a
  task it has not counted yet, every submitted task is finished. If the pool has a worker and its
  destructor starts when no more tasks come, then the destructor can always return, and when it
  has, every submitted task is finished.
\<close>

theorem pool_runs_each_task_once:
  assumes "pool_step\<^sup>*\<^sup>* (ThreadPool n) p"
  shows "mset (submitted p) = mset (tasks p) + (\<Sum>pc \<in># mset (worker_pcs p). held pc) + mset (finished p)
    \<and> (\<exists>taken. submitted p = taken @ tasks p)
    \<and> active_tasks p = (\<Sum>pc \<leftarrow> worker_pcs p. counted pc)
    \<and> (idle p \<and> (\<forall>t. Taken t \<notin> set (worker_pcs p)) \<longrightarrow> mset (finished p) = mset (submitted p))
    \<and> (0 < n \<and> True \<notin> set (stop_requests p) \<longrightarrow>
        (\<exists>p'. closing_step\<^sup>*\<^sup>* p p' \<and> joined p' = n)
        \<and> (\<forall>p'. closing_step\<^sup>*\<^sup>* p p' \<and> joined p' = n \<longrightarrow> mset (finished p') = mset (submitted p)))"
proof -
  have inv: "pool_inv p" by (rule pool_reachable_inv [OF assms])
  have asked: "asked_inv p" "length (worker_pcs p) = n" using reachable_asked_inv [OF assms] by simp_all
  have "(\<exists>p'. closing_step\<^sup>*\<^sup>* p p' \<and> joined p' = n)
      \<and> (\<forall>p'. closing_step\<^sup>*\<^sup>* p p' \<and> joined p' = n \<longrightarrow> mset (finished p') = mset (submitted p))"
    if "0 < n" "True \<notin> set (stop_requests p)"
  proof -
    have start: "closing_inv p" using destroying_starts [OF asked(1) inv that(2)] .
    have "mset (finished p') = mset (submitted p)" if "closing_step\<^sup>*\<^sup>* p p'" "joined p' = n" for p'
      using closing_run_inv [OF that(1) start] destroyed_finished [of p'] that(2) asked(2) \<open>0 < n\<close> by fastforce
    moreover have "\<exists>p'. closing_step\<^sup>*\<^sup>* p p' \<and> joined p' = n"
      using destructor_returns [OF start] closing_run_inv [OF _ start] asked(2) by metis
    ultimately show ?thesis by blast
  qed
  with inv pool_at_rest [OF inv] show ?thesis by (auto simp: pool_inv_def)
qed

lemma worker_run: "w < length (worker_pcs p) \<Longrightarrow> pool_step\<^sup>*\<^sup>* q p \<Longrightarrow> pool_step\<^sup>*\<^sup>* q (worker_step w p)"
  by (auto intro: rtranclp.rtrancl_into_rtrancl pool_worker)

lemma submit_run: "pool_step\<^sup>*\<^sup>* q p \<Longrightarrow> pool_step\<^sup>*\<^sup>* q (submit t p)"
  by (auto intro: rtranclp.rtrancl_into_rtrancl pool_submit)

theorem pool_runs_each_task_once_witness:
  "let p = worker_step 0 (worker_step 0 (worker_step 0 (submit 7 (ThreadPool 1)))) in mset (finished p) = {#7#}"
proof -
  let ?p = "worker_step 0 (worker_step 0 (worker_step 0 (submit 7 (ThreadPool 1))))"
  let ?q = "worker_step 0 ?p"
  have "pool_step\<^sup>*\<^sup>* (ThreadPool 1) ?q"
    by (intro worker_run submit_run rtranclp.rtrancl_refl) code_simp+
  from pool_runs_each_task_once [OF this]
  have fin: "idle ?q \<and> (\<forall>t. Taken t \<notin> set (worker_pcs ?q)) \<longrightarrow> mset (finished ?q) = mset (submitted ?q)" by blast
  have "idle ?q" "worker_pcs ?q = [Waiting]" "submitted ?q = [7]" "finished ?q = finished ?p" by code_simp+
  with fin show ?thesis unfolding Let_def by (metis empty_iff insert_iff list.set(1,2) mset_single_iff_right worker_pc.distinct(1))
qed

text \<open>
  The counter is raised after the queue has been unlocked, so an evaluation of the predicate in
  between finds an empty queue and nothing active although a task has not been run.
\<close>

lemma wait_idle_returns_early: "\<exists>p. pool_step\<^sup>*\<^sup>* (ThreadPool 1) p \<and> idle p \<and> submitted p = [7] \<and> finished p = []"
proof (intro exI conjI)
  let ?p = "worker_step 0 (submit 7 (ThreadPool 1))"
  show "pool_step\<^sup>*\<^sup>* (ThreadPool 1) ?p" by (intro worker_run submit_run rtranclp.rtrancl_refl) code_simp+
  show "idle ?p" "submitted ?p = [7]" "finished ?p = []" by code_simp+
qed

text \<open>
  Two workers can finish tasks in another order than they were submitted; the server submits each
  message of a connection as a task of its own.
\<close>

lemma pool_reorders_tasks:
  "\<exists>p. pool_step\<^sup>*\<^sup>* (ThreadPool 2) p \<and> submitted p = [1, 2] \<and> finished p = [2] \<and> Taken 1 \<in> set (worker_pcs p)"
proof (intro exI conjI)
  let ?p = "worker_step 1 (worker_step 1 (worker_step 1 (worker_step 0 (submit 2 (submit 1 (ThreadPool 2))))))"
  show "pool_step\<^sup>*\<^sup>* (ThreadPool 2) ?p" by (intro worker_run submit_run rtranclp.rtrancl_refl) code_simp+
  show "submitted ?p = [1, 2]" "finished ?p = [2]" "Taken 1 \<in> set (worker_pcs ?p)" by code_simp+
qed

text \<open>A worker that is told to stop still takes and runs the tasks that are waiting.\<close>

lemma stop_keeps_tasks:
  assumes "w < length (worker_pcs p)" "worker_pcs p ! w = Waiting" "tasks p = t # ts"
  shows "worker_pcs (worker_step w (destroy_step p)) ! w = Taken t \<and> tasks (worker_step w (destroy_step p)) = ts"
  using assms by (simp add: worker_step_def destroy_step_def Let_def fifo_try_dequeue_def)

end
