(* ===== verification/Editor_Animation.thy ===== *)
theory Editor_Animation
  imports Editor_Widget
begin

text \<open>
  The animation of the remote cursors in \<^verbatim>\<open>client/src/editor_widget.cpp\<close>. A timer moves the place
  where a cursor is drawn towards its position, 28 per cent of the way at a time, in double
  precision; the positions that are drawn are rounded to integers. The painting itself is Qt's.
\<close>

section \<open>Operations\<close>

definition kEase :: double where
  "kEase = round53 (28 / 100)"

definition kSnap :: double where
  "kSnap = round53 (1 / 2)"

definition ease_step :: "bool \<Rightarrow> double \<Rightarrow> double \<Rightarrow> double \<times> bool" where
  "ease_step fused disp target =
     (let diff = round53 (target - disp)
      in if \<bar>diff\<bar> < kSnap then (target, False) else (mul_add fused diff kEase disp, True))"

text \<open>A selection bound that appears starts at its place; one that disappears is reset.\<close>

definition ease_opt :: "bool \<Rightarrow> double option \<Rightarrow> u32 option \<Rightarrow> double option \<times> bool" where
  "ease_opt fused disp target =
     (case target of
        None \<Rightarrow> (None, False)
      | Some t \<Rightarrow>
          (let (d, moving) = ease_step fused (case disp of None \<Rightarrow> of_u32 t | Some d \<Rightarrow> d) (of_u32 t)
           in (Some d, moving)))"

definition ease_cursor :: "bool \<Rightarrow> remote_cursor \<Rightarrow> cursor_anim \<Rightarrow> cursor_anim \<times> bool" where
  "ease_cursor fused rc a =
     (let (p, m1) = ease_step fused (display_position a) (of_u32 (rc_position rc));
          (s, m2) = ease_opt fused (display_sel_start a) (rc_selectionStart rc);
          (t, m3) = ease_opt fused (display_sel_end a) (rc_selectionEnd rc)
      in (\<lparr>display_position = p, display_sel_start = s, display_sel_end = t\<rparr>, m1 \<or> m2 \<or> m3))"

text \<open>\<^verbatim>\<open>cursor_anim_[rc.userId]\<close> makes a default entry where there is none.\<close>

definition anim_at :: "(u32, cursor_anim) umap \<Rightarrow> u32 \<Rightarrow> cursor_anim" where
  "anim_at anims u = (case um_find anims u of
     None \<Rightarrow> \<lparr>display_position = 0, display_sel_start = None, display_sel_end = None\<rparr> | Some a \<Rightarrow> a)"

definition tick_cursor :: "bool \<Rightarrow> remote_cursor \<Rightarrow> (u32, cursor_anim) umap \<times> bool \<Rightarrow> (u32, cursor_anim) umap \<times> bool" where
  "tick_cursor fused rc am =
     (let (a, moving) = ease_cursor fused rc (anim_at (fst am) (rc_userId rc))
      in (um_set (rc_userId rc) a (fst am), snd am \<or> moving))"

definition tickCursorAnimation :: "bool \<Rightarrow> editor \<Rightarrow> editor" where
  "tickCursorAnimation fused e =
     (if ed_remote_cursors e = [] then e\<lparr>anim_timer := False\<rparr>
      else
        (let (anims, any_moving) = fold (tick_cursor fused) (ed_remote_cursors e) (cursor_anims e, False)
         in e\<lparr>cursor_anims := anims, anim_timer := (anim_timer e \<and> any_moving)\<rparr>))"

text \<open>The timer calls the slot while it is active.\<close>

definition timer_event :: "bool \<Rightarrow> editor \<Rightarrow> editor" where
  "timer_event fused e = (if anim_timer e then tickCursorAnimation fused e else e)"

record displayed_positions =
  dp_position :: u32
  dp_selectionStart :: "u32 option"
  dp_selectionEnd :: "u32 option"

definition pick_opt :: "double option \<Rightarrow> u32 option \<Rightarrow> u32 option" where
  "pick_opt disp fallback =
     (case fallback of None \<Rightarrow> None
      | Some p \<Rightarrow> Some (case disp of Some d \<Rightarrow> word_of_int (lround d) | None \<Rightarrow> p))"

definition displayedPositionsFor :: "editor \<Rightarrow> remote_cursor \<Rightarrow> displayed_positions" where
  "displayedPositionsFor e rc =
     (case um_find (cursor_anims e) (rc_userId rc) of
        None \<Rightarrow> \<lparr>dp_position = rc_position rc, dp_selectionStart = rc_selectionStart rc, dp_selectionEnd = rc_selectionEnd rc\<rparr>
      | Some a \<Rightarrow>
          \<lparr>dp_position = word_of_int (lround (display_position a)),
           dp_selectionStart = pick_opt (display_sel_start a) (rc_selectionStart rc),
           dp_selectionEnd = pick_opt (display_sel_end a) (rc_selectionEnd rc)\<rparr>)"

section \<open>One value\<close>

lemma kSnap [simp]: "kSnap = 1 / 2"
  unfolding kSnap_def by code_simp

lemma kEase: "\<bar>kEase - 28 / 100\<bar> \<le> 1 / 2 ^ 50"
  unfolding kEase_def by code_simp

text \<open>
  One step of the easing, with either way of rounding: it covers 28 per cent of the distance, up
  to a percent of the distance.
\<close>

lemma near:
  fixes a b c r s :: rat
  shows "\<bar>a - b\<bar> \<le> r \<Longrightarrow> \<bar>b - c\<bar> \<le> s \<Longrightarrow> \<bar>a - c\<bar> \<le> r + s"
  by linarith

lemma mul_add_ease:
  assumes "0 \<le> d" "d \<le> 2 ^ 32" "0 \<le> t" "t \<le> 2 ^ 32" "49 / 100 \<le> \<bar>t - d\<bar>"
  shows "\<bar>mul_add fused (round53 (t - d)) kEase d - d - 28 / 100 * (t - d)\<bar> \<le> \<bar>t - d\<bar> / 100"
proof -
  define x where "x = t - d"
  define e where "e = \<bar>x\<bar> / 2 ^ 50"
  have x: "\<bar>x\<bar> \<le> 2 ^ 32" "49 / 100 \<le> \<bar>x\<bar>" using assms by (simp_all add: x_def abs_le_iff)
  have e: "0 \<le> e" "e \<le> \<bar>x\<bar> / 1000" "\<bar>x\<bar> / 2 ^ 53 \<le> e" by (simp_all add: e_def field_simps)
  define f where "f = round53 x"
  have f: "\<bar>f - x\<bar> \<le> e" using round53_error [of x] e(3) unfolding f_def by (rule order_trans)
  have k: "\<bar>kEase\<bar> \<le> 1" unfolding kEase_def by code_simp
  have "\<bar>f * kEase - x * (28 / 100)\<bar> \<le> \<bar>f - x\<bar> * \<bar>kEase\<bar> + \<bar>x\<bar> * \<bar>kEase - 28 / 100\<bar>"
  proof -
    have "f * kEase - x * (28 / 100) = (f - x) * kEase + x * (kEase - 28 / 100)" by (simp add: algebra_simps)
    then show ?thesis by (metis abs_mult abs_triangle_ineq)
  qed
  also have "\<dots> \<le> e * 1 + \<bar>x\<bar> * (1 / 2 ^ 50)"
    by (intro add_mono mult_mono f k kEase) (simp_all add: e)
  finally have p: "\<bar>f * kEase - x * (28 / 100)\<bar> \<le> 2 * e" by (simp add: e_def)
  have px: "\<bar>f * kEase\<bar> \<le> \<bar>x\<bar>" using p e(2) by linarith
  then have p': "\<bar>round53 (f * kEase) - f * kEase\<bar> \<le> e" using round53_bound [OF px] e(3) by linarith
  have sum: "\<bar>round53 (d + p) - (d + p)\<bar> \<le> \<bar>x\<bar> / 200" if "\<bar>p\<bar> \<le> 2 * \<bar>x\<bar>" for p
  proof -
    have "\<bar>d + p\<bar> \<le> 2 ^ 34" using that x(1) assms(1,2) by simp
    from round53_bound [OF this] show ?thesis using x(2) by simp
  qed
  have far: "\<bar>round53 (f * kEase)\<bar> \<le> 2 * \<bar>x\<bar>" "\<bar>f * kEase\<bar> \<le> 2 * \<bar>x\<bar>" using p' px e(2) by linarith+
  have one: "\<bar>round53 (d + f * kEase) - (d + x * (28 / 100))\<bar> \<le> \<bar>x\<bar> / 200 + 2 * e"
    using near [OF sum [OF far(2)], of "d + x * (28 / 100)" "2 * e"] p by simp
  have two: "\<bar>round53 (d + round53 (f * kEase)) - (d + x * (28 / 100))\<bar> \<le> \<bar>x\<bar> / 200 + (e + 2 * e)"
    using near [OF sum [OF far(1)], of "d + x * (28 / 100)" "e + 2 * e"] near [OF p' p] by simp
  have "\<bar>mul_add fused f kEase d - (d + x * (28 / 100))\<bar> \<le> \<bar>x\<bar> / 200 + 3 * e"
    using one two e(1) by (cases fused) (simp_all add: mul_add_def)
  moreover have "mul_add fused f kEase d - d - 28 / 100 * x = mul_add fused f kEase d - (d + x * (28 / 100))" by simp
  ultimately show ?thesis using e(2) unfolding x_def [symmetric] f_def [symmetric] by linarith
qed

text \<open>What a step does to one value on the way to its target.\<close>

lemma ease_step_towards:
  assumes "ease_step fused d t = (d', moving)" "0 \<le> d" "d \<le> 2 ^ 32" "0 \<le> t" "t \<le> 2 ^ 32"
  shows "min d t \<le> d' \<and> d' \<le> max d t" "\<bar>t - d'\<bar> \<le> 3 / 4 * \<bar>t - d\<bar>"
    "\<not> moving \<Longrightarrow> d' = t" "\<bar>t - d\<bar> < 49 / 100 \<Longrightarrow> \<not> moving"
proof -
  have near: "\<not> moving" if "\<bar>t - d\<bar> < 49 / 100"
  proof -
    have "\<bar>t - d\<bar> \<le> 49 / 100" using that by simp
    moreover have "49 / 100 / 2 ^ 53 \<le> (1 / 100 :: rat)" by simp
    ultimately have "\<bar>round53 (t - d)\<bar> < 1 / 2" using round53_bound [of "t - d" "49 / 100"] that by linarith
    then show ?thesis using assms(1) by (simp add: ease_step_def Let_def)
  qed
  then show "\<bar>t - d\<bar> < 49 / 100 \<Longrightarrow> \<not> moving" .
  show "\<not> moving \<Longrightarrow> d' = t" using assms(1) by (auto simp: ease_step_def Let_def split: if_splits)
  have "min d t \<le> d' \<and> d' \<le> max d t \<and> \<bar>t - d'\<bar> \<le> 3 / 4 * \<bar>t - d\<bar>"
  proof (cases moving)
    case True
    then have d': "d' = mul_add fused (round53 (t - d)) kEase d" using assms(1) by (auto simp: ease_step_def Let_def split: if_splits)
    have "49 / 100 \<le> \<bar>t - d\<bar>" using near True by linarith
    from mul_add_ease [OF assms(2-5) this, of fused]
    have z: "\<bar>d' - d - 28 / 100 * (t - d)\<bar> \<le> \<bar>t - d\<bar> / 100" unfolding d' .
    show ?thesis
    proof (cases "d \<le> t")
      case True
      then have "27 / 100 * (t - d) \<le> d' - d" "d' - d \<le> 29 / 100 * (t - d)" using abs_le_D1 [OF z] abs_le_D2 [OF z] by linarith+
      with True show ?thesis by simp
    next
      case False
      define w where "w = d - t"
      then have w: "t - d = - w" "0 < w" using False by simp_all
      have "\<bar>d' - d + 28 / 100 * w\<bar> \<le> w / 100" using z w(2) unfolding w(1) by simp
      from abs_le_D1 [OF this] abs_le_D2 [OF this] have "27 / 100 * w \<le> d - d'" "d - d' \<le> 29 / 100 * w" by simp_all
      then have "27 / 100 * (d - t) \<le> d - d'" "d - d' \<le> 29 / 100 * (d - t)" unfolding w_def .
      with False show ?thesis by simp
    qed
  next
    case False
    then have "d' = t" using assms(1) by (auto simp: ease_step_def Let_def split: if_splits)
    then show ?thesis by simp
  qed
  then show "min d t \<le> d' \<and> d' \<le> max d t" "\<bar>t - d'\<bar> \<le> 3 / 4 * \<bar>t - d\<bar>" by auto
qed


section \<open>The cursors\<close>

text \<open>Every value drawn is a position of 32 bits, or lies between two of them.\<close>

definition in_range :: "double \<Rightarrow> bool" where
  "in_range d = (0 \<le> d \<and> d \<le> 2 ^ 32 - 1)"

definition anim_ok :: "cursor_anim \<Rightarrow> bool" where
  "anim_ok a = (in_range (display_position a) \<and> pred_option in_range (display_sel_start a) \<and> pred_option in_range (display_sel_end a))"

definition anims_ok :: "editor \<Rightarrow> bool" where
  "anims_ok e = (\<forall>u a. um_find (cursor_anims e) u = Some a \<longrightarrow> anim_ok a)"

text \<open>How far a value is from its target, at most \<open>b\<close>.\<close>

definition close_opt :: "double \<Rightarrow> double option \<Rightarrow> u32 option \<Rightarrow> bool" where
  "close_opt b disp target = (\<forall>d t. disp = Some d \<longrightarrow> target = Some t \<longrightarrow> \<bar>of_u32 t - d\<bar> \<le> b)"

definition anim_close :: "double \<Rightarrow> cursor_anim \<Rightarrow> remote_cursor \<Rightarrow> bool" where
  "anim_close b a rc =
     (\<bar>of_u32 (rc_position rc) - display_position a\<bar> \<le> b
      \<and> close_opt b (display_sel_start a) (rc_selectionStart rc) \<and> close_opt b (display_sel_end a) (rc_selectionEnd rc))"

lemma in_range_u32 [simp]: "in_range (of_u32 w)"
  using of_u32_bounds by (simp add: in_range_def)

lemma ease_step_ok:
  assumes "ease_step fused d (of_u32 w) = (d', moving)" "in_range d"
  shows "in_range d'" "\<bar>of_u32 w - d\<bar> \<le> b \<Longrightarrow> \<bar>of_u32 w - d'\<bar> \<le> 3 / 4 * b" "\<not> moving \<Longrightarrow> d' = of_u32 w"
    "\<bar>of_u32 w - d\<bar> < 49 / 100 \<Longrightarrow> \<not> moving"
proof -
  note step = ease_step_towards [OF assms(1)]
  have r: "0 \<le> d" "d \<le> 2 ^ 32" "0 \<le> of_u32 w" "of_u32 w \<le> 2 ^ 32"
    using assms(2) of_u32_bounds [of w] by (simp_all add: in_range_def)
  show "in_range d'" using step(1) [OF r] assms(2) of_u32_bounds [of w] by (auto simp: in_range_def min_def max_def split: if_splits)
  show "\<bar>of_u32 w - d\<bar> \<le> b \<Longrightarrow> \<bar>of_u32 w - d'\<bar> \<le> 3 / 4 * b" using step(2) [OF r] by simp
  show "\<not> moving \<Longrightarrow> d' = of_u32 w" "\<bar>of_u32 w - d\<bar> < 49 / 100 \<Longrightarrow> \<not> moving" using step(3,4) [OF r] by auto
qed

lemma ease_opt_ok:
  assumes "ease_opt fused disp target = (disp', moving)" "pred_option in_range disp" "0 \<le> b"
  shows "pred_option in_range disp'" "close_opt b disp target \<Longrightarrow> close_opt (3 / 4 * b) disp' target"
    "\<not> moving \<Longrightarrow> disp' = map_option of_u32 target"
    "close_opt b disp target \<Longrightarrow> b < 49 / 100 \<Longrightarrow> \<not> moving"
proof -
  have *: "pred_option in_range disp' \<and> (close_opt b disp target \<longrightarrow> close_opt (3 / 4 * b) disp' target)
    \<and> (\<not> moving \<longrightarrow> disp' = map_option of_u32 target) \<and> (close_opt b disp target \<longrightarrow> b < 49 / 100 \<longrightarrow> \<not> moving)"
  proof (cases target)
    case None
    then show ?thesis using assms(1) by (auto simp: ease_opt_def close_opt_def)
  next
    case (Some t)
    define d where "d = (case disp of None \<Rightarrow> of_u32 t | Some d \<Rightarrow> d)"
    obtain d' where d': "ease_step fused d (of_u32 t) = (d', moving)" "disp' = Some d'"
      using assms(1) by (auto simp: ease_opt_def Some d_def split: prod.splits)
    have d: "in_range d" using assms(2) by (cases disp) (simp_all add: d_def)
    have "\<bar>of_u32 t - d\<bar> \<le> b" if "close_opt b disp target"
      using that assms(3) by (cases disp) (simp_all add: d_def close_opt_def Some)
    then show ?thesis
      using ease_step_ok(1,3,4) [OF d'(1) d] ease_step_ok(2) [OF d'(1) d, of b] by (auto simp: d'(2) Some close_opt_def)
  qed
  show "pred_option in_range disp'" "close_opt b disp target \<Longrightarrow> close_opt (3 / 4 * b) disp' target"
    "\<not> moving \<Longrightarrow> disp' = map_option of_u32 target"
    "close_opt b disp target \<Longrightarrow> b < 49 / 100 \<Longrightarrow> \<not> moving" using * by blast+
qed

lemma ease_cursor_ok:
  assumes "ease_cursor fused rc a = (a', moving)" "anim_ok a" "0 \<le> b"
  shows "anim_ok a'" "anim_close b a rc \<Longrightarrow> anim_close (3 / 4 * b) a' rc"
    "\<not> moving \<Longrightarrow> a' = new_anim rc" "anim_close b a rc \<Longrightarrow> b < 49 / 100 \<Longrightarrow> \<not> moving"
proof -
  obtain p m1 s m2 t m3 where eq: "ease_step fused (display_position a) (of_u32 (rc_position rc)) = (p, m1)"
    "ease_opt fused (display_sel_start a) (rc_selectionStart rc) = (s, m2)"
    "ease_opt fused (display_sel_end a) (rc_selectionEnd rc) = (t, m3)"
    "a' = \<lparr>display_position = p, display_sel_start = s, display_sel_end = t\<rparr>" "moving = (m1 \<or> m2 \<or> m3)"
    using assms(1) by (auto simp: ease_cursor_def split: prod.splits)
  have ok: "in_range (display_position a)" "pred_option in_range (display_sel_start a)" "pred_option in_range (display_sel_end a)"
    using assms(2) by (simp_all add: anim_ok_def)
  note p = ease_step_ok [OF eq(1) ok(1)] and s = ease_opt_ok [OF eq(2) ok(2) assms(3)] and t = ease_opt_ok [OF eq(3) ok(3) assms(3)]
  show "anim_ok a'" using p(1) s(1) t(1) by (simp add: anim_ok_def eq(4))
  show "anim_close b a rc \<Longrightarrow> anim_close (3 / 4 * b) a' rc"
    using p(2) s(2) t(2) by (simp add: anim_close_def eq(4))
  show "\<not> moving \<Longrightarrow> a' = new_anim rc" using p(3) s(3) t(3) by (simp add: eq(4,5) new_anim_def)
  show "anim_close b a rc \<Longrightarrow> b < 49 / 100 \<Longrightarrow> \<not> moving"
    using p(4) s(4) t(4) by (auto simp: eq(5) anim_close_def)
qed

section \<open>All cursors\<close>

text \<open>What the loop over the cursors of different users leaves behind.\<close>

lemma tick_fold:
  assumes "distinct (map rc_userId cs)"
  shows "um_find (fst (fold (tick_cursor fused) cs am)) u =
      (case find (\<lambda>rc. rc_userId rc = u) cs of
         None \<Rightarrow> um_find (fst am) u | Some rc \<Rightarrow> Some (fst (ease_cursor fused rc (anim_at (fst am) u))))"
    and "snd (fold (tick_cursor fused) cs am) =
      (snd am \<or> (\<exists>rc \<in> set cs. snd (ease_cursor fused rc (anim_at (fst am) (rc_userId rc)))))"
  using assms
proof (induction cs arbitrary: am)
  case (Cons c cs)
  have step: "tick_cursor fused c am =
      (um_set (rc_userId c) (fst (ease_cursor fused c (anim_at (fst am) (rc_userId c)))) (fst am),
       snd am \<or> snd (ease_cursor fused c (anim_at (fst am) (rc_userId c))))" for am
    by (simp add: tick_cursor_def split: prod.splits)
  have other: "anim_at (um_set (rc_userId c) a m) v = anim_at m v" if "v \<noteq> rc_userId c" for a m v
    using that by (simp add: anim_at_def umap)
  {
    case 1
    then have "find (\<lambda>rc. rc_userId rc = rc_userId c) cs = None"
      by (simp add: find_None_iff) (metis imageI)
    with 1 Cons.IH(1) show ?case by (auto simp: step umap other split: option.splits)
  next
    case 2
    then have "rc_userId rc \<noteq> rc_userId c" if "rc \<in> set cs" for rc
      using that by simp (metis imageI)
    with 2 Cons.IH(2) [of "tick_cursor fused c am"] show ?case by (auto simp: step other)
  }
qed simp_all

text \<open>The cursors that are drawn are within \<open>b\<close> of their positions, and at them when the timer is off.\<close>

definition drawn_within :: "double \<Rightarrow> editor \<Rightarrow> bool" where
  "drawn_within b e =
     (\<forall>rc \<in> set (ed_remote_cursors e).
        (\<exists>a. um_find (cursor_anims e) (rc_userId rc) = Some a \<and> anim_ok a \<and> anim_close b a rc)
        \<and> (\<not> anim_timer e \<longrightarrow> um_find (cursor_anims e) (rc_userId rc) = Some (new_anim rc)))"

lemma find_user:
  assumes "distinct (map rc_userId cs)" "rc \<in> set cs"
  shows "find (\<lambda>r. rc_userId r = rc_userId rc) cs = Some rc"
  using assms by (induction cs) auto

lemma tick_entry:
  assumes "distinct (map rc_userId (ed_remote_cursors e))" "rc \<in> set (ed_remote_cursors e)"
    and "um_find (cursor_anims e) (rc_userId rc) = Some a"
  shows "um_find (cursor_anims (tickCursorAnimation fused e)) (rc_userId rc) = Some (fst (ease_cursor fused rc a))"
    and "snd (ease_cursor fused rc a) \<Longrightarrow> anim_timer e \<Longrightarrow> anim_timer (tickCursorAnimation fused e)"
proof -
  have "ed_remote_cursors e \<noteq> []" using assms(2) by auto
  moreover have "anim_at (cursor_anims e) (rc_userId rc) = a" using assms(3) by (simp add: anim_at_def)
  ultimately show "um_find (cursor_anims (tickCursorAnimation fused e)) (rc_userId rc) = Some (fst (ease_cursor fused rc a))"
    "snd (ease_cursor fused rc a) \<Longrightarrow> anim_timer e \<Longrightarrow> anim_timer (tickCursorAnimation fused e)"
    using tick_fold [OF assms(1), of fused "(cursor_anims e, False)"] find_user [OF assms(1,2)] assms(2)
    by (auto simp: tickCursorAnimation_def split_beta)
qed

lemma tick_frame [simp]: "ed_remote_cursors (timer_event fused e) = ed_remote_cursors e"
  by (simp add: timer_event_def tickCursorAnimation_def split_beta)

lemma tick_drawn_within:
  assumes "distinct (map rc_userId (ed_remote_cursors e))" "drawn_within b e" "0 \<le> b"
  shows "drawn_within (3 / 4 * b) (timer_event fused e)"
proof (cases "anim_timer e")
  case False
  then show ?thesis
    using assms(2,3) by (auto simp: drawn_within_def timer_event_def anim_close_def close_opt_def new_anim_def)
next
  case True
  show ?thesis
    unfolding drawn_within_def
  proof (intro ballI conjI impI)
    fix rc assume "rc \<in> set (ed_remote_cursors (timer_event fused e))"
    then have rc: "rc \<in> set (ed_remote_cursors e)" by simp
    then obtain a where a: "um_find (cursor_anims e) (rc_userId rc) = Some a" "anim_ok a" "anim_close b a rc"
      using assms(2) by (auto simp: drawn_within_def)
    note entry = tick_entry [OF assms(1) rc a(1), of fused]
    note ok = ease_cursor_ok [of fused rc a, OF surjective_pairing a(2) assms(3)]
    show "\<exists>a. um_find (cursor_anims (timer_event fused e)) (rc_userId rc) = Some a \<and> anim_ok a \<and> anim_close (3 / 4 * b) a rc"
      using entry(1) ok(1) ok(2) [OF a(3)] True by (simp add: timer_event_def)
    assume "\<not> anim_timer (timer_event fused e)"
    then have "\<not> snd (ease_cursor fused rc a)" using entry(2) True by (auto simp: timer_event_def)
    with ok(3) entry(1) True show "um_find (cursor_anims (timer_event fused e)) (rc_userId rc) = Some (new_anim rc)"
      by (simp add: timer_event_def)
  qed
qed

lemma tick_stops:
  assumes "distinct (map rc_userId (ed_remote_cursors e))" "drawn_within b e" "0 \<le> b" "b < 49 / 100"
  shows "\<not> anim_timer (timer_event fused e)"
proof -
  have "\<not> snd (ease_cursor fused rc (anim_at (cursor_anims e) (rc_userId rc)))" if "rc \<in> set (ed_remote_cursors e)" for rc
  proof -
    obtain a where a: "um_find (cursor_anims e) (rc_userId rc) = Some a" "anim_ok a" "anim_close b a rc"
      using assms(2) \<open>rc \<in> _\<close> by (auto simp: drawn_within_def)
    from ease_cursor_ok(4) [OF surjective_pairing a(2) assms(3) a(3) assms(4)] show ?thesis by (simp add: anim_at_def a(1))
  qed
  then show ?thesis
    using tick_fold(2) [OF assms(1), of fused "(cursor_anims e, False)"]
    by (auto simp: timer_event_def tickCursorAnimation_def split_beta)
qed

section \<open>Runs\<close>

text \<open>
  What can happen to the cursors of a widget: a new set of them, an event of the timer, and
  operations that leave the animation alone.
\<close>

inductive animated :: "bool \<Rightarrow> editor \<Rightarrow> bool" for fused where
  created: "animated fused EditorWidget"
| cursors_set: "animated fused e \<Longrightarrow> animated fused (setRemoteCursors cs e)"
| timer: "animated fused e \<Longrightarrow> animated fused (timer_event fused e)"
| other: "animated fused e \<Longrightarrow> cursor_anims e' = cursor_anims e \<Longrightarrow> animated fused e'"

lemma anim_ok_new [simp]: "anim_ok (new_anim rc)"
  by (simp add: anim_ok_def new_anim_def option.pred_map comp_def option.pred_True)

lemma keep_anim_find:
  "um_find (fold (keep_anim old) cs nxt) u =
     (case um_find nxt u of Some a \<Rightarrow> Some a
      | None \<Rightarrow> (case find (\<lambda>rc. rc_userId rc = u) cs of
          None \<Rightarrow> None | Some rc \<Rightarrow> Some (case um_find old u of None \<Rightarrow> new_anim rc | Some a \<Rightarrow> a)))"
  by (induction cs arbitrary: nxt) (auto simp: keep_anim_def umap split: option.splits)

lemma setRemoteCursors_ok: "anims_ok e \<Longrightarrow> anims_ok (setRemoteCursors cs e)"
  by (auto simp: anims_ok_def setRemoteCursors_def keep_anim_find umap split: option.splits)

lemma tick_fold_ok:
  "\<forall>u a. um_find (fst am) u = Some a \<longrightarrow> anim_ok a \<Longrightarrow>
   um_find (fst (fold (tick_cursor fused) cs am)) u = Some a \<Longrightarrow> anim_ok a"
proof (induction cs arbitrary: am)
  case (Cons c cs)
  have "anim_ok (anim_at (fst am) (rc_userId c))"
    using Cons.prems(1) by (auto simp: anim_at_def anim_ok_def in_range_def split: option.splits)
  then have "anim_ok (fst (ease_cursor fused c (anim_at (fst am) (rc_userId c))))"
    using ease_cursor_ok(1) [of fused c, OF surjective_pairing, of _ 0] by simp
  then have "\<forall>u a. um_find (fst (tick_cursor fused c am)) u = Some a \<longrightarrow> anim_ok a"
    using Cons.prems(1) by (auto simp: tick_cursor_def umap split_beta)
  with Cons.IH Cons.prems(2) show ?case by simp
qed simp

lemma animated_ok: "animated fused e \<Longrightarrow> anims_ok e"
proof (induction rule: animated.induct)
  case created
  then show ?case by (simp add: anims_ok_def EditorWidget_def umap)
next
  case (cursors_set e cs)
  then show ?case by (simp add: setRemoteCursors_ok)
next
  case (timer e)
  then show ?case
    using tick_fold_ok [of "(cursor_anims e, False)" fused "ed_remote_cursors e"]
    by (auto simp: anims_ok_def timer_event_def tickCursorAnimation_def split_beta)
next
  case (other e e')
  then show ?case by (simp add: anims_ok_def)
qed

lemma in_range_distance: "in_range d \<Longrightarrow> \<bar>of_u32 w - d\<bar> \<le> 4294967296"
  using of_u32_bounds [of w] by (simp add: in_range_def abs_le_iff)

lemma setRemoteCursors_drawn:
  assumes "distinct (map rc_userId cs)" "anims_ok e"
  shows "drawn_within (2 ^ 32) (setRemoteCursors cs e)"
proof -
  have "\<exists>a. um_find (cursor_anims (setRemoteCursors cs e)) (rc_userId rc) = Some a \<and> anim_ok a \<and> anim_close (2 ^ 32) a rc"
    if rc: "rc \<in> set cs" for rc
  proof -
    have "um_find (cursor_anims (setRemoteCursors cs e)) (rc_userId rc) \<noteq> None"
      by (simp add: setRemoteCursors_def keep_anim_find umap find_user [OF assms(1) rc])
    then obtain a where a: "um_find (cursor_anims (setRemoteCursors cs e)) (rc_userId rc) = Some a" "anim_ok a"
      using setRemoteCursors_ok [OF assms(2), of cs] by (auto simp: anims_ok_def)
    have "anim_close (2 ^ 32) a rc"
      using a(2) by (auto simp: anim_ok_def anim_close_def close_opt_def in_range_distance)
    with a show ?thesis by blast
  qed
  then show ?thesis by (auto simp: drawn_within_def setRemoteCursors_def)
qed

text \<open>Rounding keeps the order.\<close>

lemma lround_in_range:
  assumes "in_range d"
  shows "int (unat (word_of_int (lround d) :: u32)) = \<lfloor>d + 1 / 2\<rfloor>"
proof -
  have "0 \<le> \<lfloor>d + 1 / 2\<rfloor>" "\<lfloor>d + 1 / 2\<rfloor> < 2 ^ 32"
    using assms by (simp_all add: in_range_def le_floor_iff floor_less_iff)
  then show ?thesis using assms by (simp add: lround_def in_range_def unsigned_of_int take_bit_int_eq_self)
qed

definition drawn_at :: "editor \<Rightarrow> remote_cursor \<Rightarrow> nat" where
  "drawn_at e rc = unat (dp_position (displayedPositionsFor e rc))"

lemma tick_drawn_between:
  assumes "distinct (map rc_userId (ed_remote_cursors e))" "drawn_within b e" "rc \<in> set (ed_remote_cursors e)"
  shows "min (drawn_at e rc) (unat (rc_position rc)) \<le> drawn_at (timer_event fused e) rc
    \<and> drawn_at (timer_event fused e) rc \<le> max (drawn_at e rc) (unat (rc_position rc))"
proof (cases "anim_timer e")
  case True
  obtain a where a: "um_find (cursor_anims e) (rc_userId rc) = Some a" "anim_ok a"
    using assms(2,3) by (auto simp: drawn_within_def)
  obtain p moving where p: "ease_step fused (display_position a) (of_u32 (rc_position rc)) = (p, moving)" by fastforce
  have "display_position (fst (ease_cursor fused rc a)) = p" by (simp add: ease_cursor_def p split_beta)
  then have e': "dp_position (displayedPositionsFor (timer_event fused e) rc) = word_of_int (lround p)"
    using tick_entry(1) [OF assms(1,3) a(1), of fused] True by (simp add: timer_event_def displayedPositionsFor_def)
  have e: "dp_position (displayedPositionsFor e rc) = word_of_int (lround (display_position a))"
    by (simp add: displayedPositionsFor_def a(1))
  have d: "in_range (display_position a)" using a(2) by (simp add: anim_ok_def)
  note p' = ease_step_ok(1) [OF p d]
  have between: "min (display_position a) (of_u32 (rc_position rc)) \<le> p" "p \<le> max (display_position a) (of_u32 (rc_position rc))"
    using ease_step_towards(1) [OF p] d of_u32_bounds [of "rc_position rc"] by (auto simp: in_range_def)
  have t: "int (unat (rc_position rc)) = \<lfloor>of_u32 (rc_position rc) + 1 / 2\<rfloor>"
    using lround_in_range [of "of_u32 (rc_position rc)"] by simp
  have mono: "mono (\<lambda>x :: rat. \<lfloor>x + 1 / 2\<rfloor>)" by (intro monoI floor_mono) simp
  have "min \<lfloor>display_position a + 1 / 2\<rfloor> \<lfloor>of_u32 (rc_position rc) + 1 / 2\<rfloor> \<le> \<lfloor>p + 1 / 2\<rfloor>"
    "\<lfloor>p + 1 / 2\<rfloor> \<le> max \<lfloor>display_position a + 1 / 2\<rfloor> \<lfloor>of_u32 (rc_position rc) + 1 / 2\<rfloor>"
    using between [THEN monoD [OF mono]] by (simp_all add: min_of_mono [OF mono] max_of_mono [OF mono])
  then show ?thesis
    unfolding drawn_at_def e e' lround_in_range [OF d, symmetric] lround_in_range [OF p', symmetric] t [symmetric]
    by linarith
qed (simp add: timer_event_def)

text \<open>
  C17: the animation settles. From any state of the widget and whichever way the compiler rounds,
  after the cursors of different users are set, each event of the timer leaves every cursor
  between where it was drawn and its position; after 81 events, 1.3 seconds, every cursor and
  selection is drawn exactly at its position and the timer is off.
\<close>

theorem cursor_animation_settles:
  assumes "animated fused e" "distinct (map rc_userId cs)" "rc \<in> set cs"
  defines "after \<equiv> \<lambda>n. (timer_event fused ^^ n) (setRemoteCursors cs e)"
  shows "min (drawn_at (after k) rc) (unat (rc_position rc)) \<le> drawn_at (after (Suc k)) rc
      \<and> drawn_at (after (Suc k)) rc \<le> max (drawn_at (after k) rc) (unat (rc_position rc))
      \<and> \<not> anim_timer (after (81 + n))
      \<and> displayedPositionsFor (after (81 + n)) rc =
          \<lparr>dp_position = rc_position rc, dp_selectionStart = rc_selectionStart rc, dp_selectionEnd = rc_selectionEnd rc\<rparr>"
proof -
  have cs: "ed_remote_cursors (after n) = cs" for n
    by (induction n) (simp_all add: after_def setRemoteCursors_def)
  have Suc_after: "after (Suc n) = timer_event fused (after n)" for n by (simp add: after_def)
  have within: "drawn_within ((3 / 4) ^ n * 2 ^ 32) (after n)" for n
  proof (induction n)
    case 0
    then show ?case using setRemoteCursors_drawn [OF assms(2) animated_ok [OF assms(1)]] by (simp add: after_def)
  next
    case (Suc n)
    have "drawn_within (3 / 4 * ((3 / 4) ^ n * 2 ^ 32)) (timer_event fused (after n))"
      by (rule tick_drawn_within [OF _ Suc]) (simp_all add: cs assms(2))
    then show ?case by (simp add: Suc_after mult.assoc)
  qed
  have off: "\<not> anim_timer (after (81 + n))"
  proof (induction n)
    case 0
    have "(3 / 4 :: rat) ^ 80 * 2 ^ 32 < 49 / 100" by code_simp
    then have "\<not> anim_timer (timer_event fused (after 80))"
      by (intro tick_stops [OF _ within]) (simp_all add: cs assms(2))
    with Suc_after [of 80] show ?case by simp
  next
    case (Suc n)
    then show ?case using Suc_after [of "81 + n"] by (simp add: timer_event_def)
  qed
  then have "um_find (cursor_anims (after (81 + n))) (rc_userId rc) = Some (new_anim rc)"
    using within [of "81 + n"] assms(3) by (simp add: drawn_within_def cs)
  then have "displayedPositionsFor (after (81 + n)) rc =
      \<lparr>dp_position = rc_position rc, dp_selectionStart = rc_selectionStart rc, dp_selectionEnd = rc_selectionEnd rc\<rparr>"
    by (simp add: displayedPositionsFor_def new_anim_def pick_opt_def split: option.splits)
  moreover have "min (drawn_at (after k) rc) (unat (rc_position rc)) \<le> drawn_at (after (Suc k)) rc
      \<and> drawn_at (after (Suc k)) rc \<le> max (drawn_at (after k) rc) (unat (rc_position rc))"
    unfolding Suc_after by (rule tick_drawn_between [OF _ within]) (simp_all add: assms(2,3) cs)
  ultimately show ?thesis using off by blast
qed

text \<open>A cursor at 10 that jumps to 1000, with a selection that appears.\<close>

definition jump :: "u32 \<Rightarrow> u32 option \<Rightarrow> remote_cursor" where
  "jump p s = \<lparr>rc_userId = 7, rc_username = [], rc_color = gray, rc_position = p, rc_selectionStart = s, rc_selectionEnd = s\<rparr>"

theorem cursor_animation_settles_witness:
  "\<exists>e'. e' = (timer_event False ^^ 81) (setRemoteCursors [jump 1000 (Some 900)] (setRemoteCursors [jump 10 None] EditorWidget))
     \<and> \<not> anim_timer e' \<and> dp_position (displayedPositionsFor e' (jump 1000 (Some 900))) = 1000
     \<and> dp_selectionEnd (displayedPositionsFor e' (jump 1000 (Some 900))) = Some 900"
  using cursor_animation_settles [where fused = False and cs = "[jump 1000 (Some 900)]" and rc = "jump 1000 (Some 900)" and n = 0,
      OF cursors_set [OF created, of _ "[jump 10 None]"]]
  by (simp add: jump_def)

end
