(* ===== verification/Editor_Paint.thy ===== *)
theory Editor_Paint
  imports Editor_Animation
begin

text \<open>
  Painting the cursors and selections of the other users: \<^verbatim>\<open>paintEvent\<close>, \<^verbatim>\<open>paintSelectionBand\<close> and
  \<^verbatim>\<open>paintCaretAndLabel\<close> of \<^verbatim>\<open>client/src/editor_widget.cpp\<close>. What is drawn is a list of commands.
  The geometry of the text (where a cursor is on the screen, the blocks of the document, the font)
  and the part of the widget to be painted belong to Qt and are the parameter \<open>G\<close>.
\<close>

section \<open>Rectangles and geometry\<close>

text \<open>\<^verbatim>\<open>QRect\<close>; the right and bottom edges are inside the rectangle.\<close>

record rect =
  r_left :: int
  r_top :: int
  r_width :: int
  r_height :: int

definition r_right :: "rect \<Rightarrow> int" where
  "r_right r = r_left r + r_width r - 1"

definition r_bottom :: "rect \<Rightarrow> int" where
  "r_bottom r = r_top r + r_height r - 1"

definition adjusted :: "rect \<Rightarrow> int \<Rightarrow> int \<Rightarrow> int \<Rightarrow> int \<Rightarrow> rect" where
  "adjusted r dx1 dy1 dx2 dy2 =
     \<lparr>r_left = r_left r + dx1, r_top = r_top r + dy1, r_width = r_width r + dx2 - dx1, r_height = r_height r + dy2 - dy1\<rparr>"

text \<open>
  \<open>cursorRect\<close> by position in the document, the lengths of the blocks with their separators, the
  height and the advance of the font, and whether a rectangle meets the area to be painted.
\<close>

record geometry =
  cursorRect :: "int \<Rightarrow> rect"
  block_lengths :: "nat list"
  font_height :: int
  advance :: "qstring \<Rightarrow> int"
  in_area :: "rect \<Rightarrow> bool"

text \<open>The blocks cover the text and one position more, the separator of the last block.\<close>

definition geometry_of :: "geometry \<Rightarrow> qstring \<Rightarrow> bool" where
  "geometry_of G s = (list_all (\<lambda>n. 0 < n) (block_lengths G) \<and> sum_list (block_lengths G) = length s + 1)"

text \<open>Blocks with their positions; \<open>findBlock\<close> gives a block and the ones after it.\<close>

fun positioned :: "int \<Rightarrow> nat list \<Rightarrow> (int \<times> int) list" where
  "positioned p [] = []"
| "positioned p (n # ns) = (p, int n) # positioned (p + int n) ns"

definition findBlock :: "geometry \<Rightarrow> int \<Rightarrow> (int \<times> int) list" where
  "findBlock G pos =
     (if pos < 0 then [] else dropWhile (\<lambda>(p, n). p + n \<le> pos) (positioned 0 (block_lengths G)))"

section \<open>Painting\<close>

datatype paint_op =
  DrawBand qstring rect        \<comment> \<open>the colour with an alpha of 60\<close>
  | DrawCaret qstring int int int  \<comment> \<open>the colour, x, and the two ends\<close>
  | DrawLabel qstring rect
  | DrawName qstring rect

text \<open>The loop over the blocks: first the stretches of text, then their bands.\<close>

fun band_spans :: "int \<Rightarrow> int \<Rightarrow> (int \<times> int) list \<Rightarrow> (int \<times> int) list" where
  "band_spans e16 cursor_in_block [] = []"
| "band_spans e16 cursor_in_block ((p, n) # bs) =
     (if cursor_in_block < e16
      then (let block_end = min (p + n - 1) e16 in (cursor_in_block, block_end) # band_spans e16 (block_end + 1) bs)
      else [])"

definition band :: "geometry \<Rightarrow> qstring \<Rightarrow> int \<times> int \<Rightarrow> rect" where
  "band G s = (\<lambda>(a, b).
     let ra = cursorRect G (setPosition s a 0); rb = cursorRect G (setPosition s b 0)
     in \<lparr>r_left = r_left ra, r_top = r_top ra, r_width = max 2 (r_right rb - r_left ra), r_height = r_height ra\<rparr>)"

definition paintSelectionBand :: "qt \<Rightarrow> geometry \<Rightarrow> qstring \<Rightarrow> string \<Rightarrow> u32 \<Rightarrow> u32 \<Rightarrow> qstring \<Rightarrow> paint_op list" where
  "paintSelectionBand Q G s bytes start_utf8 end_utf8 color =
     (let s16 = utf8_to_utf16_offset Q bytes start_utf8; e16 = utf8_to_utf16_offset Q bytes end_utf8
      in map (\<lambda>span. DrawBand color (band G s span)) (band_spans e16 s16 (findBlock G s16)))"

definition label_rect :: "geometry \<Rightarrow> rect \<Rightarrow> qstring \<Rightarrow> rect" where
  "label_rect G caret name =
     (let r = \<lparr>r_left = r_left caret, r_top = r_top caret - font_height G - 1,
               r_width = advance G name + 6, r_height = font_height G\<rparr>
      in if r_top r < 0 then r\<lparr>r_top := r_bottom caret + 1\<rparr> else r)"

definition paintCaretAndLabel :: "geometry \<Rightarrow> rect \<Rightarrow> remote_cursor \<Rightarrow> paint_op list" where
  "paintCaretAndLabel G caret rc =
     [DrawCaret (rc_color rc) (r_left caret) (r_top caret) (r_bottom caret),
      DrawLabel (rc_color rc) (label_rect G caret (rc_username rc)),
      DrawName (rc_username rc) (adjusted (label_rect G caret (rc_username rc)) 3 0 (- 3) 0)]"

definition paint_cursor :: "qt \<Rightarrow> geometry \<Rightarrow> editor \<Rightarrow> remote_cursor \<Rightarrow> paint_op list" where
  "paint_cursor Q G e rc =
     (let bytes = toUtf8 Q (last_known_text e); disp = displayedPositionsFor e rc;
          utf16_pos = utf8_to_utf16_offset Q bytes (dp_position disp);
          caret = cursorRect G (setPosition (ed_text e) (min (max utf16_pos 0) (int (length (ed_text e)))) 0);
          caret_visible = in_area G (adjusted caret (- 2) (- font_height G - 2) 2 2)
      in (case (dp_selectionStart disp, dp_selectionEnd disp) of
            (Some a, Some b) \<Rightarrow>
              if a \<noteq> b then paintSelectionBand Q G (ed_text e) bytes (min a b) (max a b) (rc_color rc) else []
          | _ \<Rightarrow> [])
         @ (if caret_visible then paintCaretAndLabel G caret rc else []))"

definition paintEvent :: "qt \<Rightarrow> geometry \<Rightarrow> editor \<Rightarrow> paint_op list" where
  "paintEvent Q G e = concat (map (paint_cursor Q G e) (ed_remote_cursors e))"

section \<open>What the bands cover\<close>

text \<open>The separators of the blocks are at the last position of each.\<close>

definition separators :: "(int \<times> int) list \<Rightarrow> int set" where
  "separators bs = (\<lambda>(p, n). p + n - 1) ` set bs"

lemma positioned_bounds: "(p, n) \<in> set (positioned q ns) \<Longrightarrow> q \<le> p \<and> p + n \<le> q + int (sum_list ns)"
  by (induction ns arbitrary: q) fastforce+

lemma separators_after: "list_all (\<lambda>n. 0 < n) ns \<Longrightarrow> i \<in> separators (positioned q ns) \<Longrightarrow> q \<le> i"
proof (induction ns arbitrary: q)
  case (Cons n ns)
  then show ?case by (fastforce simp: separators_def)
qed (simp add: separators_def)

lemma separators_Cons [simp]: "separators ((p, n) # bs) = insert (p + n - 1) (separators bs)"
  by (simp add: separators_def)

text \<open>
  The spans of a selection that starts in the first block: each lies in one block, and together
  they are the selected positions without the separators.
\<close>

lemma band_spans_cover:
  assumes "list_all (\<lambda>n. 0 < n) ns" "q \<le> c" "ns \<noteq> [] \<longrightarrow> c < q + int (hd ns)" "e \<le> q + int (sum_list ns) - 1"
  shows "(\<exists>(a, b) \<in> set (band_spans e c (positioned q ns)). a \<le> i \<and> i < b)
    \<longleftrightarrow> c \<le> i \<and> i < e \<and> i \<notin> separators (positioned q ns)"
  using assms
proof (induction ns arbitrary: q c)
  case Nil
  then show ?case by simp
next
  case (Cons n ns)
  show ?case
  proof (cases "c < e")
    case False
    then show ?thesis by simp
  next
    case True
    let ?stop = "q + int n - 1"
    have n: "0 < n" "list_all (\<lambda>n. 0 < n) ns" using Cons.prems(1) by simp_all
    show ?thesis
    proof (cases "e \<le> ?stop")
      case inside: True
      have "\<not> e + 1 < e" by simp
      then have "band_spans e c (positioned q (n # ns)) = [(c, e)]"
        using True inside by (cases ns) (simp_all add: min_def)
      moreover have "i < e \<Longrightarrow> i \<notin> separators (positioned (q + int n) ns)"
        using separators_after [OF n(2), of i "q + int n"] inside by auto
      ultimately show ?thesis using inside by auto
    next
      case False
      then have "band_spans e c (positioned q (n # ns)) = (c, ?stop) # band_spans e (?stop + 1) (positioned (q + int n) ns)"
        using True by (simp add: min_def)
      moreover have "ns \<noteq> [] \<longrightarrow> q + int n < q + int n + int (hd ns)"
        using n(2) by (cases ns) simp_all
      then have "(\<exists>(a, b) \<in> set (band_spans e (?stop + 1) (positioned (q + int n) ns)). a \<le> i \<and> i < b)
          \<longleftrightarrow> ?stop + 1 \<le> i \<and> i < e \<and> i \<notin> separators (positioned (q + int n) ns)"
        using Cons.IH [OF n(2), of "q + int n" "?stop + 1"] Cons.prems(4) by simp
      moreover have "i \<in> separators (positioned (q + int n) ns) \<Longrightarrow> q + int n \<le> i"
        using separators_after [OF n(2)] .
      ultimately show ?thesis
        using False Cons.prems(2,3) by auto
    qed
  qed
qed

lemma band_spans_in_block:
  assumes "list_all (\<lambda>n. 0 < n) ns" "q \<le> c" "ns \<noteq> [] \<longrightarrow> c < q + int (hd ns)"
    and "(a, b) \<in> set (band_spans e c (positioned q ns))"
  shows "a \<le> b \<and> (\<exists>(p, n) \<in> set (positioned q ns). p \<le> a \<and> b \<le> p + n - 1)"
  using assms
proof (induction ns arbitrary: q c)
  case (Cons n ns)
  let ?stop = "min (q + int n - 1) e"
  have c: "c < e" using Cons.prems(4) by (auto split: if_splits)
  then consider "a = c" "b = ?stop" | "(a, b) \<in> set (band_spans e (?stop + 1) (positioned (q + int n) ns))"
    using Cons.prems(4) by (auto simp: Let_def)
  then show ?case
  proof cases
    case 1
    then show ?thesis using Cons.prems(2,3) c by auto
  next
    case 2
    then have "\<not> e \<le> q + int n - 1" by (cases ns) (auto simp: min_def split: if_splits)
    then have e: "?stop + 1 = q + int n" by simp
    have "ns \<noteq> [] \<longrightarrow> q + int n < q + int n + int (hd ns)" using Cons.prems(1) by (cases ns) simp_all
    with Cons.IH [of "q + int n" "q + int n"] 2 Cons.prems(1) show ?thesis unfolding e by auto
  qed
qed simp

text \<open>\<open>findBlock\<close> cuts the blocks before the position off.\<close>

lemma findBlock_rest:
  assumes "0 \<le> c" "c < int (sum_list (block_lengths G))" "list_all (\<lambda>n. 0 < n) (block_lengths G)"
  obtains q ns where "findBlock G c = positioned q ns" "q \<le> c" "ns \<noteq> []" "c < q + int (hd ns)"
    "list_all (\<lambda>n. 0 < n) ns" "q + int (sum_list ns) = int (sum_list (block_lengths G))"
    "\<And>i. c \<le> i \<Longrightarrow> i \<in> separators (positioned q ns) \<longleftrightarrow> i \<in> separators (positioned 0 (block_lengths G))"
    "set (positioned q ns) \<subseteq> set (positioned 0 (block_lengths G))"
proof -
  have "\<exists>q ns'. dropWhile (\<lambda>(p, n). p + n \<le> c) (positioned q0 ns) = positioned q ns' \<and> q \<le> c \<and> ns' \<noteq> [] \<and> c < q + int (hd ns')
      \<and> list_all (\<lambda>n. 0 < n) ns' \<and> q + int (sum_list ns') = q0 + int (sum_list ns)
      \<and> (\<forall>i. c \<le> i \<longrightarrow> (i \<in> separators (positioned q ns') \<longleftrightarrow> i \<in> separators (positioned q0 ns)))
      \<and> set (positioned q ns') \<subseteq> set (positioned q0 ns)"
    if "q0 \<le> c" "c < q0 + int (sum_list ns)" "list_all (\<lambda>n. 0 < n) ns" for q0 ns
    using that
  proof (induction ns arbitrary: q0)
    case (Cons n ns)
    show ?case
    proof (cases "q0 + int n \<le> c")
      case True
      from Cons.IH [of "q0 + int n"] Cons.prems True obtain q ns' where
        "dropWhile (\<lambda>(p, n). p + n \<le> c) (positioned (q0 + int n) ns) = positioned q ns'" "q \<le> c" "ns' \<noteq> []" "c < q + int (hd ns')"
        "list_all (\<lambda>n. 0 < n) ns'" "q + int (sum_list ns') = q0 + int n + int (sum_list ns)"
        "\<forall>i. c \<le> i \<longrightarrow> (i \<in> separators (positioned q ns') \<longleftrightarrow> i \<in> separators (positioned (q0 + int n) ns))"
        "set (positioned q ns') \<subseteq> set (positioned (q0 + int n) ns)"
        by auto
      with True show ?thesis by (intro exI [of _ q] exI [of _ ns']) auto
    next
      case False
      with Cons.prems show ?thesis by (intro exI [of _ q0] exI [of _ "n # ns"]) auto
    qed
  qed simp
  from this [of 0 "block_lengths G"] assms that show ?thesis
    by (auto simp: findBlock_def)
qed

section \<open>Properties\<close>

text \<open>
  C40: the bands of a selection. For a selection inside the document, the painted bands belong to
  stretches of text that each lie in one block, and a position is in one of the stretches exactly
  if it is selected and not the separator between two blocks.
\<close>

theorem selection_bands_cover:
  assumes "geometry_of G s" "0 \<le> s16" "s16 < e16" "e16 \<le> int (length s)"
    and "utf8_to_utf16_offset Q bytes a8 = s16" "utf8_to_utf16_offset Q bytes b8 = e16"
  shows "\<exists>spans. paintSelectionBand Q G s bytes a8 b8 color = map (\<lambda>span. DrawBand color (band G s span)) spans
    \<and> (\<forall>(a, b) \<in> set spans. a \<le> b \<and> (\<exists>(p, n) \<in> set (positioned 0 (block_lengths G)). p \<le> a \<and> b \<le> p + n - 1))
    \<and> (\<forall>i. (\<exists>(a, b) \<in> set spans. a \<le> i \<and> i < b)
          \<longleftrightarrow> s16 \<le> i \<and> i < e16 \<and> i \<notin> separators (positioned 0 (block_lengths G)))"
proof -
  have total: "list_all (\<lambda>n. 0 < n) (block_lengths G)" "int (sum_list (block_lengths G)) = int (length s) + 1"
    using assms(1) by (simp_all add: geometry_of_def)
  have "s16 < int (sum_list (block_lengths G))" using total(2) assms(3,4) by simp
  from findBlock_rest [OF assms(2) this total(1)] obtain q ns where bs: "findBlock G s16 = positioned q ns" "q \<le> s16"
    "ns \<noteq> []" "s16 < q + int (hd ns)" "list_all (\<lambda>n. 0 < n) ns" "q + int (sum_list ns) = int (sum_list (block_lengths G))"
    "\<And>i. s16 \<le> i \<Longrightarrow> i \<in> separators (positioned q ns) \<longleftrightarrow> i \<in> separators (positioned 0 (block_lengths G))"
    "set (positioned q ns) \<subseteq> set (positioned 0 (block_lengths G))" by blast
  let ?spans = "band_spans e16 s16 (positioned q ns)"
  have "a \<le> b \<and> (\<exists>(p, n) \<in> set (positioned 0 (block_lengths G)). p \<le> a \<and> b \<le> p + n - 1)"
    if "(a, b) \<in> set ?spans" for a b
    using band_spans_in_block [OF bs(5,2) _ that] bs(4,8) by blast
  moreover have "(\<exists>(a, b) \<in> set ?spans. a \<le> i \<and> i < b)
      \<longleftrightarrow> s16 \<le> i \<and> i < e16 \<and> i \<notin> separators (positioned 0 (block_lengths G))" for i
    using band_spans_cover [OF bs(5,2), of e16 i] bs(4,6,7) total(2) assms(4) by auto
  moreover have "paintSelectionBand Q G s bytes a8 b8 color = map (\<lambda>span. DrawBand color (band G s span)) ?spans"
    using assms(5,6) bs(1) by (simp add: paintSelectionBand_def)
  ultimately show ?thesis by (intro exI [of _ ?spans]) auto
qed

text \<open>A selection from the middle of the first of three lines into the third.\<close>

definition three_lines :: geometry where
  "three_lines = \<lparr>cursorRect = (\<lambda>p. \<lparr>r_left = 10 * (p mod 4), r_top = 20 * (p div 4), r_width = 1, r_height = 20\<rparr>),
     block_lengths = [4, 4, 4], font_height = 16, advance = (\<lambda>name. 8 * int (length name)), in_area = (\<lambda>_. True)\<rparr>"

definition three_lines_text :: qstring where
  "three_lines_text = [0x61, 0x62, 0x63, 0x0A, 0x61, 0x62, 0x63, 0x0A, 0x61, 0x62, 0x63]"

theorem selection_bands_cover_witness:
  "let s = three_lines_text; G = three_lines
   in \<exists>spans. paintSelectionBand unicode_qt G s (toUtf8 unicode_qt s) 1 9 gray = map (\<lambda>span. DrawBand gray (band G s span)) spans
      \<and> (\<exists>(a, b) \<in> set spans. a \<le> 4 \<and> 4 < b) \<and> \<not> (\<exists>(a, b) \<in> set spans. a \<le> 3 \<and> 3 < b)"
proof -
  have geo: "geometry_of three_lines three_lines_text" by (simp add: geometry_of_def three_lines_def three_lines_text_def)
  let ?bytes = "toUtf8 unicode_qt three_lines_text"
  have txt8: "three_lines_text = [0x61] @ [0x62, 0x63, 0x0A, 0x61, 0x62, 0x63, 0x0A, 0x61, 0x62, 0x63]"
    "three_lines_text = [0x61, 0x62, 0x63, 0x0A, 0x61, 0x62, 0x63, 0x0A, 0x61] @ [0x62, 0x63]"
    by (simp_all add: three_lines_text_def)
  have len8: "length (toUtf8 unicode_qt [0x61]) = 1" "length ?bytes = 11"
    "length (toUtf8 unicode_qt [0x61, 0x62, 0x63, 0x0A, 0x61, 0x62, 0x63, 0x0A, 0x61]) = 9"
    by (simp_all add: three_lines_text_def high_surrogate_def low_surrogate_def unicode_qt_def enc_cp_def)
  have split1: "?bytes = toUtf8 unicode_qt [0x61] @ toUtf8 unicode_qt [0x62, 0x63, 0x0A, 0x61, 0x62, 0x63, 0x0A, 0x61, 0x62, 0x63]"
    unfolding txt8(1) by (rule unicode.toUtf8_append) (simp_all add: high_surrogate_def low_surrogate_def)
  have split9: "?bytes = toUtf8 unicode_qt [0x61, 0x62, 0x63, 0x0A, 0x61, 0x62, 0x63, 0x0A, 0x61] @ toUtf8 unicode_qt [0x62, 0x63]"
    unfolding txt8(2) by (rule unicode.toUtf8_append) (simp_all add: high_surrogate_def low_surrogate_def)
  have "take 1 ?bytes = toUtf8 unicode_qt [0x61]" using split1 len8(1) by simp
  moreover have "take 9 ?bytes = toUtf8 unicode_qt [0x61, 0x62, 0x63, 0x0A, 0x61, 0x62, 0x63, 0x0A, 0x61]"
    using split9 len8(3) by (metis append_eq_conv_conj)
  ultimately have "fromUtf8 unicode_qt (take 1 ?bytes) = [0x61]"
    "fromUtf8 unicode_qt (take 9 ?bytes) = [0x61, 0x62, 0x63, 0x0A, 0x61, 0x62, 0x63, 0x0A, 0x61]"
    by (simp_all add: unicode.fromUtf8_toUtf8 high_surrogate_def low_surrogate_def)
  then have off: "utf8_to_utf16_offset unicode_qt ?bytes 1 = 1" "utf8_to_utf16_offset unicode_qt ?bytes 9 = 9"
    using len8(2) by (simp_all add: utf8_to_utf16_offset_def size32_def word_le_nat_alt)
  have sep: "separators (positioned 0 (block_lengths three_lines)) = {3, 7, 11}"
    by (simp add: three_lines_def separators_def)
  have len: "int (length three_lines_text) = 11" by (simp add: three_lines_text_def)
  obtain spans where spans: "paintSelectionBand unicode_qt three_lines three_lines_text (toUtf8 unicode_qt three_lines_text) 1 9 gray
      = map (\<lambda>span. DrawBand gray (band three_lines three_lines_text span)) spans"
    "\<And>i. (\<exists>(a, b) \<in> set spans. a \<le> i \<and> i < b)
          \<longleftrightarrow> 1 \<le> i \<and> i < 9 \<and> i \<notin> separators (positioned 0 (block_lengths three_lines))"
    using selection_bands_cover [OF geo _ _ _ off, of gray] len by auto
  have "\<exists>(a, b) \<in> set spans. a \<le> 4 \<and> 4 < b" "\<not> (\<exists>(a, b) \<in> set spans. a \<le> 3 \<and> 3 < b)"
    unfolding spans(2) sep by simp_all
  with spans(1) show ?thesis unfolding Let_def by blast
qed

text \<open>
  The label with the name is above the caret, or below it where it would stick out at the top, so
  for a caret that is not above the widget it is not cut off at the top.
\<close>

lemma label_is_visible: "0 \<le> r_bottom caret + 1 \<Longrightarrow> 0 \<le> r_top (label_rect G caret name)"
  by (simp add: label_rect_def Let_def)

end
