(* ===== verification/Server_Threads.thy ===== *)
theory Server_Threads
  imports Server_Handler_Props
begin

text \<open>
  The threads the server keeps beside its workers: autosave (\<^verbatim>\<open>server/src/autosave.cpp\<close>) and the
  cursor aggregator (\<^verbatim>\<open>server/src/cursor_aggregator.cpp\<close>), and the acceptor of
  \<^verbatim>\<open>server/src/tcp_server.cpp\<close>. Both threads repeat a round over all documents until they are
  asked to stop. Each document of a round is a step of its own, so other threads can change the
  documents in between.
\<close>

section \<open>A thread that repeats a round\<close>

text \<open>Where the thread is: at the test of the loop, asleep, in a round with items left, returned.\<close>

datatype 'w loop_pc = LoopTest | Asleep | InRound "'w list" | LoopDone

record 'w background =
  bg_started :: bool
  bg_stop :: bool
  bg_pc :: "'w loop_pc"

text \<open>
  One step of the loop: \<open>items\<close> is what a round goes through, \<open>work\<close> the body for one item. Waking
  up is a step that may happen at any time: because the interval is over, or for a stop request.
\<close>

definition loop_step :: "('s \<Rightarrow> 'w list) \<Rightarrow> ('w \<Rightarrow> 's \<Rightarrow> 's) \<Rightarrow> bool \<Rightarrow> 'w loop_pc \<times> 's \<Rightarrow> 'w loop_pc \<times> 's" where
  "loop_step items work stop = (\<lambda>(pc, s).
     case pc of
       LoopTest \<Rightarrow> (if stop then LoopDone else Asleep, s)
     | Asleep \<Rightarrow> (if stop then LoopDone else InRound (items s), s)
     | InRound [] \<Rightarrow> (LoopTest, s)
     | InRound (w # ws) \<Rightarrow> (InRound ws, work w s)
     | LoopDone \<Rightarrow> (LoopDone, s))"

text \<open>The constructors, \<open>start\<close>, and the first half of \<open>stop\<close>; the second half waits for \<open>LoopDone\<close>.\<close>

definition background_thread :: "'w background" where
  "background_thread = \<lparr>bg_started = False, bg_stop = False, bg_pc = LoopDone\<rparr>"

definition start_background :: "'w background \<Rightarrow> 'w background" where
  "start_background b = \<lparr>bg_started = True, bg_stop = False, bg_pc = LoopTest\<rparr>"

definition ask_background :: "'w background \<Rightarrow> 'w background" where
  "ask_background b = (if bg_started b then b\<lparr>bg_stop := True\<rparr> else b)"

definition join_background :: "'w background \<Rightarrow> 'w background option" where
  "join_background b =
     (if \<not> bg_started b then Some b
      else if bg_pc b = LoopDone then Some (b\<lparr>bg_started := False\<rparr>) else None)"

text \<open>The autosave thread; its state besides the loop is the manager.\<close>

definition autosave_document :: "(string \<Rightarrow> bool) \<Rightarrow> nat \<Rightarrow> document_manager \<Rightarrow> document_manager" where
  "autosave_document w r m =
     (if is_dirty (deref m r) then maybe_create_snapshot w (save_document w m r) r else m)"

definition autosave_step :: "(string \<Rightarrow> bool) \<Rightarrow> nat background \<times> document_manager \<Rightarrow> nat background \<times> document_manager" where
  "autosave_step w = (\<lambda>(b, m).
     let (pc, m) = loop_step all_loaded_documents (autosave_document w) (bg_stop b) (bg_pc b, m)
     in (b\<lparr>bg_pc := pc\<rparr>, m))"

text \<open>The cursor aggregator; it reads the manager and sends messages.\<close>

definition aggregate_document :: "(u64 \<Rightarrow> bool) \<Rightarrow> u32 \<Rightarrow> document_manager \<times> outbox \<Rightarrow> document_manager \<times> outbox" where
  "aggregate_document alive docId = (\<lambda>(m, out). (m, out @ broadcast_cursors alive m docId))"

definition aggregator_step ::
  "(u64 \<Rightarrow> bool) \<Rightarrow> u32 background \<times> document_manager \<times> outbox \<Rightarrow> u32 background \<times> document_manager \<times> outbox" where
  "aggregator_step alive = (\<lambda>(b, s).
     let (pc, s) = loop_step (\<lambda>s. all_active_doc_ids (fst s)) (aggregate_document alive) (bg_stop b) (bg_pc b, s)
     in (b\<lparr>bg_pc := pc\<rparr>, s))"

section \<open>Rounds and stopping\<close>

lemma loop_step_simps [simp]:
  "loop_step items work True (LoopTest, s) = (LoopDone, s)" "loop_step items work True (Asleep, s) = (LoopDone, s)"
  "loop_step items work False (LoopTest, s) = (Asleep, s)" "loop_step items work False (Asleep, s) = (InRound (items s), s)"
  "loop_step items work stop (InRound [], s) = (LoopTest, s)"
  "loop_step items work stop (InRound (w # ws), s) = (InRound ws, work w s)"
  "loop_step items work stop (LoopDone, s) = (LoopDone, s)"
  by (simp_all add: loop_step_def)

lemma loop_items:
  "(loop_step items work stop ^^ length ws) (InRound (ws @ vs), s) = (InRound vs, fold work ws s)"
  by (induction ws arbitrary: s) (simp_all add: funpow_swap1)

lemma loop_all_items: "(loop_step items work stop ^^ length ws) (InRound ws, s) = (InRound [], fold work ws s)"
  using loop_items [where ws = ws and vs = "[]"] by (simp only: append_Nil2)

text \<open>A round that nothing interrupts does the work for all items.\<close>

lemma loop_round:
  "(loop_step items work False ^^ (length (items s) + 2)) (Asleep, s) = (LoopTest, fold work (items s) s)"
proof -
  have "(loop_step items work False ^^ (length (items s) + 2)) (Asleep, s)
      = (loop_step items work False ^^ Suc (length (items s))) (loop_step items work False (Asleep, s))"
    by (simp add: funpow_swap1)
  also have "\<dots> = (LoopTest, fold work (items s) s)" by (simp add: loop_all_items)
  finally show ?thesis .
qed

text \<open>
  A thread that is asked to stop finishes the round it is in and returns: \<open>stop\<close> comes back, after
  at most as many steps of the thread as there are items left, and two.
\<close>

definition items_left :: "'w loop_pc \<Rightarrow> 'w list" where
  "items_left pc = (case pc of InRound ws \<Rightarrow> ws | _ \<Rightarrow> [])"

lemma loop_stops:
  "(loop_step items work True ^^ (length (items_left pc) + 2)) (pc, s) = (LoopDone, fold work (items_left pc) s)"
proof (cases "\<exists>ws. pc = InRound ws")
  case True
  then obtain ws where ws: "pc = InRound ws" by blast
  have "(loop_step items work True ^^ (2 + length ws)) (InRound ws, s)
      = (loop_step items work True ^^ 2) (InRound [], fold work ws s)"
    by (simp only: funpow_add comp_apply loop_all_items)
  then show ?thesis by (simp add: ws items_left_def numeral_2_eq_2 add.commute)
next
  case False
  then show ?thesis by (cases pc) (simp_all add: items_left_def numeral_2_eq_2)
qed

text \<open>What the autosave thread does in a round is the round of \<open>Server_Manager\<close>.\<close>

lemma autosave_round_steps: "fold (autosave_document w) (all_loaded_documents m) m = autosave_round w m"
  by (simp add: autosave_round_def autosave_document_def [abs_def])

lemma autosave_steps:
  "(autosave_step w ^^ n) (b, m) =
     (case (loop_step all_loaded_documents (autosave_document w) (bg_stop b) ^^ n) (bg_pc b, m) of (pc, m) \<Rightarrow> (b\<lparr>bg_pc := pc\<rparr>, m))"
  by (induction n) (auto simp: autosave_step_def split: prod.splits)

lemma autosave_wakes_up:
  assumes "bg_pc b = Asleep" "bg_stop b = False"
  shows "(autosave_step w ^^ (length (all_loaded_documents m) + 2)) (b, m) = (b\<lparr>bg_pc := LoopTest\<rparr>, autosave_round w m)"
  unfolding autosave_steps assms loop_round autosave_round_steps by simp

lemma autosave_stop_returns:
  assumes "bg_started b"
  shows "(autosave_step w ^^ (length (items_left (bg_pc b)) + 2)) (ask_background b, m) =
      (b\<lparr>bg_stop := True, bg_pc := LoopDone\<rparr>, fold (autosave_document w) (items_left (bg_pc b)) m)"
    "join_background (b\<lparr>bg_stop := True, bg_pc := LoopDone\<rparr>) \<noteq> None"
proof -
  have ask: "ask_background b = b\<lparr>bg_stop := True\<rparr>" using assms by (simp add: ask_background_def)
  have "bg_stop (ask_background b) = True" "bg_pc (ask_background b) = bg_pc b" by (simp_all add: ask)
  then show "(autosave_step w ^^ (length (items_left (bg_pc b)) + 2)) (ask_background b, m) =
      (b\<lparr>bg_stop := True, bg_pc := LoopDone\<rparr>, fold (autosave_document w) (items_left (bg_pc b)) m)"
    unfolding autosave_steps by (simp only: loop_stops prod.case) (simp add: ask)
  show "join_background (b\<lparr>bg_stop := True, bg_pc := LoopDone\<rparr>) \<noteq> None"
    by (simp add: join_background_def)
qed

lemma aggregator_round:
  "fold (aggregate_document alive) docs (m, out) = (m, out @ concat (map (broadcast_cursors alive m) docs))"
  by (induction docs arbitrary: out) (simp_all add: aggregate_document_def)

lemma aggregator_steps:
  "(aggregator_step alive ^^ n) (b, s) =
     (case (loop_step (\<lambda>s. all_active_doc_ids (fst s)) (aggregate_document alive) (bg_stop b) ^^ n) (bg_pc b, s)
      of (pc, s) \<Rightarrow> (b\<lparr>bg_pc := pc\<rparr>, s))"
  by (induction n) (auto simp: aggregator_step_def split: prod.splits)

lemma aggregator_wakes_up:
  assumes "bg_pc b = Asleep" "bg_stop b = False"
  shows "(aggregator_step alive ^^ (length (all_active_doc_ids m) + 2)) (b, m, out) =
    (b\<lparr>bg_pc := LoopTest\<rparr>, m, out @ cursor_round alive m)"
  using loop_round [where items = "\<lambda>s. all_active_doc_ids (fst s)" and work = "aggregate_document alive" and s = "(m, out)"]
  unfolding aggregator_steps assms aggregator_round cursor_round_def comp_apply fst_conv
  by (simp only: prod.case)

text \<open>Stopping twice is harmless: the destructor after \<open>stop\<close> finds nothing to wait for.\<close>

lemma stop_twice: "join_background b = Some b' \<Longrightarrow> join_background (ask_background b') = Some b'"
  by (auto simp: join_background_def ask_background_def split: if_splits)

section \<open>Two threads that save one document\<close>

text \<open>
  \<open>save_write\<close> in two parts: writing the temporary file, and renaming it; \<open>None\<close> is the exception
  of \<^verbatim>\<open>fs::rename\<close> when there is no such file. The shutdown saves all documents before it stops
  the autosave thread, and both use the same temporary file for a document.
\<close>

definition save_temp :: "(string \<Rightarrow> bool) \<Rightarrow> document_manager \<Rightarrow> u32 \<Rightarrow> string \<Rightarrow> document_manager \<times> bool" where
  "save_temp w m docId body =
     (let tmp_path = doc_path (data_dir m) docId @ ''.tmp''
      in if \<not> w tmp_path then (m, False) else (m\<lparr>files := um_set tmp_path body (files m)\<rparr>, True))"

definition save_rename :: "document_manager \<Rightarrow> u32 \<Rightarrow> document_manager option" where
  "save_rename m docId =
     (let path = doc_path (data_dir m) docId; tmp_path = path @ ''.tmp''
      in case um_find (files m) tmp_path of
           None \<Rightarrow> None
         | Some body \<Rightarrow> Some (m\<lparr>files := um_set path body (um_erase tmp_path (files m))\<rparr>))"

lemma save_write_parts:
  "save_write w m docId body =
     (case save_temp w m docId body of
        (m', False) \<Rightarrow> (m', False)
      | (m', True) \<Rightarrow> (the (save_rename m' docId), save_rename m' docId \<noteq> None))"
  by (simp add: save_write_def save_temp_def save_rename_def Let_def umap)

lemma rename_removes_temp:
  "save_rename m docId = Some m' \<Longrightarrow> data_dir m' = data_dir m \<and>
     um_find (files m') (doc_path (data_dir m) docId @ ''.tmp'') = None"
  by (auto simp: save_rename_def Let_def umap split: option.splits)

text \<open>Both threads have written the temporary file before either renames it: the second one fails.\<close>

lemma concurrent_saves_throw:
  assumes "save_temp w m docId body = (m1, True)" "save_temp w m1 docId body' = (m2, True)"
    and "save_rename m2 docId = Some m3"
  shows "save_rename m3 docId = None"
  using rename_removes_temp [OF assms(3)] by (simp add: save_rename_def)

section \<open>The acceptor\<close>

definition tcp_start :: "server \<Rightarrow> server" where
  "tcp_start sv = sv\<lparr>accepting := True\<rparr>"

definition tcp_stop :: "server \<Rightarrow> server" where
  "tcp_stop sv = sv\<lparr>accepting := False\<rparr>"

definition all_sessions :: "server \<Rightarrow> u64 list" where
  "all_sessions sv = registered sv"

text \<open>The completion of \<^verbatim>\<open>async_accept\<close>, with or without an error.\<close>

definition accept_done :: "bool \<Rightarrow> server \<Rightarrow> server" where
  "accept_done failed sv =
     (if \<not> accepting sv then sv
      else if failed then sv\<lparr>accepting := False\<rparr>
      else accept sv)"

lemma accept_registers:
  assumes "accepting sv"
  shows "all_sessions (accept_done False sv) = next_session_id sv # all_sessions sv
    \<and> reading (conn (accept_done False sv) (next_session_id sv)) = ReadHeader []
    \<and> accepting (accept_done False sv)"
  using assms
  by (simp add: accept_done_def accept_def all_sessions_def Let_def put_conn_def conn_def umap
      start_session_def do_read_header_def)

text \<open>
  The handler of a failed accept returns without waiting for the next connection: from then on no
  connection is accepted any more.
\<close>

lemma failed_accept_is_final: "fold accept_done rest (accept_done True sv) = accept_done True sv"
proof -
  have "\<not> accepting sv' \<Longrightarrow> fold accept_done rest sv' = sv'" for sv'
    by (induction rest) (simp_all add: accept_done_def)
  then show ?thesis by (simp add: accept_done_def)
qed

end
