(* ===== verification/Server_Log.thy ===== *)
theory Server_Log
  imports Collab_Fifo Wire_Json
begin

text \<open>
  The log and the configuration of the server: \<^verbatim>\<open>server/src/async_logger.cpp\<close>,
  \<^verbatim>\<open>server/src/log_sink.cpp\<close>, \<^verbatim>\<open>server/src/server_config.cpp\<close> and what \<^verbatim>\<open>server/src/main.cpp\<close>
  makes of them.

  Any thread may log; one writer thread takes the entries out of the queue and hands them to the
  sinks. A step of the writer is one attempt to take an entry, with the writing of it, or the test
  of the stop flag. Flushing and sleeping are left out: what a sink has been given is its text. The
  logs of what was accepted and written are not part of the program.
\<close>

section \<open>Levels and sinks\<close>

datatype log_level = Debug | Info | Warn | Error

definition level_rank :: "log_level \<Rightarrow> nat" where
  "level_rank l = (case l of Debug \<Rightarrow> 0 | Info \<Rightarrow> 1 | Warn \<Rightarrow> 2 | Error \<Rightarrow> 3)"

lemma level_rank_inject: "level_rank a = level_rank b \<Longrightarrow> a = b"
  by (cases a; cases b) (simp_all add: level_rank_def)

instantiation log_level :: linorder
begin

definition less_eq_log_level :: "log_level \<Rightarrow> log_level \<Rightarrow> bool" where
  "a \<le> b \<longleftrightarrow> level_rank a \<le> level_rank b"

definition less_log_level :: "log_level \<Rightarrow> log_level \<Rightarrow> bool" where
  "a < b \<longleftrightarrow> level_rank a < level_rank b"

instance
  by standard (auto simp: less_eq_log_level_def less_log_level_def intro: level_rank_inject)

end

definition level_str :: "log_level \<Rightarrow> string" where
  "level_str l = (case l of Debug \<Rightarrow> ''DEBUG'' | Info \<Rightarrow> ''INFO'' | Warn \<Rightarrow> ''WARN'' | Error \<Rightarrow> ''ERROR'')"

text \<open>A file sink knows whether its file could be opened; a console sink has two streams.\<close>

datatype log_sink = FileSink bool string | ConsoleSink string string

definition newline :: string where
  "newline = [CHR 0x0A]"

fun sink_write :: "log_level \<Rightarrow> string \<Rightarrow> log_sink \<Rightarrow> log_sink" where
  "sink_write level formatted (FileSink is_open contents) =
     FileSink is_open (if is_open then contents @ formatted @ newline else contents)"
| "sink_write level formatted (ConsoleSink out err) =
     (if Warn \<le> level then ConsoleSink out (err @ formatted @ newline) else ConsoleSink (out @ formatted @ newline) err)"

section \<open>The logger\<close>

record time =
  tm_year :: nat
  tm_mon :: nat
  tm_mday :: nat
  tm_hour :: nat
  tm_min :: nat
  tm_sec :: nat
  tm_ms :: nat

datatype writer_pc = Testing | Draining | Final | Returned

record async_logger =
  log_queue :: "(log_level \<times> string) list"
  sinks :: "log_sink list"
  min_level :: log_level
  stop_flag :: bool
  writer :: writer_pc
  accepted :: "(log_level \<times> string) list"
  written :: "(log_level \<times> string) list"

definition AsyncLogger :: "log_sink list \<Rightarrow> log_level \<Rightarrow> async_logger" where
  "AsyncLogger ss level =
     \<lparr>log_queue = [], sinks = ss, min_level = level, stop_flag = False, writer = Testing, accepted = [], written = []\<rparr>"

text \<open>The formats \<^verbatim>\<open>{:02d}\<close>, \<^verbatim>\<open>{:03d}\<close> and \<^verbatim>\<open>{:04d}\<close>.\<close>

definition padded :: "nat \<Rightarrow> nat \<Rightarrow> string" where
  "padded width n = replicate (width - length (decimal n)) CHR ''0'' @ decimal n"

definition log_entry :: "time \<Rightarrow> log_level \<Rightarrow> string \<Rightarrow> string" where
  "log_entry t level message =
     ''['' @ padded 4 (tm_year t) @ ''-'' @ padded 2 (tm_mon t) @ ''-'' @ padded 2 (tm_mday t) @ '' ''
     @ padded 2 (tm_hour t) @ '':'' @ padded 2 (tm_min t) @ '':'' @ padded 2 (tm_sec t) @ ''.'' @ padded 3 (tm_ms t)
     @ ''] ['' @ level_str level @ ''] '' @ message"

definition log_message :: "time \<Rightarrow> log_level \<Rightarrow> string \<Rightarrow> async_logger \<Rightarrow> async_logger" where
  "log_message t level message lg =
     (if level < min_level lg then lg
      else
        (let entry = (level, log_entry t level message)
         in lg\<lparr>log_queue := fifo_enqueue entry (log_queue lg), accepted := accepted lg @ [entry]\<rparr>))"

definition log_info :: "time \<Rightarrow> string \<Rightarrow> async_logger \<Rightarrow> async_logger" where
  "log_info t = log_message t Info"

definition log_warn :: "time \<Rightarrow> string \<Rightarrow> async_logger \<Rightarrow> async_logger" where
  "log_warn t = log_message t Warn"

definition log_error :: "time \<Rightarrow> string \<Rightarrow> async_logger \<Rightarrow> async_logger" where
  "log_error t = log_message t Error"

definition log_debug :: "time \<Rightarrow> string \<Rightarrow> async_logger \<Rightarrow> async_logger" where
  "log_debug t = log_message t Debug"

text \<open>\<^verbatim>\<open>shutdown\<close> asks the writer to stop and waits until it has returned.\<close>

definition shutdown_log :: "async_logger \<Rightarrow> async_logger" where
  "shutdown_log lg = lg\<lparr>stop_flag := True\<rparr>"

definition dispatch_entry :: "log_level \<times> string \<Rightarrow> async_logger \<Rightarrow> async_logger" where
  "dispatch_entry item lg =
     lg\<lparr>sinks := map (sink_write (fst item) (snd item)) (sinks lg), written := written lg @ [item]\<rparr>"

text \<open>One attempt to take an entry; \<open>pc\<close> is where the writer goes when there is none.\<close>

definition take_entry :: "writer_pc \<Rightarrow> async_logger \<Rightarrow> async_logger" where
  "take_entry pc lg =
     (case fifo_try_dequeue (log_queue lg) of
        (Some entry, rest) \<Rightarrow> dispatch_entry entry (lg\<lparr>log_queue := rest\<rparr>)
      | (None, _) \<Rightarrow> lg\<lparr>writer := pc\<rparr>)"

definition writer_step :: "async_logger \<Rightarrow> async_logger" where
  "writer_step lg =
     (case writer lg of
        Testing \<Rightarrow> lg\<lparr>writer := (if stop_flag lg then Final else Draining)\<rparr>
      | Draining \<Rightarrow> take_entry Testing lg
      | Final \<Rightarrow> take_entry Returned lg
      | Returned \<Rightarrow> lg)"

inductive log_step :: "async_logger \<Rightarrow> async_logger \<Rightarrow> bool" where
  log_any: "log_step lg (log_message t level message lg)"
| log_stop: "log_step lg (shutdown_log lg)"
| log_writer: "log_step lg (writer_step lg)"

text \<open>What the sinks hold after a list of entries.\<close>

definition sink_write_all :: "(log_level \<times> string) list \<Rightarrow> log_sink \<Rightarrow> log_sink" where
  "sink_write_all items s = fold (\<lambda>(level, text) s. sink_write level text s) items s"

definition log_inv :: "log_sink list \<Rightarrow> log_level \<Rightarrow> async_logger \<Rightarrow> bool" where
  "log_inv ss level lg =
     (accepted lg = written lg @ log_queue lg \<and> sinks lg = map (sink_write_all (written lg)) ss
      \<and> min_level lg = level \<and> (\<forall>(l, t) \<in> set (accepted lg). level \<le> l))"

lemma take_entry_inv: "log_inv ss level lg \<Longrightarrow> log_inv ss level (take_entry pc lg)"
  by (cases "log_queue lg")
    (auto simp: take_entry_def fifo_try_dequeue_def dispatch_entry_def log_inv_def sink_write_all_def split_beta)

lemma log_step_inv: "log_step lg lg' \<Longrightarrow> log_inv ss level lg \<Longrightarrow> log_inv ss level lg'"
proof (induction rule: log_step.induct)
  case (log_any lg t l message)
  then show ?case by (auto simp: log_message_def log_inv_def fifo_enqueue_def Let_def)
next
  case (log_stop lg)
  then show ?case by (simp add: shutdown_log_def log_inv_def)
next
  case (log_writer lg)
  then show ?case
    by (cases "writer lg") (simp_all add: writer_step_def take_entry_inv, simp add: log_inv_def)
qed

text \<open>
  In every interleaving, the sinks hold the entries taken out so far, in the order in which they
  were accepted, and nothing below the minimum level is accepted.
\<close>

lemma log_reachable: "log_step\<^sup>*\<^sup>* (AsyncLogger ss level) lg \<Longrightarrow> log_inv ss level lg"
proof (induction rule: rtranclp_induct)
  case base
  show ?case by (simp add: AsyncLogger_def log_inv_def sink_write_all_def map_idI)
next
  case (step lg lg')
  then show ?case using log_step_inv by blast
qed

text \<open>A writer left alone after the stop request writes everything that was accepted.\<close>

lemma final_drain:
  "writer lg = Final \<Longrightarrow> \<exists>k lg'. (writer_step ^^ k) lg = lg' \<and> writer lg' = Returned \<and> log_queue lg' = []"
proof (induction "length (log_queue lg)" arbitrary: lg)
  case 0
  then have "writer_step lg = lg\<lparr>writer := Returned\<rparr>" "log_queue lg = []"
    by (simp_all add: writer_step_def take_entry_def fifo_try_dequeue_def)
  then have "(writer_step ^^ 1) lg = lg\<lparr>writer := Returned\<rparr>" "log_queue (lg\<lparr>writer := Returned\<rparr>) = []" by simp_all
  then show ?case by (metis async_logger.select_convs(5) async_logger.surjective async_logger.update_convs(5))
next
  case (Suc n)
  obtain x xs where q: "log_queue lg = x # xs" using Suc.hyps(2) by (cases "log_queue lg") auto
  have "log_queue (writer_step lg) = xs" "writer (writer_step lg) = Final"
    using q Suc.prems by (simp_all add: writer_step_def take_entry_def fifo_try_dequeue_def dispatch_entry_def)
  moreover have "n = length xs" using q Suc.hyps(2) by simp
  ultimately obtain k lg' where "(writer_step ^^ k) (writer_step lg) = lg'" "writer lg' = Returned" "log_queue lg' = []"
    using Suc.hyps(1) by blast
  then have "(writer_step ^^ Suc k) lg = lg'" by (simp add: funpow_swap1)
  then show ?case using \<open>writer lg' = Returned\<close> \<open>log_queue lg' = []\<close> by blast
qed

text \<open>An entry logged after the writer has returned is accepted and never written.\<close>

lemma late_entry_lost:
  assumes "writer lg = Returned" "min_level lg \<le> level"
  shows "log_queue (log_message t level message lg) = log_queue lg @ [(level, log_entry t level message)]
    \<and> writer_step (log_message t level message lg) = log_message t level message lg"
  using assms by (simp add: log_message_def Let_def fifo_enqueue_def writer_step_def)

section \<open>The configuration\<close>

record server_config =
  cfg_port :: u16
  thread_pool_size :: u64
  autosave_interval_sec :: u32
  cursor_broadcast_interval_ms :: u32
  idle_document_timeout_sec :: u32
  snapshot_revision_threshold :: u32
  cfg_data_dir :: string
  shutdown_timeout_sec :: u32
  cfg_log_level :: string
  log_console :: bool

definition default_config :: server_config where
  "default_config = \<lparr>cfg_port = 9000, thread_pool_size = 0, autosave_interval_sec = 30, cursor_broadcast_interval_ms = 100,
     idle_document_timeout_sec = 300, snapshot_revision_threshold = 100, cfg_data_dir = ''./data'',
     shutdown_timeout_sec = 10, cfg_log_level = ''info'', log_console = True\<rparr>"

text \<open>\<open>hw\<close> is \<^verbatim>\<open>std::thread::hardware_concurrency()\<close>.\<close>

definition effective_thread_pool_size :: "u32 \<Rightarrow> server_config \<Rightarrow> u64" where
  "effective_thread_pool_size hw c =
     (if 0 < thread_pool_size c then thread_pool_size c else if 0 < hw then ucast hw else 4)"

text \<open>The local \<^verbatim>\<open>get\<close>: a member that is missing or of another type leaves the field as it is.\<close>

definition get_field :: "'j json_api \<Rightarrow> 'j \<Rightarrow> string \<Rightarrow> ('j \<Rightarrow> 'a option) \<Rightarrow> 'a \<Rightarrow> 'a" where
  "get_field J j key rd field =
     (if j_contains J j key
      then (case Option.bind (j_at J j key) rd of Some v \<Rightarrow> v | None \<Rightarrow> field)
      else field)"

text \<open>
  \<open>text\<close> is the contents of the file, \<open>None\<close> when it cannot be opened, and \<open>get_size\<close> stands for
  \<^verbatim>\<open>get<size_t>()\<close>; \<^verbatim>\<open>get<uint16_t>()\<close> keeps the low half of the number.
\<close>

definition load_config :: "'j json_api \<Rightarrow> ('j \<Rightarrow> u64 option) \<Rightarrow> string option \<Rightarrow> server_config" where
  "load_config J get_size contents =
     (case Option.bind contents (j_parse J) of
        None \<Rightarrow> default_config
      | Some j \<Rightarrow>
          (let c = default_config in
           \<lparr>cfg_port = get_field J j ''port'' (\<lambda>v. map_option ucast (j_get_uint J v)) (cfg_port c),
            thread_pool_size = get_field J j ''thread_pool_size'' get_size (thread_pool_size c),
            autosave_interval_sec = get_field J j ''autosave_interval_sec'' (j_get_uint J) (autosave_interval_sec c),
            cursor_broadcast_interval_ms =
              get_field J j ''cursor_broadcast_interval_ms'' (j_get_uint J) (cursor_broadcast_interval_ms c),
            idle_document_timeout_sec =
              get_field J j ''idle_document_timeout_sec'' (j_get_uint J) (idle_document_timeout_sec c),
            snapshot_revision_threshold =
              get_field J j ''snapshot_revision_threshold'' (j_get_uint J) (snapshot_revision_threshold c),
            cfg_data_dir = get_field J j ''data_dir'' (j_get_string J) (cfg_data_dir c),
            shutdown_timeout_sec = get_field J j ''shutdown_timeout_sec'' (j_get_uint J) (shutdown_timeout_sec c),
            cfg_log_level = get_field J j ''log_level'' (j_get_string J) (cfg_log_level c),
            log_console = get_field J j ''log_console'' (j_get_bool J) (log_console c)\<rparr>))"

text \<open>The level and the sinks \<^verbatim>\<open>main\<close> chooses; \<open>opens\<close> tells whether the log file can be opened.\<close>

definition configured_level :: "server_config \<Rightarrow> log_level" where
  "configured_level c =
     (if cfg_log_level c = ''debug'' then Debug
      else if cfg_log_level c = ''warn'' then Warn
      else if cfg_log_level c = ''error'' then Error
      else Info)"

definition configured_sinks :: "bool \<Rightarrow> server_config \<Rightarrow> log_sink list" where
  "configured_sinks opens c = [FileSink opens []] @ (if log_console c then [ConsoleSink [] []] else [])"

lemma effective_thread_pool_size_pos: "0 < effective_thread_pool_size hw c"
proof -
  have "0 < (ucast hw :: u64)" if "0 < hw"
    using that by (simp add: word_less_nat_alt unat_ucast_u64)
  then show ?thesis by (simp add: effective_thread_pool_size_def)
qed

text \<open>A configuration is read back member by member.\<close>

lemma get_field_written:
  "json_values J \<Longrightarrow> distinct (map fst kvs) \<Longrightarrow> map_of kvs key = Some v \<Longrightarrow> rd v = Some x \<Longrightarrow>
   get_field J (j_object J kvs) key rd d = x"
  by (simp add: get_field_def json_values.contains_iff json_values.at_object)

lemma get_field_missing:
  "json_values J \<Longrightarrow> distinct (map fst kvs) \<Longrightarrow> map_of kvs key = None \<Longrightarrow> get_field J (j_object J kvs) key rd d = d"
  by (simp add: get_field_def json_values.contains_iff json_values.at_object)

end
