(* ===== verification/Server_Main.thy ===== *)
theory Server_Main
  imports Server_Lifecycle Server_Threads Thread_Pool Server_Log
begin

text \<open>
  \<^verbatim>\<open>server/src/main.cpp\<close>: how the parts of the server are put together. The network thread hands
  every message to the thread pool, and a worker runs the handler on it.

  A task of the pool is a number; \<open>jobs\<close> says which message of which connection it is. The steps of
  a worker other than the running of its task are those of the pool. Documents, the cursor
  aggregator and the autosave thread run on the shared \<open>srv\<close>; their rounds are in \<open>Server_Manager\<close>.
\<close>

section \<open>Starting\<close>

record process =
  srv :: server
  pool :: thread_pool
  logger :: async_logger
  jobs :: "(u64 \<times> string) list"

text \<open>The accounts, rights and documents of an earlier run are not read; only its files are there.\<close>

definition initial_server :: "server_config \<Rightarrow> (string, string) umap \<Rightarrow> string list \<Rightarrow> server" where
  "initial_server cfg fs dirs =
     \<lparr>auth = AuthManager,
      dm = DocumentManager [] (cfg_data_dir cfg) fs
             ((cfg_data_dir cfg @ ''/logs'') # (cfg_data_dir cfg @ ''/snapshots'') # (cfg_data_dir cfg @ ''/documents'') # dirs),
      conns = [], registered = [], next_session_id = 1, accepting = True, sent = []\<rparr>"

definition start_message :: "u32 \<Rightarrow> server_config \<Rightarrow> string" where
  "start_message hw cfg =
     ''Port: '' @ decimal (unat (cfg_port cfg)) @ '', Thread pool: '' @ decimal (unat (effective_thread_pool_size hw cfg))
     @ '', Data dir: '' @ cfg_data_dir cfg"

definition start_process ::
  "time \<Rightarrow> u32 \<Rightarrow> bool \<Rightarrow> server_config \<Rightarrow> (string, string) umap \<Rightarrow> string list \<Rightarrow> process" where
  "start_process t hw opens cfg fs dirs =
     (let lg = AsyncLogger (configured_sinks opens cfg) (configured_level cfg);
          lg = log_info t (start_message hw cfg) (log_info t ''Starting server...'' lg);
          lg = log_info t (''Server started on port '' @ decimal (unat (cfg_port cfg))) lg
      in \<lparr>srv = initial_server cfg fs dirs, pool = ThreadPool (unat (effective_thread_pool_size hw cfg)),
          logger = lg, jobs = []\<rparr>)"

section \<open>Messages\<close>

text \<open>The callback of the network thread.\<close>

definition on_message :: "u64 \<Rightarrow> string \<Rightarrow> process \<Rightarrow> process" where
  "on_message sid payload p =
     p\<lparr>pool := submit (length (jobs p)) (pool p), jobs := jobs p @ [(sid, payload)]\<rparr>"

text \<open>A worker; running its task runs the handler.\<close>

definition run_worker :: "'j env \<Rightarrow> nat \<Rightarrow> process \<Rightarrow> process" where
  "run_worker E w p =
     (let p' = p\<lparr>pool := worker_step w (pool p)\<rparr>
      in case worker_pcs (pool p) ! w of
           Running task \<Rightarrow>
             (if task < length (jobs p)
              then p'\<lparr>srv := fst (handle_message E (srv p) (fst (jobs p ! task)) (snd (jobs p ! task)))\<rparr>
              else p')
         | _ \<Rightarrow> p')"

inductive process_step :: "'j env \<Rightarrow> process \<Rightarrow> process \<Rightarrow> bool" for E where
  new_message: "process_step E p (on_message sid payload p)"
| any_worker: "w < length (worker_pcs (pool p)) \<Longrightarrow> process_step E p (run_worker E w p)"

text \<open>The messages handled so far, in the order of their handling.\<close>

definition handled :: "process \<Rightarrow> (u64 \<times> string) list" where
  "handled p = map (\<lambda>task. jobs p ! task) (finished (pool p))"

definition jobs_inv :: "process \<Rightarrow> bool" where
  "jobs_inv p = (submitted (pool p) = [0..<length (jobs p)])"

lemma process_step_pool: "process_step E p p' \<Longrightarrow> pool_step (pool p) (pool p')"
  by (induction rule: process_step.induct)
    (auto simp: on_message_def run_worker_def Let_def intro: pool_step.intros split: worker_pc.splits)

lemma worker_step_submitted [simp]: "submitted (worker_step w p) = submitted p"
  by (auto simp: worker_step_def fifo_try_dequeue_def Let_def split: worker_pc.splits list.splits)

lemma process_step_jobs: "process_step E p p' \<Longrightarrow> jobs_inv p \<Longrightarrow> jobs_inv p'"
  by (induction rule: process_step.induct)
    (auto simp: on_message_def run_worker_def Let_def jobs_inv_def submit_def split: worker_pc.splits)

text \<open>
  Every message is handled at most once, and all of them are when the pool is at rest.
\<close>

lemma process_reachable:
  assumes "(process_step E)\<^sup>*\<^sup>* (start_process t hw opens cfg fs dirs) p"
  shows "pool_inv (pool p) \<and> jobs_inv p"
  using assms
proof (induction rule: rtranclp_induct)
  case base
  show ?case by (simp add: start_process_def Let_def pool_inv_init jobs_inv_def ThreadPool_def)
    (metis ThreadPool_def pool_inv_init)
next
  case (step p p')
  then show ?case using pool_step_inv [OF process_step_pool [OF step.hyps(2)]] process_step_jobs [OF step.hyps(2)] by blast
qed

lemma all_messages_handled:
  assumes "(process_step E)\<^sup>*\<^sup>* (start_process t hw opens cfg fs dirs) p"
    and "idle (pool p)" "\<forall>task. Taken task \<notin> set (worker_pcs (pool p))"
  shows "mset (handled p) = mset (jobs p)"
proof -
  have inv: "pool_inv (pool p)" "jobs_inv p" using process_reachable [OF assms(1)] by simp_all
  have "mset (finished (pool p)) = mset [0..<length (jobs p)]"
    using pool_at_rest [OF inv(1) assms(2,3)] inv(2) by (simp add: jobs_inv_def)
  then have "mset (handled p) = image_mset (\<lambda>task. jobs p ! task) (mset [0..<length (jobs p)])"
    by (simp add: handled_def)
  also have "\<dots> = mset (map (\<lambda>task. jobs p ! task) [0..<length (jobs p)])" by simp
  also have "\<dots> = mset (jobs p)" by (simp only: map_nth)
  finally show ?thesis .
qed

section \<open>The end\<close>

text \<open>The signal handler, and what \<^verbatim>\<open>main\<close> does when the event loop has returned.\<close>

definition signal_received :: "'j env \<Rightarrow> (u64 \<Rightarrow> bool) \<Rightarrow> time \<Rightarrow> nat \<Rightarrow> process \<Rightarrow> process" where
  "signal_received E alive t sig p =
     p\<lparr>logger := log_info t (''Received signal '' @ decimal sig) (logger p), srv := fst (shutdown_server E alive (srv p))\<rparr>"

definition finish_process :: "time \<Rightarrow> process \<Rightarrow> process" where
  "finish_process t p = p\<lparr>logger := shutdown_log (log_info t ''Server stopped'' (logger p))\<rparr>"

text \<open>
  Shutting down takes no message out of the pool: what was waiting is handled afterwards, by the
  workers, on the server whose sessions are gone.
\<close>

lemma shutdown_keeps_jobs:
  "tasks (pool (finish_process t' (signal_received E alive t sig p))) = tasks (pool p)"
  "jobs (finish_process t' (signal_received E alive t sig p)) = jobs p"
  by (simp_all add: finish_process_def signal_received_def)

section \<open>What a restart loses\<close>

text \<open>
  The manager of a new process counts documents from 1 again, whatever files there are; the first
  document that is created truncates the file of the earlier document 1.
\<close>

lemma restart_truncates:
  assumes "\<forall>path. w path"
  shows "um_find (files (fst (create_document w (dm (initial_server cfg fs dirs)) ttl owner))) (doc_path (cfg_data_dir cfg) 1) = Some []"
  using assms by (simp add: create_document_def Let_def save_meta_def write_file_def initial_server_def DocumentManager_def
      create_directories_def umap path_kinds)

end
