(* ===== verification/Spec2Isabelle.thy ===== *)
theory Spec2Isabelle
  imports Collab_Document Access_Control Auth_Manager Token_Bucket Client_Codec Client_OT Client_Network Server_Lifecycle Collab_Opening Collab_Limits Mpsc_Destroy Thread_Pool
  Editor_Window_Props Editor_Animation Editor_Paint Client_Documents_Props Server_Main
begin

text \<open>
  A verification development for the collaborative text editor.

  \<^bold>\<open>The program.\<close> A server keeps text documents that several clients edit at once. Both sides
  are C++: \<^verbatim>\<open>core/\<close> (operations, their transformation, documents, rights, accounts, queues,
  threads), \<^verbatim>\<open>protocol/\<close> (messages as JSON in length-prefixed frames), \<^verbatim>\<open>server/\<close> (Boost.Asio
  connections, one actor thread per open document, autosave, cursors, logging) and \<^verbatim>\<open>client/\<close>
  (a Qt program with a network thread, an editing controller and the windows). A client applies the
  edits of its user at once and keeps at most one of them in flight; the server transforms what it
  gets past the operations it has accepted meanwhile, acknowledges it to the author and sends the
  result to everyone else; a client transforms what it receives past its own unacknowledged edits.

  \<^bold>\<open>Foundations.\<close> \<open>Collab_Prelude\<close> has the machine integers, the two edits of a text
  (\<open>splice_in\<close>, \<open>cut_out\<close>) with the laws by which they commute, and the association lists that stand
  for \<^verbatim>\<open>std::unordered_map\<close>, as an instance of the locale \<open>keyed_store\<close>. \<open>Collab_Fifo\<close> is the contract
  of a queue, the locale \<open>fifo_queue\<close>. Offsets, lengths and revisions are 32-bit words that wrap
  around as in the code; theorems bound the sizes where wrapping would matter. \<open>Collab_Double\<close> has
  double precision numbers, as rationals with the rounding of every operation and a bound on its
  error.

  \<^bold>\<open>Core.\<close>
  \<^item> \<open>Collab_Operation\<close>, \<open>Collab_OT\<close>: \<^verbatim>\<open>core/src/operation.cpp\<close>, \<^verbatim>\<open>core/src/ot.cpp\<close>. Every pair of operations
    that fit a document converges after transformation; \<open>effect\<close> is the reference meaning without
    clamping or wrapping.
  \<^item> \<open>Collab_Document\<close>: \<^verbatim>\<open>core/src/document.cpp\<close>. A document refines a log of accepted operations; a late
    operation is transformed past exactly the part of the log its author has not seen, the
    bounded history refuses exactly the operations that are too old, and one boundary case of
    transforming two deletions can erase a text.
  \<^item> \<open>Access_Control\<close>, \<open>Auth_Manager\<close>, \<open>Token_Bucket\<close>: rights as a matrix behind a packed key; accounts
    and salted digests; the compare-and-swap loops of the rate limiter, which no other part of the
    program uses.
  \<^item> \<open>Collab_Mpsc\<close>, \<open>Mpsc_Destroy\<close>: \<^verbatim>\<open>core/include/collab/mpsc_queue.h\<close>, one step per access to shared memory over a
    heap of cells that can be freed and reused. It is memory safe and first in first out, unless
    a queue is built at the address of an earlier one, and its destructor frees every node once.
  \<^item> \<open>Thread_Pool\<close>: \<^verbatim>\<open>core/src/thread_pool.cpp\<close>, one step per critical section or atomic access,
    with its destructor, which joins the workers one after another.

  \<^bold>\<open>Protocol.\<close> \<open>Wire_Json\<close> is the interface of \<^verbatim>\<open>nlohmann::json\<close>, a record of functions with the
  documented laws in the locales \<open>json_values\<close> and \<open>json_library\<close>; \<open>Wire_Json_Text\<close> interprets them on
  JSON values with a printer and a parser, on which all examples run. \<open>Wire_Message\<close> has the message
  types, structs and codecs of \<^verbatim>\<open>protocol.h\<close> and \<^verbatim>\<open>protocol.cpp\<close>, \<open>Wire_Codec\<close> their round trips, \<open>Wire_Frame\<close>
  the frames.

  \<^bold>\<open>Server.\<close>
  \<^item> \<open>Server_Session\<close>: \<^verbatim>\<open>client_session.cpp\<close>, a connection as completions of reads and writes. Frames are
    reassembled however they are cut, written in order, and the end is reported once.
  \<^item> \<open>Server_Document\<close>: \<^verbatim>\<open>document_session.cpp\<close>, the actor of a document and who receives what.
  \<^item> \<open>Server_Manager\<close>, \<open>Server_Manager_Props\<close>: \<^verbatim>\<open>document_manager.cpp\<close>, \<^verbatim>\<open>autosave.cpp\<close>, \<^verbatim>\<open>cursor_aggregator.cpp\<close> over
    a heap of shared documents and a map of files: the registry stays well formed, deletion is
    complete, what is saved is loaded back, and an edit can slip past autosave.
  \<^item> \<open>Server_Handler\<close>, \<open>Server_Handler_Props\<close>: \<^verbatim>\<open>message_handler.cpp\<close>, \<^verbatim>\<open>tcp_server.cpp\<close>, one function from
    server state to server state per request: what needs a login, ownership or the right to edit.
    \<open>Server_Colour\<close> is \<^verbatim>\<open>generate_color\<close>, with bounds on the three channels.
  \<^item> \<open>Server_Lifecycle\<close>: shutting down, connections that send garbage, and two places where steps of
    different threads do not fit together.
  \<^item> \<open>Server_Threads\<close>: the loops of the autosave thread and of the cursor aggregator, two saves of one
    document at once, and the acceptor of \<^verbatim>\<open>tcp_server.cpp\<close>.
  \<^item> \<open>Server_Log\<close>, \<open>Server_Main\<close>: \<^verbatim>\<open>async_logger.cpp\<close>, \<^verbatim>\<open>log_sink.cpp\<close>, \<^verbatim>\<open>server_config.cpp\<close>, \<^verbatim>\<open>main.cpp\<close>: the log reaches
    every sink in order, the parts are put together, every message is handled once, and what a
    restart loses.

  \<^bold>\<open>Client.\<close>
  \<^item> \<open>Client_Network\<close>, \<open>Client_Thread\<close>, \<open>Client_Codec\<close>: \<^verbatim>\<open>network_manager.cpp\<close> with the event queue of its thread,
    \<^verbatim>\<open>protocol_codec.cpp\<close>.
  \<^item> \<open>Client_OT\<close>: \<^verbatim>\<open>local_document.cpp\<close>, \<^verbatim>\<open>ot_controller.cpp\<close>. No message crashes the controller, and its text
    is always the server's text, as far as it is known, with the outstanding edits applied.
  \<^item> \<open>Editor_Text\<close>, \<open>Editor_Widget\<close>, \<open>Editor_Window\<close>, \<open>Editor_Window_Props\<close>: \<^verbatim>\<open>utf8_codec.cpp\<close>, \<^verbatim>\<open>cursor_translator.cpp\<close>,
    \<^verbatim>\<open>remote_cursors_model.cpp\<close>, \<^verbatim>\<open>editor_widget.cpp\<close>, \<^verbatim>\<open>user_panel_widget.cpp\<close>, \<^verbatim>\<open>status_bar_widget.cpp\<close>, \<^verbatim>\<open>editor_window.cpp\<close>.
    What the conversions of Qt promise is the locale \<open>qt_text\<close>, interpreted on the UTF-8 of the
    Unicode standard; the text field shows the local document through any run of edits and
    messages. \<open>Editor_Animation\<close>: the drawn remote cursors reach their positions, without
    overshooting, in 81 ticks of the timer. \<open>Editor_Paint\<close>: what is drawn for them over the geometry
    of the laid out text; the bands of a selection cover it block by block.
  \<^item> \<open>Client_Documents\<close>, \<open>Client_Documents_Props\<close>: \<^verbatim>\<open>connection_dialog.cpp\<close>, \<^verbatim>\<open>document_list_window.cpp\<close>.
    \<open>Client_App\<close>: the whole client as its \<^verbatim>\<open>main.cpp\<close> puts it together; no run of events crashes it,
    and nothing but requests to sign in is sent before it is signed in.

  \<^bold>\<open>The whole.\<close> \<open>Collab_System\<close> composes the client's controller, the server's actor and the channels
  between them as queues of messages, with any number of other users, and shows that a client that
  has received everything and has nothing outstanding has the server's text. \<open>Collab_Transport\<close>
  replaces the channels by what the program has there: the event queue of the network thread,
  bytes read in any pieces, the thread pool, the message handler, the write queue and the signals
  queued for the user interface. Every step of it is a step of \<open>Collab_System\<close> or none, so that
  the texts converge over bytes too, and \<open>Collab_Transport_Props\<close> shows that an edit typed in a
  quiet system can always be delivered and acknowledged. \<open>Collab_Opening\<close> shows how such a system
  comes about: signing in leaves dialog and server with the same user, and opening a document
  from the list leaves all parts in the starting state of these theorems. \<open>Collab_Limits\<close> shows why
  they ask for one connection per user: a second one diverges.

  \<^bold>\<open>How it is modelled.\<close> Classes are records, methods functions on them, exceptions and failures
  \<open>None\<close> or a flag, shared pointers references into an explicit heap. A method that holds its
  object's lock is one step; where the code gives up a lock in between, the parts are steps of
  their own. Memory is sequentially consistent. Loops are structural recursions or steps of a
  relation; no definition uses fuel, except that schedules in examples are finite lists. The loop
  of the queue's destructor is a partial function, proved to return. A compiler may round a product
  and a sum together or apart; \<open>fused\<close> stands for its choice, and the theorems hold for both.

  \<^bold>\<open>Bounds.\<close> Theorems about texts assume that they stay below 2 GiB or 4 GiB, where the code stores
  sizes in 32 bits; the server bounds a frame to 16 MiB and a message to 1000 operations. The
  convergence theorems assume that an operation fits the text its author saw.

  \<^bold>\<open>Parameters.\<close> Not in the repository and taken as arguments: the JSON library, SHA-256 and the
  random generator, Boost.Asio's and Qt's event loops (events come in any order), Qt's strings,
  input fields, text document and its layout, the file system's refusals, \<^verbatim>\<open>std::thread::hardware_concurrency\<close>.

  \<^bold>\<open>Not modelled.\<close> The layout of widgets and the painting of lists and panels, the style sheet, logging calls outside the
  logger, timers as such (a timeout is an event), weak memory orders, doubles beyond the range of
  the computations (infinities, subnormal numbers), and the undo, snapshot and rate limit
  messages, which have types but no handlers.
\<close>

end
